(* ===== verification/Prelude.thy ===== *)
theory Prelude
  imports Main "HOL-Library.Word" "HOL-Library.Sublist"
begin

section \<open>Prelude: shared types, outcomes and generic lemmas\<close>

text \<open>
  What every component of the development shares: the outcome type of C code that may
  crash or not return, the error numbers the handlers report, C integers of 32 bits,
  NULL-able strings, and generic lemmas on lists that the component proofs use through the
  simplifier. The collections \<open>outcome_simps\<close> and \<open>sql_simps\<close> gather the rewrite
  rules of the layers above.
\<close>

named_theorems outcome_simps \<open>rewrite rules for outcomes and their sequencing\<close>
named_theorems sql_simps \<open>rewrite rules for the SQL layer\<close>

subsection \<open>Integers and strings of the C code\<close>

text \<open>\<^verbatim>\<open>tagsistant_inode\<close> and \<^verbatim>\<open>tagsistant_tag_id\<close> are both \<^verbatim>\<open>uint32_t\<close>.\<close>

type_synonym tagsistant_inode = "32 word"
type_synonym tagsistant_tag_id = "32 word"

text \<open>A \<^verbatim>\<open>gchar *\<close>: \<open>None\<close> is the NULL pointer.\<close>

type_synonym gchars = "string option"

text \<open>The macro \<^verbatim>\<open>_safe_string\<close> of \<^verbatim>\<open>sql.h\<close>.\<close>

definition safe_string :: "gchars \<Rightarrow> string" where
  "safe_string s = (case s of None \<Rightarrow> '''' | Some t \<Rightarrow> t)"

text \<open>What the C library's \<^verbatim>\<open>%s\<close> conversion prints for a pointer that may be NULL.\<close>

definition printf_s :: "gchars \<Rightarrow> string" where
  "printf_s s = (case s of None \<Rightarrow> ''(null)'' | Some t \<Rightarrow> t)"

text \<open>
  The macro \<^verbatim>\<open>strlen\<close> of \<^verbatim>\<open>debug.h\<close>, which is 0 on NULL.
\<close>

definition strlen :: "gchars \<Rightarrow> nat" where
  "strlen s = (case s of None \<Rightarrow> 0 | Some t \<Rightarrow> length t)"

lemma safe_string_simps [simp]: "safe_string None = ''''" "safe_string (Some s) = s"
  by (simp_all add: safe_string_def)

lemma printf_s_simps [simp]: "printf_s None = ''(null)''" "printf_s (Some s) = s"
  by (simp_all add: printf_s_def)

lemma strlen_simps [simp]: "strlen None = 0" "strlen (Some s) = length s"
  by (simp_all add: strlen_def)

subsection \<open>Error numbers and outcomes\<close>

text \<open>
  The error numbers the handlers set by name; \<open>Eother n\<close> stands for whatever other number
  a system call leaves in \<^verbatim>\<open>errno\<close>.
\<close>

datatype errno = EPERM | ENOENT | EIO | EBADF | ENOMEM | EACCES | EFAULT | EXDEV | EINVAL | EROFS
  | Eother nat

text \<open>
  The outcome of running C code: it returns, it dereferences a NULL pointer (or reads
  outside of a buffer), or it never returns.
\<close>

datatype 'a run = Done 'a | Segv | Hang

definition run_bind :: "'a run \<Rightarrow> ('a \<Rightarrow> 'b run) \<Rightarrow> 'b run" where
  "run_bind m f = (case m of Done a \<Rightarrow> f a | Segv \<Rightarrow> Segv | Hang \<Rightarrow> Hang)"

lemma run_bind_simps [simp, outcome_simps]:
  "run_bind (Done a) f = f a" "run_bind Segv f = Segv" "run_bind Hang f = Hang"
  by (simp_all add: run_bind_def)

lemma run_bind_Done_iff: "run_bind m f = Done b \<longleftrightarrow> (\<exists>a. m = Done a \<and> f a = Done b)"
  by (cases m) auto

lemma run_bind_assoc: "run_bind (run_bind m f) g = run_bind m (\<lambda>a. run_bind (f a) g)"
  by (cases m) auto

subsection \<open>Lists\<close>

text \<open>
  An SQL callback that stores into one buffer is called once per row, so the last row wins.
\<close>

definition last_row :: "'a \<Rightarrow> 'a list \<Rightarrow> 'a" where
  "last_row init rows = (if rows = [] then init else last rows)"

lemma last_row_simps [simp]: "last_row a [] = a" "last_row a (xs @ [x]) = x" "last_row a [x] = x"
  by (simp_all add: last_row_def)

lemma last_row_cases: "last_row a xs = a \<and> xs = [] \<or> last_row a xs \<in> set xs"
  by (simp add: last_row_def)

lemma takeWhile_append_stop: "\<forall>x \<in> set xs. P x \<Longrightarrow> \<not> P y \<Longrightarrow> takeWhile P (xs @ y # ys) = xs"
  by (induction xs) auto

lemma dropWhile_append_stop: "\<forall>x \<in> set xs. P x \<Longrightarrow> \<not> P y \<Longrightarrow> dropWhile P (xs @ y # ys) = y # ys"
  by (induction xs) auto

lemma filter_eq_single: "distinct xs \<Longrightarrow> x \<in> set xs \<Longrightarrow> filter (\<lambda>y. y = x) xs = [x]"
  by (induction xs) (auto simp: filter_empty_conv)

lemma filter_unique:
  assumes "distinct xs" "x \<in> set xs" "\<And>y. y \<in> set xs \<Longrightarrow> P y \<longleftrightarrow> y = x"
  shows "filter P xs = [x]"
proof -
  have "filter P xs = filter (\<lambda>y. y = x) xs"
    using assms(3) by (rule filter_cong [OF refl])
  then show ?thesis using filter_eq_single[OF assms(1,2)] by simp
qed

subsection \<open>Words\<close>

lemma sint_nonneg_unat:
  assumes "0 \<le> sint (x :: 32 word)"
  shows "nat (sint x) = unat x"
proof -
  have "sint x < 2 ^ 32" using sint_lt[of x] by simp
  then have "take_bit 32 (sint x) = sint x" using assms by (simp add: take_bit_int_eq_self)
  then have "uint x = sint x" using uint_sint[of x] by simp
  then show ?thesis by (metis nat_uint_eq)
qed

lemma word_of_nat_nonzero: "0 < n \<Longrightarrow> n < 2 ^ 32 \<Longrightarrow> (word_of_nat n :: 32 word) \<noteq> 0"
  by (metis len_num0 len_bit0 len_num1 less_not_refl mod_less mult_2 numeral_Bit0 one_add_one unat_0 unat_of_nat mult.right_neutral)

lemma sint_word_of_int32: "0 \<le> n \<Longrightarrow> n < 2 ^ 31 \<Longrightarrow> sint (word_of_int n :: 32 word) = n"
  by (simp add: sint_sbintrunc' signed_take_bit_int_eq_self)

end
