(* ===== verification/Glib_Strings.thy ===== *)
theory Glib_Strings
  imports Prelude
begin

section \<open>Strings: numbers, splitting, and the regular expressions of the source\<close>

text \<open>
  The string operations the program uses. Strings are byte strings. The GLib regular
  expressions of the source are fixed patterns; each is a definition here that says what
  the pattern matches, named after its use. PCRE's \<open>$\<close> matches at the end and before a
  final newline, unless \<^verbatim>\<open>G_REGEX_DOLLAR_ENDONLY\<close> is given. All classes in the
  patterns are ASCII, so matching bytes and matching UTF-8 characters agree.
\<close>

subsection \<open>Decimal numbers: \<^verbatim>\<open>%u\<close>, \<^verbatim>\<open>%d\<close>, \<^verbatim>\<open>strtoul\<close>\<close>

definition is_digit :: "char \<Rightarrow> bool" where
  "is_digit c \<longleftrightarrow> 48 \<le> (of_char c :: nat) \<and> (of_char c :: nat) \<le> 57"

definition digit_char :: "nat \<Rightarrow> char" where
  "digit_char n = char_of (48 + n)"

definition char_digit :: "char \<Rightarrow> nat" where
  "char_digit c = of_char c - 48"

fun dec :: "nat \<Rightarrow> string" where
  "dec n = (if n < 10 then [digit_char n] else dec (n div 10) @ [digit_char (n mod 10)])"

declare dec.simps [simp del]

definition undec :: "string \<Rightarrow> nat" where
  "undec s = foldl (\<lambda>a c. 10 * a + char_digit c) 0 s"

text \<open>\<^verbatim>\<open>%u\<close> and \<^verbatim>\<open>%d\<close> of an \<^verbatim>\<open>uint32_t\<close>: the second prints it as a signed number.\<close>

definition fmt_u :: "32 word \<Rightarrow> string" where
  "fmt_u w = dec (unat w)"

definition fmt_d :: "32 word \<Rightarrow> string" where
  "fmt_d w = (if sint w < 0 then CHR ''-'' # dec (nat (- sint w)) else dec (nat (sint w)))"

text \<open>
  \<^verbatim>\<open>strtoul(s, NULL, 10)\<close> of a string of digits, stored into an \<^verbatim>\<open>uint32_t\<close>: the
  64-bit result saturates, the assignment truncates.
\<close>

definition strtoul32 :: "string \<Rightarrow> 32 word" where
  "strtoul32 s = word_of_nat (min (undec s) (2 ^ 64 - 1))"

lemma of_char_digit_char: "n < 10 \<Longrightarrow> of_char (digit_char n) = 48 + n"
  by (simp add: digit_char_def)

lemma is_digit_digit_char [simp]: "n < 10 \<Longrightarrow> is_digit (digit_char n)"
  by (simp add: is_digit_def of_char_digit_char)

lemma char_digit_digit_char [simp]: "n < 10 \<Longrightarrow> char_digit (digit_char n) = n"
  by (simp add: char_digit_def of_char_digit_char)

lemma dec_digits: "\<forall>c \<in> set (dec n). is_digit c"
proof (induction n rule: dec.induct)
  case (1 n)
  then show ?case by (subst dec.simps) auto
qed

lemma dec_nonempty [simp]: "dec n \<noteq> []"
  by (subst dec.simps) simp

lemma undec_snoc: "undec (s @ [c]) = 10 * undec s + char_digit c"
  by (simp add: undec_def)

lemma undec_dec [simp]: "undec (dec n) = n"
proof (induction n rule: dec.induct)
  case (1 n)
  show ?case
  proof (cases "n < 10")
    case True
    then show ?thesis by (subst dec.simps) (simp add: undec_def)
  next
    case False
    with 1 show ?thesis by (subst dec.simps) (simp add: undec_snoc)
  qed
qed

lemma dec_inj: "dec m = dec n \<longleftrightarrow> m = n"
  by (metis undec_dec)

lemma length_dec: "n < 10 ^ k \<Longrightarrow> 0 < k \<Longrightarrow> length (dec n) \<le> k"
proof (induction k arbitrary: n)
  case (Suc k)
  show ?case
  proof (cases "n < 10")
    case True
    then show ?thesis by (subst dec.simps) simp
  next
    case False
    then have "0 < k" using Suc.prems by (cases k) auto
    moreover have "n div 10 < 10 ^ k" using Suc.prems by (simp add: less_mult_imp_div_less mult.commute)
    ultimately have "length (dec (n div 10)) \<le> k" using Suc.IH by blast
    with False show ?thesis by (subst dec.simps) simp
  qed
qed simp

lemma strtoul32_dec: "n < 2 ^ 32 \<Longrightarrow> strtoul32 (dec n) = word_of_nat n"
  by (simp add: strtoul32_def)

lemma not_digit_simps [simp]:
  "\<not> is_digit (CHR ''_'')" "\<not> is_digit (CHR ''/'')" "\<not> is_digit (CHR ''-'')"
  by (simp_all add: is_digit_def)

subsection \<open>Searching, splitting and joining\<close>

text \<open>\<^verbatim>\<open>strstr\<close> and \<^verbatim>\<open>g_strstr_len\<close> used as a test.\<close>

fun strstr :: "string \<Rightarrow> string \<Rightarrow> bool" where
  "strstr p [] = (p = [])"
| "strstr p (c # cs) = (prefix p (c # cs) \<or> strstr p cs)"

lemma strstr_iff: "strstr p s \<longleftrightarrow> (\<exists>u v. s = u @ p @ v)"
proof (induction s)
  case (Cons c cs)
  note IH = Cons.IH
  show ?case
  proof
    assume "strstr p (c # cs)"
    with Cons show "\<exists>u v. c # cs = u @ p @ v"
      by (metis append_Cons append_Nil prefixE strstr.simps(2))
  next
    assume "\<exists>u v. c # cs = u @ p @ v"
    then obtain u v where e: "c # cs = u @ p @ v" by blast
    show "strstr p (c # cs)"
    proof (cases u)
      case Nil
      with e have "prefix p (c # cs)" by (metis append_Nil prefixI)
      then show ?thesis by simp
    next
      case (Cons d u')
      with e have "cs = u' @ p @ v" by simp
      then have "strstr p cs" using IH by blast
      then show ?thesis by simp
    qed
  qed
qed auto

text \<open>
  \<^verbatim>\<open>g_strsplit(s, delimiter, max_tokens)\<close> for a delimiter of one character: at most
  \<open>max_tokens\<close> strings, the last holding the rest; the empty string gives no token.
\<close>

fun split_upto :: "nat \<Rightarrow> char \<Rightarrow> string \<Rightarrow> string list" where
  "split_upto 0 d s = [s]"
| "split_upto (Suc n) d s =
     (if d \<in> set s
      then takeWhile (\<lambda>x. x \<noteq> d) s # split_upto n d (tl (dropWhile (\<lambda>x. x \<noteq> d) s))
      else [s])"

definition g_strsplit :: "char \<Rightarrow> nat \<Rightarrow> string \<Rightarrow> string list" where
  "g_strsplit d n s = (if s = [] then [] else split_upto (n - 1) d s)"

text \<open>\<^verbatim>\<open>g_strjoinv\<close> with a separator of one character.\<close>

fun g_strjoinv :: "char \<Rightarrow> string list \<Rightarrow> string" where
  "g_strjoinv d [] = []"
| "g_strjoinv d [s] = s"
| "g_strjoinv d (s # t # ts) = s @ d # g_strjoinv d (t # ts)"

lemma split_upto_not_Nil [simp]: "split_upto n d s \<noteq> []"
  by (cases n) auto

lemma g_strjoinv_Cons: "ts \<noteq> [] \<Longrightarrow> g_strjoinv d (s # ts) = s @ d # g_strjoinv d ts"
  by (cases ts) auto

lemma joinv_split: "g_strjoinv d (split_upto n d s) = s"
proof (induction n arbitrary: s)
  case (Suc n)
  have "takeWhile (\<lambda>x. x \<noteq> d) s @ d # tl (dropWhile (\<lambda>x. x \<noteq> d) s) = s" if "d \<in> set s"
    using that by (induction s) auto
  with Suc show ?case by (simp add: g_strjoinv_Cons)
qed simp

lemma split_joinv:
  assumes "ts \<noteq> []" "\<forall>t \<in> set ts. d \<notin> set t" "length ts \<le> Suc n"
  shows "split_upto n d (g_strjoinv d ts) = ts"
  using assms
proof (induction ts arbitrary: n)
  case (Cons t ts)
  have neq: "\<forall>x \<in> set t. x \<noteq> d" using Cons.prems by auto
  show ?case
  proof (cases "ts = []")
    case True
    with neq show ?thesis by (cases n) auto
  next
    case False
    with Cons.prems(3) obtain m where m: "n = Suc m" by (cases n) auto
    have "split_upto m d (g_strjoinv d ts) = ts" using Cons False m by auto
    then show ?thesis using False m neq
      by (simp add: g_strjoinv_Cons takeWhile_append_stop dropWhile_append_stop)
  qed
qed simp

text \<open>\<^verbatim>\<open>g_regex_replace_literal\<close> (and \<^verbatim>\<open>_eval\<close>) for a pattern without special characters.\<close>

function replace_literal :: "string \<Rightarrow> string \<Rightarrow> string \<Rightarrow> string" where
  "replace_literal p r [] = []"
| "replace_literal p r (c # cs) =
     (if p \<noteq> [] \<and> prefix p (c # cs) then r @ replace_literal p r (drop (length p) (c # cs))
      else c # replace_literal p r cs)"
  by pat_completeness auto
termination
  by (relation "measure (\<lambda>(p, r, s). length s)") auto

lemma replace_literal_id: "\<not> strstr p s \<Longrightarrow> replace_literal p r s = s"
  by (induction p r s rule: replace_literal.induct) auto

text \<open>The pattern \<^verbatim>\<open>/+\<close> replaced by a slash.\<close>

fun compress_slashes :: "string \<Rightarrow> string" where
  "compress_slashes (c # d # s) =
     (if c = CHR ''/'' \<and> d = CHR ''/'' then compress_slashes (d # s) else c # compress_slashes (d # s))"
| "compress_slashes s = s"

text \<open>\<^verbatim>\<open>g_path_get_basename\<close>.\<close>

definition g_path_get_basename :: "string \<Rightarrow> string" where
  "g_path_get_basename s =
     (if s = [] then ''.''
      else let t = dropWhile (\<lambda>c. c = CHR ''/'') (rev s)
           in if t = [] then ''/'' else rev (takeWhile (\<lambda>c. c \<noteq> CHR ''/'') t))"

subsection \<open>The patterns\<close>

definition newline :: string where
  "newline = [CHR 0x0A]"

definition ends_dollar :: "string \<Rightarrow> string \<Rightarrow> bool" where
  "ends_dollar p s \<longleftrightarrow> suffix p s \<or> suffix (p @ newline) s"

definition eq_dollar :: "string \<Rightarrow> string \<Rightarrow> bool" where
  "eq_dollar p s \<longleftrightarrow> s = p \<or> s = p @ newline"

text \<open>\<^verbatim>\<open>TAGSISTANT_DEFAULT_TRIPLE_TAG_REGEX\<close>, i.e. \<^verbatim>\<open>:$\<close>.\<close>

definition is_triple_token :: "string \<Rightarrow> bool" where
  "is_triple_token s = ends_dollar '':'' s"

text \<open>\<^verbatim>\<open>TAGSISTANT_RELATION_PATTERN\<close>: the anchors bind to the outer alternatives only.\<close>

definition relation_pattern :: "string \<Rightarrow> bool" where
  "relation_pattern s \<longleftrightarrow>
     prefix ''includes'' s \<or> strstr ''excludes'' s \<or> ends_dollar ''is_equivalent'' s"

text \<open>The macro \<^verbatim>\<open>is_all_path\<close>.\<close>

definition is_all_path :: "string \<Rightarrow> bool" where
  "is_all_path s \<longleftrightarrow> strstr ''/ALL/'' s \<or> ends_dollar ''/ALL'' s"

text \<open>
  \<^verbatim>\<open>^([0-9]+)___\<close> and \<^verbatim>\<open>/([0-9]+)___\<close>, with the text of the group. A shorter run
  of digits never lets the rest of the pattern match, since a digit is no underscore.
\<close>

definition inode_rx_1 :: "string \<Rightarrow> string option" where
  "inode_rx_1 s =
     (let d = takeWhile is_digit s
      in if d \<noteq> [] \<and> prefix ''___'' (dropWhile is_digit s) then Some d else None)"

fun inode_rx_2 :: "string \<Rightarrow> string option" where
  "inode_rx_2 [] = None"
| "inode_rx_2 (c # cs) =
     (if c = CHR ''/'' then (case inode_rx_1 cs of Some d \<Rightarrow> Some d | None \<Rightarrow> inode_rx_2 cs)
      else inode_rx_2 cs)"

text \<open>Replacing what the first of them matches by the empty string.\<close>

definition inode_rx_1_strip :: "string \<Rightarrow> string" where
  "inode_rx_1_strip s = (case inode_rx_1 s of Some d \<Rightarrow> drop (length d + 3) s | None \<Rightarrow> s)"

text \<open>\<^verbatim>\<open>=([^/]+)\<close>: the text of the first match.\<close>

fun alias_rx :: "string \<Rightarrow> string option" where
  "alias_rx [] = None"
| "alias_rx (c # cs) =
     (if c = CHR ''='' \<and> cs \<noteq> [] \<and> hd cs \<noteq> CHR ''/''
      then Some (c # takeWhile (\<lambda>x. x \<noteq> CHR ''/'') cs)
      else alias_rx cs)"

text \<open>Is a string free of the characters special to PCRE, so that as a pattern it matches itself?\<close>

definition rx_plain :: "string \<Rightarrow> bool" where
  "rx_plain p \<longleftrightarrow> (\<forall>c \<in> set p. c \<notin> set (CHR 0x5C # ''^$.|?*+()[]{}''))"

lemma rx_group_digits: 
  assumes "\<forall>c \<in> set d. is_digit c" "d \<noteq> []"
  shows "inode_rx_1 (d @ ''___'' @ name) = Some d"
    and "inode_rx_1_strip (d @ ''___'' @ name) = name"
proof -
  have t: "takeWhile is_digit (d @ ''___'' @ name) = d"
    using takeWhile_append_stop[of d is_digit "CHR ''_''" "''__'' @ name"] assms(1) by simp
  have u: "dropWhile is_digit (d @ ''___'' @ name) = ''___'' @ name"
    using dropWhile_append_stop[of d is_digit "CHR ''_''" "''__'' @ name"] assms(1) by simp
  show r: "inode_rx_1 (d @ ''___'' @ name) = Some d"
    using assms(2) unfolding inode_rx_1_def t u by (simp add: Let_def)
  then show "inode_rx_1_strip (d @ ''___'' @ name) = name"
    by (simp add: inode_rx_1_strip_def)
qed

lemma inode_rx_1_non_digit: "\<not> is_digit c \<Longrightarrow> inode_rx_1 (c # s) = None"
  by (simp add: inode_rx_1_def)

lemma inode_rx_2_no_slash: "CHR ''/'' \<notin> set s \<Longrightarrow> inode_rx_2 s = None"
  by (induction s) auto

lemma alias_rx_None: "CHR ''='' \<notin> set s \<Longrightarrow> alias_rx s = None"
  by (induction s) auto

lemma alias_rx_Some: "alias_rx s = Some p \<Longrightarrow> \<exists>u a v. p = CHR ''='' # a \<and> a \<noteq> [] \<and> CHR ''/'' \<notin> set a \<and> s = u @ p @ v"
proof (induction s)
  case (Cons c cs)
  show ?case
  proof (cases "c = CHR ''='' \<and> cs \<noteq> [] \<and> hd cs \<noteq> CHR ''/''")
    case True
    let ?a = "takeWhile (\<lambda>x. x \<noteq> CHR ''/'') cs"
    have "?a \<noteq> []" using True by (cases cs) auto
    moreover have "CHR ''/'' \<notin> set ?a" by (auto dest: set_takeWhileD)
    moreover have "c # cs = [] @ (CHR ''='' # ?a) @ dropWhile (\<lambda>x. x \<noteq> CHR ''/'') cs"
      using True by simp
    moreover have "p = CHR ''='' # ?a" using True Cons.prems by simp
    ultimately show ?thesis by blast
  next
    case False
    then have "alias_rx cs = Some p" using Cons.prems by (simp split: if_splits)
    from Cons.IH[OF this] show ?thesis by (metis append_Cons)
  qed
qed simp

lemma length_inode_rx_1: "inode_rx_1 s = Some d \<Longrightarrow> length d + 3 \<le> length s"
proof -
  assume "inode_rx_1 s = Some d"
  then have d: "d = takeWhile is_digit s" and p: "prefix ''___'' (dropWhile is_digit s)"
    by (auto simp: inode_rx_1_def Let_def split: if_splits)
  have "length s = length d + length (dropWhile is_digit s)"
    unfolding d by (metis length_append takeWhile_dropWhile_id)
  with p show ?thesis by (auto dest: prefix_length_le)
qed

end
