(* ===== verification/Query_Tree.thy ===== *)
theory Query_Tree
  imports Glib_Strings
begin

section \<open>The query tree\<close>

text \<open>
  The data types of \<^verbatim>\<open>src/src/path_resolution.h\<close>: the triple tag operators, the nodes
  of the query tree, the kinds of query and the \<^verbatim>\<open>tagsistant_querytree\<close> structure, with
  the traversals of the pointer chains the other components share. A chain through
  \<^verbatim>\<open>next\<close> is a list (nodes on the other two chains have no \<^verbatim>\<open>next\<close>); the
  \<^verbatim>\<open>related\<close> and \<^verbatim>\<open>negated\<close> pointers are constructor arguments, since nodes on
  either chain may carry chains of their own.
\<close>

datatype triple_operator = TAGSISTANT_NONE | TAGSISTANT_EQUAL_TO | TAGSISTANT_CONTAINS
  | TAGSISTANT_GREATER_THAN | TAGSISTANT_SMALLER_THAN | TAGSISTANT_UNDEFINED_OPERATOR

record and_data =
  an_negate :: bool
  an_tag :: gchars
  an_tag_id :: tagsistant_tag_id
  an_namespace :: gchars
  an_key :: gchars
  an_operator :: triple_operator
  an_value :: gchars

datatype qtree_and_node =
  And_node (and_data: and_data) (and_related: "qtree_and_node option") (and_negated: "qtree_and_node option")

text \<open>A node as \<^verbatim>\<open>g_new0\<close> allocates it.\<close>

definition new_and_data :: and_data where
  "new_and_data = \<lparr>an_negate = False, an_tag = None, an_tag_id = 0, an_namespace = None,
     an_key = None, an_operator = TAGSISTANT_NONE, an_value = None\<rparr>"

datatype query_type = QTYPE_MALFORMED | QTYPE_ROOT | QTYPE_ARCHIVE | QTYPE_TAGS | QTYPE_RETAG
  | QTYPE_RELATIONS | QTYPE_STATS | QTYPE_STORE | QTYPE_ALIAS

record querytree =
  q_full_path :: string
  q_expanded_full_path :: string
  q_object_path :: gchars
  q_archive_path :: gchars
  q_full_archive_path :: gchars
  q_inode :: tagsistant_inode
  q_type :: query_type
  q_points_to_object :: bool
  q_is_taggable :: bool
  q_is_external :: bool
  q_last_tag :: gchars
  q_valid :: bool
  q_complete :: bool
  q_exists :: bool
  q_force_inode_in_filenames :: bool
  q_tree :: "qtree_and_node list list"
  q_negate_next_tag :: bool
  q_first_tag :: gchars
  q_second_tag :: gchars
  q_namespace :: gchars
  q_key :: gchars
  q_operator :: triple_operator
  q_value :: gchars
  q_related_namespace :: gchars
  q_related_key :: gchars
  q_related_value :: gchars
  q_relation :: gchars
  q_stats_path :: gchars
  q_alias :: gchars
  q_dbi :: bool
  q_transaction_started :: bool
  q_do_reasoning :: bool
  q_schedule_for_unlink :: bool
  q_error_message :: gchars

text \<open>
  The structure as \<^verbatim>\<open>g_new0\<close> allocates it, with the path copied in; the connection is
  \<open>True\<close> for a live libDBI handle and \<open>False\<close> for NULL.
\<close>

definition new_querytree :: "string \<Rightarrow> querytree" where
  "new_querytree path =
    \<lparr>q_full_path = path, q_expanded_full_path = path, q_object_path = None, q_archive_path = None,
     q_full_archive_path = None, q_inode = 0, q_type = QTYPE_MALFORMED, q_points_to_object = False,
     q_is_taggable = False, q_is_external = False, q_last_tag = None, q_valid = False,
     q_complete = False, q_exists = False, q_force_inode_in_filenames = False, q_tree = [],
     q_negate_next_tag = False, q_first_tag = None, q_second_tag = None, q_namespace = None,
     q_key = None, q_operator = TAGSISTANT_NONE, q_value = None, q_related_namespace = None,
     q_related_key = None, q_related_value = None, q_relation = None, q_stats_path = None,
     q_alias = None, q_dbi = False, q_transaction_started = False, q_do_reasoning = False,
     q_schedule_for_unlink = False, q_error_message = None\<rparr>"

subsection \<open>Walking and extending the pointer chains\<close>

text \<open>The nodes reached from a node through \<^verbatim>\<open>related\<close>, itself first.\<close>

fun related_chain :: "qtree_and_node \<Rightarrow> qtree_and_node list" where
  "related_chain (And_node a None ng) = [And_node a None ng]"
| "related_chain (And_node a (Some r) ng) = And_node a (Some r) ng # related_chain r"

fun negated_chain :: "qtree_and_node \<Rightarrow> qtree_and_node list" where
  "negated_chain (And_node a r None) = [And_node a r None]"
| "negated_chain (And_node a r (Some ng)) = And_node a r (Some ng) # negated_chain ng"

text \<open>Appending to the last node of a chain.\<close>

fun append_related :: "qtree_and_node \<Rightarrow> qtree_and_node \<Rightarrow> qtree_and_node" where
  "append_related x (And_node a None ng) = And_node a (Some x) ng"
| "append_related x (And_node a (Some r) ng) = And_node a (Some (append_related x r)) ng"

fun append_negated :: "qtree_and_node \<Rightarrow> qtree_and_node \<Rightarrow> qtree_and_node" where
  "append_negated x (And_node a r None) = And_node a r (Some x)"
| "append_negated x (And_node a r (Some ng)) = And_node a r (Some (append_negated x ng))"

lemma related_chain_not_Nil [simp]: "related_chain x \<noteq> []"
  by (cases x rule: related_chain.cases) auto

lemma negated_chain_not_Nil [simp]: "negated_chain x \<noteq> []"
  by (cases x rule: negated_chain.cases) auto

lemma hd_related_chain [simp]: "hd (related_chain x) = x"
  by (cases x rule: related_chain.cases) auto

lemma and_data_append_related [simp]: "and_data (append_related x n) = and_data n"
  by (cases n rule: related_chain.cases) simp_all

lemma and_data_append_negated [simp]: "and_data (append_negated x n) = and_data n"
  by (cases n rule: negated_chain.cases) simp_all

lemma and_negated_append_related [simp]: "and_negated (append_related x n) = and_negated n"
  by (cases n rule: related_chain.cases) simp_all

lemma and_related_append_negated [simp]: "and_related (append_negated x n) = and_related n"
  by (cases n rule: negated_chain.cases) simp_all

text \<open>The tag ids on a chain, which is what a lookup compares.\<close>

definition chain_ids :: "qtree_and_node \<Rightarrow> tagsistant_tag_id list" where
  "chain_ids n = map (an_tag_id \<circ> and_data) (related_chain n)"

lemma chain_ids_append_related:
  assumes "and_related x = None"
  shows "chain_ids (append_related x n) = chain_ids n @ [an_tag_id (and_data x)]"
proof (induction n rule: related_chain.induct)
  case (1 a ng)
  show ?case using assms by (cases x) (simp add: chain_ids_def)
next
  case (2 a r ng)
  then show ?case by (simp add: chain_ids_def)
qed

lemma chain_ids_append_negated [simp]: "chain_ids (append_negated x n) = chain_ids n"
proof (cases n)
  case (And_node a r ng)
  then show ?thesis by (cases ng; cases r) (simp_all add: chain_ids_def)
qed

end
