(* ===== verification/Database.thy ===== *)
theory Database
  imports Prelude
begin

section \<open>The database: tables and statements\<close>

text \<open>
  The tables created by \<^verbatim>\<open>tagsistant_create_schema()\<close> (\<^verbatim>\<open>src/src/sql.c\<close>, SQLite
  schema) and the effect of the SQL statements the program sends. A table is the list of its
  rows in the order of insertion; an \<^verbatim>\<open>autoincrement\<close> key counts in the \<open>_seq\<close> field; a
  statement that would break a unique constraint leaves the table as it is, which is all the
  program sees of the error. \<open>db_ok\<close> is the invariant the constraints give, and every
  statement keeps it. Strings are the arguments as the program passes them; which arguments
  reach the engine unchanged is the subject of theory \<open>Statement\<close>.
\<close>

record tag_row =
  tr_id :: int
  tr_name :: string
  tr_key :: string
  tr_value :: string

record object_row =
  ob_inode :: int
  ob_name :: string
  ob_checksum :: string
  ob_symlink :: string

record relation_row =
  re_id :: int
  re_tag1 :: int
  re_relation :: string
  re_tag2 :: int

record database =
  tags :: "tag_row list"
  tags_seq :: int
  objects :: "object_row list"
  objects_seq :: int
  tagging :: "(int \<times> int) list"
  relations :: "relation_row list"
  relations_seq :: int
  aliases :: "(string \<times> string) list"

definition empty_db :: database where
  "empty_db = \<lparr>tags = [], tags_seq = 0, objects = [], objects_seq = 0, tagging = [],
     relations = [], relations_seq = 0, aliases = []\<rparr>"

definition tag_triple :: "tag_row \<Rightarrow> string \<times> string \<times> string" where
  "tag_triple r = (tr_name r, tr_key r, tr_value r)"

subsection \<open>Statements on tags\<close>

definition insert_tag :: "string \<Rightarrow> string \<Rightarrow> string \<Rightarrow> database \<Rightarrow> database" where
  "insert_tag n k v d =
     (if (n, k, v) \<in> set (map tag_triple (tags d)) then d
      else d\<lparr>tags := tags d @ [\<lparr>tr_id = tags_seq d + 1, tr_name = n, tr_key = k, tr_value = v\<rparr>],
             tags_seq := tags_seq d + 1\<rparr>)"

definition delete_tag_rows :: "string \<Rightarrow> string \<Rightarrow> string \<Rightarrow> database \<Rightarrow> database" where
  "delete_tag_rows n k v d = d\<lparr>tags := filter (\<lambda>r. tag_triple r \<noteq> (n, k, v)) (tags d)\<rparr>"

text \<open>
  \<^verbatim>\<open>update tags set tagname = new where tagname = old\<close>: a row that would collide with
  another one makes the whole statement fail.
\<close>

definition rename_row :: "string \<Rightarrow> string \<Rightarrow> tag_row \<Rightarrow> tag_row" where
  "rename_row new old r = (if tr_name r = old then r\<lparr>tr_name := new\<rparr> else r)"

definition update_tagname :: "string \<Rightarrow> string \<Rightarrow> database \<Rightarrow> database" where
  "update_tagname new old d =
     (let rows = map (rename_row new old) (tags d)
      in if distinct (map tag_triple rows) then d\<lparr>tags := rows\<rparr> else d)"

text \<open>The three lookups of \<^verbatim>\<open>tagsistant_sql_get_tag_id()\<close>, before the \<^verbatim>\<open>limit 1\<close>.\<close>

definition select_tag_ids :: "gchars \<Rightarrow> gchars \<Rightarrow> gchars \<Rightarrow> database \<Rightarrow> int list" where
  "select_tag_ids n k v d =
     map tr_id (filter (\<lambda>r. tr_name r = printf_s n
        \<and> (v \<noteq> None \<or> k \<noteq> None \<longrightarrow> tr_key r = safe_string k)
        \<and> (v \<noteq> None \<longrightarrow> tr_value r = safe_string v)) (tags d))"

subsection \<open>Statements on objects and taggings\<close>

definition insert_object :: "string \<Rightarrow> database \<Rightarrow> int \<times> database" where
  "insert_object n d =
     (objects_seq d + 1,
      d\<lparr>objects := objects d @ [\<lparr>ob_inode = objects_seq d + 1, ob_name = n, ob_checksum = '''', ob_symlink = ''''\<rparr>],
        objects_seq := objects_seq d + 1\<rparr>)"

definition delete_object :: "int \<Rightarrow> database \<Rightarrow> database" where
  "delete_object i d = d\<lparr>objects := filter (\<lambda>r. ob_inode r \<noteq> i) (objects d)\<rparr>"

definition update_object :: "int \<Rightarrow> (object_row \<Rightarrow> object_row) \<Rightarrow> database \<Rightarrow> database" where
  "update_object i f d = d\<lparr>objects := map (\<lambda>r. if ob_inode r = i then f r else r) (objects d)\<rparr>"

definition insert_tagging :: "int \<Rightarrow> int \<Rightarrow> database \<Rightarrow> database" where
  "insert_tagging t i d = (if (i, t) \<in> set (tagging d) then d else d\<lparr>tagging := tagging d @ [(i, t)]\<rparr>)"

definition delete_tagging :: "int \<Rightarrow> int \<Rightarrow> database \<Rightarrow> database" where
  "delete_tagging t i d = d\<lparr>tagging := filter (\<lambda>p. p \<noteq> (i, t)) (tagging d)\<rparr>"

definition delete_tagging_of_tag :: "int \<Rightarrow> database \<Rightarrow> database" where
  "delete_tagging_of_tag t d = d\<lparr>tagging := filter (\<lambda>p. snd p \<noteq> t) (tagging d)\<rparr>"

definition delete_tagging_of_object :: "int \<Rightarrow> database \<Rightarrow> database" where
  "delete_tagging_of_object i d = d\<lparr>tagging := filter (\<lambda>p. fst p \<noteq> i) (tagging d)\<rparr>"

text \<open>
  \<^verbatim>\<open>update tagging set inode = to where inode = from\<close>: the unique key on the pair makes
  the whole statement fail when one moved row meets an existing one.
\<close>

definition move_tagging :: "int \<Rightarrow> int \<Rightarrow> database \<Rightarrow> database" where
  "move_tagging to from d =
     (let rows = map (\<lambda>p. if fst p = from then (to, snd p) else p) (tagging d)
      in if distinct rows then d\<lparr>tagging := rows\<rparr> else d)"

definition tags_of :: "int \<Rightarrow> database \<Rightarrow> int set" where
  "tags_of i d = {t. (i, t) \<in> set (tagging d)}"

text \<open>
  \<^verbatim>\<open>select objects.inode from objects join tagging on objects.inode = tagging.inode
  where objects.objectname = n and tagging.tag_id = t\<close>
\<close>

definition select_tagged_named :: "string \<Rightarrow> int \<Rightarrow> database \<Rightarrow> int list" where
  "select_tagged_named n t d =
     concat (map (\<lambda>r. map (\<lambda>_. ob_inode r) (filter (\<lambda>p. p = (ob_inode r, t)) (tagging d)))
       (filter (\<lambda>r. ob_name r = n) (objects d)))"

definition select_inodes :: "(object_row \<Rightarrow> bool) \<Rightarrow> database \<Rightarrow> int list" where
  "select_inodes P d = map ob_inode (filter P (objects d))"

subsection \<open>Statements on relations and aliases\<close>

definition insert_relation :: "int \<Rightarrow> int \<Rightarrow> string \<Rightarrow> database \<Rightarrow> database" where
  "insert_relation t1 t2 rel d =
     d\<lparr>relations := relations d @ [\<lparr>re_id = relations_seq d + 1, re_tag1 = t1, re_relation = rel, re_tag2 = t2\<rparr>],
       relations_seq := relations_seq d + 1\<rparr>"

definition delete_relation :: "int \<Rightarrow> int \<Rightarrow> string \<Rightarrow> database \<Rightarrow> database" where
  "delete_relation t1 t2 rel d =
     d\<lparr>relations := filter (\<lambda>r. \<not> (re_tag1 r = t1 \<and> re_tag2 r = t2 \<and> re_relation r = rel)) (relations d)\<rparr>"

definition delete_relations_of_tag :: "int \<Rightarrow> database \<Rightarrow> database" where
  "delete_relations_of_tag t d =
     d\<lparr>relations := filter (\<lambda>r. \<not> (re_tag1 r = t \<or> re_tag2 r = t)) (relations d)\<rparr>"

definition has_relation :: "int \<Rightarrow> string \<Rightarrow> int \<Rightarrow> database \<Rightarrow> bool" where
  "has_relation t1 rel t2 d \<longleftrightarrow>
     (\<exists>r \<in> set (relations d). re_tag1 r = t1 \<and> re_relation r = rel \<and> re_tag2 r = t2)"

definition insert_alias :: "string \<Rightarrow> database \<Rightarrow> database" where
  "insert_alias a d =
     (if a \<in> fst ` set (aliases d) then d else d\<lparr>aliases := aliases d @ [(a, '''')]\<rparr>)"

definition delete_alias :: "string \<Rightarrow> database \<Rightarrow> database" where
  "delete_alias a d = d\<lparr>aliases := filter (\<lambda>p. fst p \<noteq> a) (aliases d)\<rparr>"

definition update_alias_query :: "string \<Rightarrow> string \<Rightarrow> database \<Rightarrow> database" where
  "update_alias_query a q d =
     d\<lparr>aliases := map (\<lambda>p. if fst p = a then (a, q) else p) (aliases d)\<rparr>"

text \<open>\<^verbatim>\<open>update aliases set alias = new where alias = old\<close>, with \<^verbatim>\<open>alias\<close> the primary key.\<close>

definition update_alias_name :: "string \<Rightarrow> string \<Rightarrow> database \<Rightarrow> database" where
  "update_alias_name new old d =
     (let rows = map (\<lambda>p. if fst p = old then (new, snd p) else p) (aliases d)
      in if distinct (map fst rows) then d\<lparr>aliases := rows\<rparr> else d)"

subsection \<open>The invariant the constraints give\<close>

definition db_ok :: "database \<Rightarrow> bool" where
  "db_ok d \<longleftrightarrow>
     distinct (map tr_id (tags d)) \<and> distinct (map tag_triple (tags d)) \<and>
     (\<forall>r \<in> set (tags d). 1 \<le> tr_id r \<and> tr_id r \<le> tags_seq d) \<and>
     distinct (map ob_inode (objects d)) \<and>
     (\<forall>r \<in> set (objects d). 1 \<le> ob_inode r \<and> ob_inode r \<le> objects_seq d) \<and>
     distinct (tagging d) \<and>
     distinct (map re_id (relations d)) \<and>
     (\<forall>r \<in> set (relations d). 1 \<le> re_id r \<and> re_id r \<le> relations_seq d) \<and>
     distinct (map fst (aliases d)) \<and>
     0 \<le> tags_seq d \<and> 0 \<le> objects_seq d \<and> 0 \<le> relations_seq d"

lemma db_ok_empty: "db_ok empty_db"
  by (simp add: db_ok_def empty_db_def)

lemma db_ok_insert_tag: "db_ok d \<Longrightarrow> db_ok (insert_tag n k v d)"
  by (fastforce simp: db_ok_def insert_tag_def tag_triple_def)

lemma db_ok_delete_tag_rows: "db_ok d \<Longrightarrow> db_ok (delete_tag_rows n k v d)"
  by (simp add: db_ok_def delete_tag_rows_def distinct_map_filter)

lemma tr_id_rename_row [simp]: "tr_id (rename_row new old r) = tr_id r"
  by (simp add: rename_row_def)

lemma db_ok_update_tagname: "db_ok d \<Longrightarrow> db_ok (update_tagname new old d)"
  by (simp add: db_ok_def update_tagname_def Let_def o_def)

lemma db_ok_insert_object: "db_ok d \<Longrightarrow> db_ok (snd (insert_object n d))"
  by (fastforce simp: db_ok_def insert_object_def)

lemma db_ok_delete_object: "db_ok d \<Longrightarrow> db_ok (delete_object i d)"
  by (simp add: db_ok_def delete_object_def distinct_map_filter)

lemma db_ok_update_object:
  assumes "db_ok d" and f: "\<And>r. ob_inode (f r) = ob_inode r"
  shows "db_ok (update_object i f d)"
proof -
  have "ob_inode \<circ> (\<lambda>r. if ob_inode r = i then f r else r) = ob_inode"
    by (rule ext) (simp add: f)
  then show ?thesis using assms by (auto simp: db_ok_def update_object_def f)
qed

lemma db_ok_insert_tagging: "db_ok d \<Longrightarrow> db_ok (insert_tagging t i d)"
  by (simp add: db_ok_def insert_tagging_def)

lemma db_ok_delete_tagging: "db_ok d \<Longrightarrow> db_ok (delete_tagging t i d)"
  by (simp add: db_ok_def delete_tagging_def)

lemma db_ok_delete_tagging_of_tag: "db_ok d \<Longrightarrow> db_ok (delete_tagging_of_tag t d)"
  by (simp add: db_ok_def delete_tagging_of_tag_def)

lemma db_ok_delete_tagging_of_object: "db_ok d \<Longrightarrow> db_ok (delete_tagging_of_object i d)"
  by (simp add: db_ok_def delete_tagging_of_object_def)

lemma db_ok_move_tagging: "db_ok d \<Longrightarrow> db_ok (move_tagging a b d)"
  by (simp add: db_ok_def move_tagging_def Let_def)

lemma db_ok_insert_relation: "db_ok d \<Longrightarrow> db_ok (insert_relation t1 t2 rel d)"
  by (fastforce simp: db_ok_def insert_relation_def)

lemma db_ok_delete_relation: "db_ok d \<Longrightarrow> db_ok (delete_relation t1 t2 rel d)"
  by (simp add: db_ok_def delete_relation_def distinct_map_filter)

lemma db_ok_delete_relations_of_tag: "db_ok d \<Longrightarrow> db_ok (delete_relations_of_tag t d)"
  by (simp add: db_ok_def delete_relations_of_tag_def distinct_map_filter)

lemma db_ok_insert_alias: "db_ok d \<Longrightarrow> db_ok (insert_alias a d)"
  by (auto simp: db_ok_def insert_alias_def image_iff)

lemma db_ok_delete_alias: "db_ok d \<Longrightarrow> db_ok (delete_alias a d)"
  by (simp add: db_ok_def delete_alias_def distinct_map_filter)

lemma db_ok_update_alias_query: "db_ok d \<Longrightarrow> db_ok (update_alias_query a q d)"
proof -
  assume "db_ok d"
  moreover have "fst \<circ> (\<lambda>p. if fst p = a then (a, q) else p) = fst"
    by (rule ext) simp
  ultimately show ?thesis by (simp add: db_ok_def update_alias_query_def)
qed

lemma db_ok_update_alias_name: "db_ok d \<Longrightarrow> db_ok (update_alias_name new old d)"
  by (simp add: db_ok_def update_alias_name_def Let_def)

lemmas db_ok_statements =
  db_ok_insert_tag db_ok_delete_tag_rows db_ok_update_tagname db_ok_insert_object
  db_ok_delete_object db_ok_update_object db_ok_insert_tagging db_ok_delete_tagging
  db_ok_delete_tagging_of_tag db_ok_delete_tagging_of_object db_ok_move_tagging
  db_ok_insert_relation db_ok_delete_relation db_ok_delete_relations_of_tag
  db_ok_insert_alias db_ok_delete_alias db_ok_update_alias_query db_ok_update_alias_name

subsection \<open>What the statements do to the tags of an object\<close>

lemma tags_of_insert_tagging [simp]:
  "tags_of j (insert_tagging t i d) = (if j = i then insert t (tags_of j d) else tags_of j d)"
  by (auto simp: tags_of_def insert_tagging_def)

lemma tags_of_delete_tagging [simp]:
  "tags_of j (delete_tagging t i d) = (if j = i then tags_of j d - {t} else tags_of j d)"
  by (auto simp: tags_of_def delete_tagging_def)

lemma tags_of_delete_tagging_of_tag [simp]: "tags_of j (delete_tagging_of_tag t d) = tags_of j d - {t}"
  by (auto simp: tags_of_def delete_tagging_of_tag_def)

lemma tags_of_delete_tagging_of_object [simp]:
  "tags_of j (delete_tagging_of_object i d) = (if j = i then {} else tags_of j d)"
  by (auto simp: tags_of_def delete_tagging_of_object_def)

lemma tags_of_unaffected [simp]:
  "tags_of j (insert_tag n k v d) = tags_of j d" "tags_of j (delete_tag_rows n k v d) = tags_of j d"
  "tags_of j (snd (insert_object n d)) = tags_of j d" "tags_of j (delete_object i d) = tags_of j d"
  "tags_of j (update_object i f d) = tags_of j d" "tags_of j (delete_relations_of_tag t d) = tags_of j d"
  by (simp_all add: tags_of_def insert_tag_def delete_tag_rows_def insert_object_def delete_object_def
      update_object_def delete_relations_of_tag_def)

lemma set_select_tagged_named:
  "set (select_tagged_named n t d) =
     {i. \<exists>r \<in> set (objects d). ob_name r = n \<and> ob_inode r = i \<and> t \<in> tags_of i d}"
  by (auto simp: select_tagged_named_def tags_of_def)

text \<open>
  Moving the taggings of one object to another: it works when the two share no tag, and does
  nothing when they share one.
\<close>

lemma move_tagging_disjoint:
  assumes "db_ok d" "a \<noteq> b" "tags_of a d \<inter> tags_of b d = {}"
  shows "tags_of a (move_tagging a b d) = tags_of a d \<union> tags_of b d"
    and "tags_of b (move_tagging a b d) = {}"
proof -
  let ?f = "\<lambda>p. if fst p = b then (a, snd p) else p"
  have inj: "inj_on ?f (set (tagging d))"
    using assms(3) by (fastforce simp: inj_on_def tags_of_def split: if_splits)
  have "distinct (tagging d)" using assms(1) by (simp add: db_ok_def)
  with inj have "distinct (map ?f (tagging d))" by (simp add: distinct_map)
  then have m: "move_tagging a b d = d\<lparr>tagging := map ?f (tagging d)\<rparr>"
    by (simp add: move_tagging_def Let_def)
  show "tags_of a (move_tagging a b d) = tags_of a d \<union> tags_of b d"
    using assms(2) by (force simp: m tags_of_def image_iff)
  show "tags_of b (move_tagging a b d) = {}"
    using assms(2) by (auto simp: m tags_of_def)
qed

lemma move_tagging_shared:
  assumes "a \<noteq> b" "t \<in> tags_of a d" "t \<in> tags_of b d"
  shows "move_tagging a b d = d"
proof -
  let ?f = "\<lambda>p. if fst p = b then (a, snd p) else p"
  have in_tag: "(a, t) \<in> set (tagging d)" "(b, t) \<in> set (tagging d)"
    using assms by (auto simp: tags_of_def)
  have "?f (a, t) = ?f (b, t)" using assms(1) by simp
  moreover have "(a, t) \<noteq> (b, t)" using assms(1) by simp
  ultimately have "\<not> inj_on ?f (set (tagging d))" using in_tag unfolding inj_on_def by blast
  then have "\<not> distinct (map ?f (tagging d))" by (simp add: distinct_map)
  then show ?thesis by (simp only: move_tagging_def Let_def if_False)
qed

end
