(* ===== verification/Environment.thy ===== *)
theory Environment
  imports Query_Tree Database
begin

section \<open>The environment and the state of the file system daemon\<close>

text \<open>
  The global structure \<^verbatim>\<open>tagsistant\<close> of \<^verbatim>\<open>src/src/tagsistant.h\<close>, and everything the
  program relies on that is not under \<^verbatim>\<open>src/\<close>, as the record \<open>env\<close>: the system calls
  on the underlying file system of state \<open>'fs\<close>, the order in which the SQL engine returns
  the rows of an unordered query, the behaviour of GRegex on patterns that are not fixed in
  the source, the SHA1 of GChecksum, libextractor, and the table of results
  \<^verbatim>\<open>tagsistant_RDS_new()\<close> (its file \<^verbatim>\<open>rds.c\<close> is named in the makefile and absent
  from the repository). \<open>world\<close> is the mutable state.
\<close>

record stat =
  st_ino :: "64 word"
  st_mode :: nat
  st_nlink :: nat
  st_size :: nat

text \<open>A system call returns \<open>None\<close> for 0, and \<open>Some e\<close> for -1 with \<^verbatim>\<open>errno\<close> \<open>e\<close>.\<close>

record 'fs os =
  os_mkdir :: "gchars \<Rightarrow> nat \<Rightarrow> 'fs \<Rightarrow> errno option \<times> 'fs"
  os_mkdir_with_parents :: "string \<Rightarrow> 'fs \<Rightarrow> 'fs"
  os_rmdir :: "gchars \<Rightarrow> 'fs \<Rightarrow> errno option \<times> 'fs"
  os_unlink :: "gchars \<Rightarrow> 'fs \<Rightarrow> errno option \<times> 'fs"
  os_rename :: "gchars \<Rightarrow> gchars \<Rightarrow> 'fs \<Rightarrow> errno option \<times> 'fs"
  os_link :: "gchars \<Rightarrow> gchars \<Rightarrow> 'fs \<Rightarrow> errno option \<times> 'fs"
  os_symlink :: "string \<Rightarrow> gchars \<Rightarrow> 'fs \<Rightarrow> errno option \<times> 'fs"
  os_mknod :: "gchars \<Rightarrow> nat \<Rightarrow> nat \<Rightarrow> 'fs \<Rightarrow> errno option \<times> 'fs"
  os_truncate :: "gchars \<Rightarrow> nat \<Rightarrow> 'fs \<Rightarrow> errno option \<times> 'fs"
  os_chmod :: "gchars \<Rightarrow> nat \<Rightarrow> 'fs \<Rightarrow> errno option \<times> 'fs"
  os_chown :: "gchars \<Rightarrow> nat \<Rightarrow> nat \<Rightarrow> 'fs \<Rightarrow> errno option \<times> 'fs"
  os_utime :: "gchars \<Rightarrow> nat \<Rightarrow> nat \<Rightarrow> 'fs \<Rightarrow> errno option \<times> 'fs"
  os_readlink :: "gchars \<Rightarrow> nat \<Rightarrow> 'fs \<Rightarrow> errno + string"
  os_lstat :: "gchars \<Rightarrow> 'fs \<Rightarrow> errno + stat"
  os_stat :: "gchars \<Rightarrow> 'fs \<Rightarrow> errno + stat"
  os_creat :: "gchars \<Rightarrow> nat \<Rightarrow> 'fs \<Rightarrow> 'fs"
  os_open :: "gchars \<Rightarrow> nat \<Rightarrow> 'fs \<Rightarrow> (errno + nat) \<times> 'fs"
  os_close :: "nat \<Rightarrow> 'fs \<Rightarrow> 'fs"
  os_pread :: "nat \<Rightarrow> nat \<Rightarrow> nat \<Rightarrow> 'fs \<Rightarrow> errno + string"
  os_pwrite :: "nat \<Rightarrow> string \<Rightarrow> nat \<Rightarrow> 'fs \<Rightarrow> (errno + nat) \<times> 'fs"
  os_readdir :: "gchars \<Rightarrow> 'fs \<Rightarrow> errno + string list"
  os_content :: "nat \<Rightarrow> 'fs \<Rightarrow> string"
  os_statvfs :: "string \<Rightarrow> 'fs \<Rightarrow> errno + nat"

record 'fs env =
  mountpoint :: string
  repository :: string
  archive :: string
  tags_file :: string
  tags_suffix :: string
  sys :: "'fs os"
  order_ids :: "int list \<Rightarrow> int list"
  order_names :: "string list \<Rightarrow> string list"
  order_rows :: "tag_row list \<Rightarrow> tag_row list"
  rx_replace_eval :: "string \<Rightarrow> string \<Rightarrow> (string \<Rightarrow> string) \<Rightarrow> string option"
  rx_match :: "string \<Rightarrow> string \<Rightarrow> bool"
  sha1 :: "string \<Rightarrow> string"
  extractor :: "string \<Rightarrow> 'fs \<Rightarrow> (string \<times> string) list"
  rds_new :: "qtree_and_node list list \<Rightarrow> database \<Rightarrow> bool \<Rightarrow> (string \<times> (tagsistant_inode \<times> string) list) list"

text \<open>
  What is assumed of the engine's row order where a theorem needs it: a query returns the
  rows that match, in some order.
\<close>

definition row_order :: "'fs env \<Rightarrow> bool" where
  "row_order env \<longleftrightarrow>
     (\<forall>xs. set (order_ids env xs) = set xs) \<and>
     (\<forall>xs. set (order_names env xs) = set xs) \<and>
     (\<forall>xs. set (order_rows env xs) = set xs \<and> length (order_rows env xs) = length xs)"

subsection \<open>The state\<close>

datatype lock_event = Reader_lock | Reader_unlock | Writer_lock | Writer_unlock

record 'fs world =
  db :: database
  snapshot :: "database option"
  tag_cache :: "string \<Rightarrow> tagsistant_tag_id option"
  lock_log :: "lock_event list"
  pool :: nat
  connections :: nat
  autotag_queue :: "string list"
  fs :: 'fs

type_synonym dbi_conn = bool

lemma row_order_ids: "row_order env \<Longrightarrow> set (order_ids env xs) = set xs"
  by (simp add: row_order_def)

lemma row_order_ids_Nil: "row_order env \<Longrightarrow> order_ids env xs = [] \<longleftrightarrow> xs = []"
  by (metis row_order_ids set_empty)

lemma row_order_single:
  assumes "row_order env" "order_ids env [i] = xs"
  shows "last_row a xs = i" "xs \<noteq> []" "hd xs = i"
proof -
  have s: "set xs = {i}" using assms row_order_ids[of env "[i]"] by simp
  then show "xs \<noteq> []" by auto
  then show "last_row a xs = i" "hd xs = i" using s by (auto simp: last_row_def dest: last_in_set hd_in_set)
qed

subsection \<open>A concrete environment\<close>

text \<open>
  The environment the concrete instances of the theorems run in: the underlying file system is
  the list of the paths that exist, rows come in the order they are stored in, and the
  parameters that stand for libraries return nothing.
\<close>

definition sample_add :: "gchars \<Rightarrow> string list \<Rightarrow> errno option \<times> string list" where
  "sample_add p xs = (if p = None then (Some EFAULT, xs) else if the p \<in> set xs then (Some (Eother 17), xs) else (None, xs @ [the p]))"

definition sample_remove :: "gchars \<Rightarrow> string list \<Rightarrow> errno option \<times> string list" where
  "sample_remove p xs = (if p = None then (Some EFAULT, xs) else if the p \<in> set xs then (None, filter (\<lambda>x. x \<noteq> the p) xs) else (Some ENOENT, xs))"

definition sample_touch :: "gchars \<Rightarrow> string list \<Rightarrow> errno option \<times> string list" where
  "sample_touch p xs = (if p = None then (Some EFAULT, xs) else if the p \<in> set xs then (None, xs) else (Some ENOENT, xs))"

text \<open>Renaming replaces what has the new name.\<close>

definition sample_rename :: "gchars \<Rightarrow> gchars \<Rightarrow> string list \<Rightarrow> errno option \<times> string list" where
  "sample_rename p q xs = (if p = None \<or> q = None then (Some EFAULT, xs)
     else if the p \<in> set xs then (None, filter (\<lambda>x. x \<noteq> the p \<and> x \<noteq> the q) xs @ [the q]) else (Some ENOENT, xs))"

definition sample_os :: "string list os" where
  "sample_os = \<lparr>
     os_mkdir = (\<lambda>p m. sample_add p), os_mkdir_with_parents = (\<lambda>p xs. if p \<in> set xs then xs else xs @ [p]),
     os_rmdir = sample_remove, os_unlink = sample_remove,
     os_rename = sample_rename,
     os_link = (\<lambda>p q xs. case sample_touch p xs of (Some e, ys) \<Rightarrow> (Some e, xs) | (None, ys) \<Rightarrow> sample_add q ys),
     os_symlink = (\<lambda>p. sample_add), os_mknod = (\<lambda>p m d. sample_add p),
     os_truncate = (\<lambda>p n. sample_touch p), os_chmod = (\<lambda>p m. sample_touch p),
     os_chown = (\<lambda>p u g. sample_touch p), os_utime = (\<lambda>p a m. sample_touch p),
     os_readlink = (\<lambda>p n xs. Inl EINVAL),
     os_lstat = (\<lambda>p xs. case fst (sample_touch p xs) of Some e \<Rightarrow> Inl e
        | None \<Rightarrow> Inr \<lparr>st_ino = 1, st_mode = 33188, st_nlink = 1, st_size = 0\<rparr>),
     os_stat = (\<lambda>p xs. case fst (sample_touch p xs) of Some e \<Rightarrow> Inl e
        | None \<Rightarrow> Inr \<lparr>st_ino = 1, st_mode = 33188, st_nlink = 1, st_size = 0\<rparr>),
     os_creat = (\<lambda>p m xs. snd (sample_add p xs)),
     os_open = (\<lambda>p f xs. case fst (sample_touch p xs) of Some e \<Rightarrow> (Inl e, xs) | None \<Rightarrow> (Inr 3, xs)),
     os_close = (\<lambda>h xs. xs), os_pread = (\<lambda>h n off xs. Inr ''''), os_pwrite = (\<lambda>h b off xs. (Inr (length b), xs)),
     os_readdir = (\<lambda>p xs. Inr []), os_content = (\<lambda>h xs. ''''),
     os_statvfs = (\<lambda>p xs. Inr 0)\<rparr>"

definition sample_env :: "string list env" where
  "sample_env = \<lparr>mountpoint = ''/mnt'', repository = ''/r/'', archive = ''/r/archive/'',
     tags_file = ''/r/tags'', tags_suffix = ''.tags'', sys = sample_os,
     order_ids = (\<lambda>xs. xs), order_names = (\<lambda>xs. xs), order_rows = (\<lambda>xs. xs),
     rx_replace_eval = (\<lambda>p s f. Some (replace_literal p (f p) s)), rx_match = strstr,
     sha1 = (\<lambda>s. s), extractor = (\<lambda>p s. []), rds_new = (\<lambda>t d r. [])\<rparr>"

definition sample_world :: "database \<Rightarrow> string list \<Rightarrow> string list world" where
  "sample_world d files = \<lparr>db = d, snapshot = None, tag_cache = (\<lambda>_. None), lock_log = [], pool = 0,
     connections = 0, autotag_queue = [], fs = files\<rparr>"

lemma row_order_sample [simp]: "row_order sample_env"
  by (simp add: row_order_def sample_env_def)

lemma sample_world_simps [simp]:
  "db (sample_world d fl) = d" "snapshot (sample_world d fl) = None" "tag_cache (sample_world d fl) = (\<lambda>_. None)"
  "lock_log (sample_world d fl) = []" "pool (sample_world d fl) = 0" "connections (sample_world d fl) = 0"
  "autotag_queue (sample_world d fl) = []" "fs (sample_world d fl) = fl"
  by (simp_all add: sample_world_def)

end
