(* ===== verification/Sql_Layer.thy ===== *)
theory Sql_Layer
  imports Environment
begin

section \<open>The SQL layer\<close>

text \<open>
  \<^verbatim>\<open>src/src/sql.c\<close>: connections, locks and transactions, the tag id cache, and the
  operations on tags, taggings and aliases. Every operation takes the connection, which is
  \<open>False\<close> for a NULL handle: \<^verbatim>\<open>tagsistant_real_query()\<close> then does nothing. Connections
  stay alive once made. Transactions belong to the one writer the read-write lock lets in, so
  the world has at most one snapshot to roll back to.
\<close>

subsection \<open>Connections and transactions\<close>

definition log_lock :: "lock_event \<Rightarrow> 'fs world \<Rightarrow> 'fs world" where
  "log_lock e w = w\<lparr>lock_log := lock_log w @ [e]\<rparr>"

definition tagsistant_db_connection :: "bool \<Rightarrow> 'fs world \<Rightarrow> 'fs world" where
  "tagsistant_db_connection start_transaction w =
     (let w1 = log_lock (if start_transaction then Writer_lock else Reader_lock) w;
          w2 = (if 0 < pool w1 then w1\<lparr>pool := pool w1 - 1\<rparr>
                else w1\<lparr>connections := connections w1 + 1\<rparr>)
      in if start_transaction then w2\<lparr>snapshot := Some (db w2)\<rparr> else w2)"

definition tagsistant_db_connection_release :: "bool \<Rightarrow> 'fs world \<Rightarrow> 'fs world" where
  "tagsistant_db_connection_release is_writer_locked w =
     log_lock (if is_writer_locked then Writer_unlock else Reader_unlock) (w\<lparr>pool := pool w + 1\<rparr>)"

definition tagsistant_commit_transaction :: "'fs world \<Rightarrow> 'fs world" where
  "tagsistant_commit_transaction w = w\<lparr>snapshot := None\<rparr>"

definition tagsistant_rollback_transaction :: "'fs world \<Rightarrow> 'fs world" where
  "tagsistant_rollback_transaction w =
     (case snapshot w of None \<Rightarrow> w | Some d \<Rightarrow> w\<lparr>db := d, snapshot := None\<rparr>)"

subsection \<open>Queries\<close>

definition sql_exec :: "dbi_conn \<Rightarrow> (database \<Rightarrow> database) \<Rightarrow> 'fs world \<Rightarrow> 'fs world" where
  "sql_exec conn f w = (if conn then w\<lparr>db := f (db w)\<rparr> else w)"

text \<open>
  A query whose callback is \<^verbatim>\<open>tagsistant_return_integer\<close>: the buffer keeps its initial
  value if no row comes, else the value of the last row, cut to 32 bits.
\<close>

definition tagsistant_return_integer :: "'fs env \<Rightarrow> dbi_conn \<Rightarrow> int list \<Rightarrow> 32 word \<Rightarrow> 32 word" where
  "tagsistant_return_integer env conn rows init =
     (if conn then last_row init (map word_of_int (order_ids env rows)) else init)"

text \<open>The same for a query that ends in \<^verbatim>\<open>limit 1\<close>.\<close>

definition tagsistant_return_first :: "'fs env \<Rightarrow> dbi_conn \<Rightarrow> int list \<Rightarrow> 32 word \<Rightarrow> 32 word" where
  "tagsistant_return_first env conn rows init =
     (if conn then last_row init (map word_of_int (take 1 (order_ids env rows))) else init)"

subsection \<open>Tags and their ids\<close>

definition tagsistant_sql_create_tag :: "dbi_conn \<Rightarrow> gchars \<Rightarrow> gchars \<Rightarrow> gchars \<Rightarrow> 'fs world \<Rightarrow> 'fs world" where
  "tagsistant_sql_create_tag conn namespace key value w =
     (case namespace of None \<Rightarrow> w
      | Some n \<Rightarrow> sql_exec conn (insert_tag n (safe_string key) (safe_string value)) w)"

definition tagsistant_object_is_tagged :: "'fs env \<Rightarrow> dbi_conn \<Rightarrow> tagsistant_inode \<Rightarrow> 'fs world \<Rightarrow> bool" where
  "tagsistant_object_is_tagged env conn inode w =
     (tagsistant_return_first env conn
        (map fst (filter (\<lambda>p. fst p = sint inode) (tagging (db w)))) 0 \<noteq> 0)"

definition tagsistant_object_is_tagged_as ::
    "'fs env \<Rightarrow> dbi_conn \<Rightarrow> tagsistant_inode \<Rightarrow> tagsistant_tag_id \<Rightarrow> 'fs world \<Rightarrow> bool" where
  "tagsistant_object_is_tagged_as env conn inode tag_id w =
     (tagsistant_return_first env conn
        (map fst (filter (\<lambda>p. fst p = sint inode \<and> snd p = sint tag_id) (tagging (db w)))) 0 \<noteq> 0)"

definition tagsistant_full_untag_object :: "dbi_conn \<Rightarrow> tagsistant_inode \<Rightarrow> 'fs world \<Rightarrow> 'fs world" where
  "tagsistant_full_untag_object conn inode w = sql_exec conn (delete_tagging_of_object (sint inode)) w"

definition tagsistant_make_tag_key :: "string \<Rightarrow> string \<Rightarrow> string \<Rightarrow> string" where
  "tagsistant_make_tag_key tagname key value =
     tagname @ ''<separator>'' @ key @ ''<separator>'' @ value"

text \<open>The lookup in the tags table alone, as \<^verbatim>\<open>tagsistant_sql_get_tag_id\<close> does it on a miss.\<close>

definition sql_tag_id :: "'fs env \<Rightarrow> dbi_conn \<Rightarrow> gchars \<Rightarrow> gchars \<Rightarrow> gchars \<Rightarrow> database \<Rightarrow> tagsistant_tag_id" where
  "sql_tag_id env conn tagname key value d =
     tagsistant_return_first env conn (select_tag_ids tagname key value d) 0"

definition tagsistant_sql_get_tag_id ::
    "'fs env \<Rightarrow> dbi_conn \<Rightarrow> gchars \<Rightarrow> gchars \<Rightarrow> gchars \<Rightarrow> 'fs world \<Rightarrow> tagsistant_tag_id \<times> 'fs world" where
  "tagsistant_sql_get_tag_id env conn tagname key value w =
     (let tag_key = tagsistant_make_tag_key (safe_string tagname) (safe_string key) (safe_string value);
          cached = (case tag_cache w tag_key of None \<Rightarrow> 0 | Some i \<Rightarrow> i)
      in if cached \<noteq> 0 then (cached, w)
         else let tag_id = sql_tag_id env conn tagname key value (db w)
              in (tag_id, if tag_id \<noteq> 0 then w\<lparr>tag_cache := (tag_cache w)(tag_key \<mapsto> tag_id)\<rparr> else w))"

definition tagsistant_remove_tag_from_cache :: "gchars \<Rightarrow> gchars \<Rightarrow> gchars \<Rightarrow> 'fs world \<Rightarrow> 'fs world" where
  "tagsistant_remove_tag_from_cache tagname key value w =
     w\<lparr>tag_cache := (tag_cache w)
        (tagsistant_make_tag_key (printf_s tagname) (safe_string key) (safe_string value) := None)\<rparr>"

definition tagsistant_sql_delete_tag :: "'fs env \<Rightarrow> dbi_conn \<Rightarrow> gchars \<Rightarrow> gchars \<Rightarrow> gchars \<Rightarrow> 'fs world \<Rightarrow> 'fs world" where
  "tagsistant_sql_delete_tag env conn tagname key value w =
     (let (tag_id, w1) = tagsistant_sql_get_tag_id env conn tagname (Some (safe_string key)) (Some (safe_string value)) w;
          w2 = tagsistant_remove_tag_from_cache tagname (Some (safe_string key)) (Some (safe_string value)) w1;
          w3 = sql_exec conn (delete_tag_rows (printf_s tagname) (safe_string key) (safe_string value)) w2;
          w4 = sql_exec conn (delete_tagging_of_tag (sint tag_id)) w3
      in sql_exec conn (delete_relations_of_tag (sint tag_id)) w4)"

subsection \<open>Tagging and untagging an object\<close>

definition tagsistant_sql_tag_object ::
    "'fs env \<Rightarrow> dbi_conn \<Rightarrow> gchars \<Rightarrow> gchars \<Rightarrow> gchars \<Rightarrow> tagsistant_inode \<Rightarrow> 'fs world \<Rightarrow> 'fs world" where
  "tagsistant_sql_tag_object env conn tagname key value inode w =
     (let key' = Some (safe_string key);
          value' = Some (safe_string value);
          (tag_id, w1) = tagsistant_sql_get_tag_id env conn tagname key' value' w;
          (tag_id', w2) =
            (if tag_id = 0
             then tagsistant_sql_get_tag_id env conn tagname key' value'
                    (tagsistant_sql_create_tag conn tagname key' value' w1)
             else (tag_id, w1))
      in sql_exec conn (insert_tagging (sint tag_id') (sint inode)) w2)"

definition tagsistant_sql_untag_object ::
    "'fs env \<Rightarrow> dbi_conn \<Rightarrow> gchars \<Rightarrow> gchars \<Rightarrow> gchars \<Rightarrow> tagsistant_inode \<Rightarrow> 'fs world \<Rightarrow> 'fs world" where
  "tagsistant_sql_untag_object env conn tagname key value inode w =
     (let (tag_id, w1) = tagsistant_sql_get_tag_id env conn tagname (Some (safe_string key)) (Some (safe_string value)) w
      in sql_exec conn (delete_tagging (sint tag_id) (sint inode)) w1)"

definition tagsistant_sql_rename_tag :: "dbi_conn \<Rightarrow> gchars \<Rightarrow> gchars \<Rightarrow> 'fs world \<Rightarrow> 'fs world" where
  "tagsistant_sql_rename_tag conn tagname oldtagname w =
     sql_exec conn (update_tagname (printf_s tagname) (printf_s oldtagname)) w"

subsection \<open>Aliases\<close>

definition tagsistant_sql_alias_exists :: "dbi_conn \<Rightarrow> gchars \<Rightarrow> 'fs world \<Rightarrow> bool" where
  "tagsistant_sql_alias_exists conn alias w \<longleftrightarrow> conn \<and> printf_s alias \<in> fst ` set (aliases (db w))"

definition tagsistant_sql_alias_create :: "dbi_conn \<Rightarrow> gchars \<Rightarrow> 'fs world \<Rightarrow> 'fs world" where
  "tagsistant_sql_alias_create conn alias w =
     (if tagsistant_sql_alias_exists conn alias w then w
      else sql_exec conn (insert_alias (printf_s alias)) w)"

definition tagsistant_sql_alias_delete :: "dbi_conn \<Rightarrow> gchars \<Rightarrow> 'fs world \<Rightarrow> 'fs world" where
  "tagsistant_sql_alias_delete conn alias w = sql_exec conn (delete_alias (printf_s alias)) w"

definition tagsistant_sql_alias_set :: "dbi_conn \<Rightarrow> gchars \<Rightarrow> string \<Rightarrow> 'fs world \<Rightarrow> 'fs world" where
  "tagsistant_sql_alias_set conn alias query w = sql_exec conn (update_alias_query (printf_s alias) query) w"

text \<open>The name is a primary key, so at most one row answers.\<close>

definition tagsistant_sql_alias_get :: "dbi_conn \<Rightarrow> gchars \<Rightarrow> 'fs world \<Rightarrow> gchars" where
  "tagsistant_sql_alias_get conn alias w =
     (if conn then map_of (aliases (db w)) (printf_s alias) else None)"

definition tagsistant_sql_alias_get_length :: "dbi_conn \<Rightarrow> gchars \<Rightarrow> 'fs world \<Rightarrow> nat" where
  "tagsistant_sql_alias_get_length conn alias w = strlen (tagsistant_sql_alias_get conn alias w)"

subsection \<open>Frames: what an operation leaves alone\<close>

lemma sql_exec_simps [simp, sql_simps]:
  "db (sql_exec conn f w) = (if conn then f (db w) else db w)"
  "snapshot (sql_exec conn f w) = snapshot w" "tag_cache (sql_exec conn f w) = tag_cache w"
  "lock_log (sql_exec conn f w) = lock_log w" "pool (sql_exec conn f w) = pool w"
  "connections (sql_exec conn f w) = connections w" "autotag_queue (sql_exec conn f w) = autotag_queue w"
  "fs (sql_exec conn f w) = fs w"
  by (simp_all add: sql_exec_def)

text \<open>Two worlds that agree on everything but the database and the tag id cache.\<close>

definition same_frame :: "'fs world \<Rightarrow> 'fs world \<Rightarrow> bool" where
  "same_frame w w' \<longleftrightarrow> snapshot w' = snapshot w \<and> lock_log w' = lock_log w \<and> pool w' = pool w \<and>
     connections w' = connections w \<and> autotag_queue w' = autotag_queue w \<and> fs w' = fs w"

lemma same_frame_refl [simp]: "same_frame w w"
  by (simp add: same_frame_def)

lemma same_frame_trans [trans]: "same_frame a b \<Longrightarrow> same_frame b c \<Longrightarrow> same_frame a c"
  by (simp add: same_frame_def)

lemma same_frame_sql_exec [simp]: "same_frame w (sql_exec conn f w)"
  by (simp add: same_frame_def)

lemma same_frame_create_tag [simp]: "same_frame w (tagsistant_sql_create_tag conn n k v w)"
  by (simp add: tagsistant_sql_create_tag_def split: option.splits)

lemma get_tag_id_db [simp]: "db (snd (tagsistant_sql_get_tag_id env conn n k v w)) = db w"
  by (simp add: tagsistant_sql_get_tag_id_def Let_def)

lemma same_frame_get_tag_id [simp]: "same_frame w (snd (tagsistant_sql_get_tag_id env conn n k v w))"
  by (simp add: tagsistant_sql_get_tag_id_def Let_def same_frame_def)

lemma same_frame_remove_cache [simp]: "same_frame w (tagsistant_remove_tag_from_cache n k v w)"
  by (simp add: tagsistant_remove_tag_from_cache_def same_frame_def)

lemma remove_cache_db [simp]: "db (tagsistant_remove_tag_from_cache n k v w) = db w"
  by (simp add: tagsistant_remove_tag_from_cache_def)

lemma same_frame_untag_object [simp]: "same_frame w (tagsistant_sql_untag_object env conn n k v i w)"
  unfolding tagsistant_sql_untag_object_def Let_def split_beta
  by (rule same_frame_trans [OF same_frame_get_tag_id same_frame_sql_exec])

lemma same_frame_tag_object [simp]: "same_frame w (tagsistant_sql_tag_object env conn n k v i w)"
proof -
  let ?g = "tagsistant_sql_get_tag_id env conn n (Some (safe_string k)) (Some (safe_string v))"
  let ?c = "tagsistant_sql_create_tag conn n (Some (safe_string k)) (Some (safe_string v))"
  have "same_frame w (snd (?g (?c (snd (?g w)))))"
    by (meson same_frame_create_tag same_frame_get_tag_id same_frame_trans)
  then show ?thesis
    unfolding tagsistant_sql_tag_object_def Let_def split_beta
    by (auto intro: same_frame_trans [OF _ same_frame_sql_exec])
qed

lemma same_frame_delete_tag [simp]: "same_frame w (tagsistant_sql_delete_tag env conn n k v w)"
  unfolding tagsistant_sql_delete_tag_def Let_def split_beta
  by (meson same_frame_get_tag_id same_frame_remove_cache same_frame_sql_exec same_frame_trans)

subsection \<open>The constraints survive every operation\<close>

lemma db_ok_sql_exec: "db_ok (db w) \<Longrightarrow> (\<And>d. db_ok d \<Longrightarrow> db_ok (f d)) \<Longrightarrow> db_ok (db (sql_exec conn f w))"
  by simp

lemma db_ok_create_tag [simp]: "db_ok (db w) \<Longrightarrow> db_ok (db (tagsistant_sql_create_tag conn n k v w))"
  by (simp add: tagsistant_sql_create_tag_def db_ok_statements split: option.splits)

lemma db_ok_delete_tag [simp]: "db_ok (db w) \<Longrightarrow> db_ok (db (tagsistant_sql_delete_tag env conn n k v w))"
  by (simp add: tagsistant_sql_delete_tag_def Let_def split_beta db_ok_statements)

lemma db_ok_untag_object [simp]: "db_ok (db w) \<Longrightarrow> db_ok (db (tagsistant_sql_untag_object env conn n k v i w))"
  by (simp add: tagsistant_sql_untag_object_def Let_def split_beta db_ok_statements)

lemma db_ok_tag_object [simp]: "db_ok (db w) \<Longrightarrow> db_ok (db (tagsistant_sql_tag_object env conn n k v i w))"
  by (simp add: tagsistant_sql_tag_object_def Let_def split_beta db_ok_statements)

end
