(* ===== verification/Tag_Store.thy ===== *)
theory Tag_Store
  imports Sql_Layer
begin

section \<open>The tag store: ids behind a cache\<close>

text \<open>
  What \<^verbatim>\<open>sql.c\<close> promises its clients. The interface is the locale \<open>tag_ids\<close>: a lookup
  and a creation over an abstract map from names to ids; inside it stands the lemma about
  "look up, create if missing, look up again", which \<^verbatim>\<open>tagsistant_sql_tag_object()\<close> is.
  The interpretation shows that the code's lookup, cache included, has the laws as long as the
  cache is coherent. The cache is keyed by a string that joins the three names, so coherence is
  stated for names without \<^verbatim>\<open><\<close>, where the key determines the names.
\<close>

subsection \<open>The interface\<close>

locale tag_ids =
  fixes inv :: "'s \<Rightarrow> bool"
    and okkey :: "'k \<Rightarrow> bool"
    and room :: "'s \<Rightarrow> bool"
    and lookup :: "'k \<Rightarrow> 's \<Rightarrow> 'i \<times> 's"
    and create :: "'k \<Rightarrow> 's \<Rightarrow> 's"
    and ids :: "'s \<Rightarrow> 'k \<Rightarrow> 'i"
    and none :: 'i
  assumes lookup_result: "inv s \<Longrightarrow> okkey k \<Longrightarrow> fst (lookup k s) = ids s k"
    and lookup_ids: "inv s \<Longrightarrow> okkey k \<Longrightarrow> ids (snd (lookup k s)) = ids s"
    and lookup_inv: "inv s \<Longrightarrow> okkey k \<Longrightarrow> inv (snd (lookup k s))"
    and lookup_room: "inv s \<Longrightarrow> okkey k \<Longrightarrow> room (snd (lookup k s)) = room s"
    and create_inv: "inv s \<Longrightarrow> okkey k \<Longrightarrow> inv (create k s)"
    and create_id: "inv s \<Longrightarrow> okkey k \<Longrightarrow> room s \<Longrightarrow> ids (create k s) k \<noteq> none"
    and create_other: "inv s \<Longrightarrow> okkey k \<Longrightarrow> k' \<noteq> k \<Longrightarrow> ids (create k s) k' = ids s k'"
begin

text \<open>Look up; if the name is unknown create it and look up again.\<close>

lemma ensure_facts:
  assumes "inv s" "okkey k"
    and e: "(i, s') = (if fst (lookup k s) = none then lookup k (create k (snd (lookup k s))) else lookup k s)"
  shows "inv s'" and "ids s' k = i" and "k' \<noteq> k \<Longrightarrow> ids s' k' = ids s k'"
    and "room s \<Longrightarrow> i \<noteq> none" and "ids s k \<noteq> none \<Longrightarrow> i = ids s k"
proof -
  let ?s1 = "snd (lookup k s)"
  have s1: "inv ?s1" "ids ?s1 = ids s" "room ?s1 = room s"
    using assms(1,2) by (simp_all add: lookup_inv lookup_ids lookup_room)
  have s2: "inv (create k ?s1)" using s1(1) assms(2) by (rule create_inv)
  have i: "i = fst (if fst (lookup k s) = none then lookup k (create k ?s1) else lookup k s)"
    and s': "s' = snd (if fst (lookup k s) = none then lookup k (create k ?s1) else lookup k s)"
    using e by (metis fst_conv) (use e in \<open>metis snd_conv\<close>)
  show "inv s'" using s1 s2 assms(2) by (simp add: s' lookup_inv)
  show "ids s' k = i" using assms(1,2) s1 s2 by (simp add: i s' lookup_result lookup_ids)
  show "k' \<noteq> k \<Longrightarrow> ids s' k' = ids s k'" using s1 s2 assms(2) by (simp add: s' lookup_ids create_other)
  show "room s \<Longrightarrow> i \<noteq> none" using assms(1,2) s1 s2 by (auto simp: i lookup_result create_id)
  show "ids s k \<noteq> none \<Longrightarrow> i = ids s k" using assms(1,2) by (simp add: i lookup_result)
qed

lemma lookup_twice: "inv s \<Longrightarrow> okkey k \<Longrightarrow> okkey k' \<Longrightarrow> fst (lookup k (snd (lookup k' s))) = fst (lookup k s)"
  by (simp add: lookup_result lookup_inv lookup_ids)

end

subsection \<open>The code's store\<close>

definition plain :: "string \<Rightarrow> bool" where
  "plain s \<longleftrightarrow> CHR ''<'' \<notin> set s"

definition plain_key :: "string \<times> string \<times> string \<Rightarrow> bool" where
  "plain_key t = (case t of (n, k, v) \<Rightarrow> plain n \<and> plain k)"

definition cache_key :: "string \<times> string \<times> string \<Rightarrow> string" where
  "cache_key t = (case t of (n, k, v) \<Rightarrow> tagsistant_make_tag_key n k v)"

definition tag_id_of :: "database \<Rightarrow> string \<times> string \<times> string \<Rightarrow> tagsistant_tag_id" where
  "tag_id_of d t = (case find (\<lambda>r. tag_triple r = t) (tags d) of None \<Rightarrow> 0 | Some r \<Rightarrow> word_of_int (tr_id r))"

definition cache_coherent :: "'fs world \<Rightarrow> bool" where
  "cache_coherent w \<longleftrightarrow>
     (\<forall>t i. plain_key t \<and> tag_cache w (cache_key t) = Some i \<longrightarrow> i \<noteq> 0 \<and> i = tag_id_of (db w) t)"

definition store_inv :: "'fs env \<Rightarrow> 'fs world \<Rightarrow> bool" where
  "store_inv env w \<longleftrightarrow> row_order env \<and> db_ok (db w) \<and> cache_coherent w"

definition store_lookup :: "'fs env \<Rightarrow> string \<times> string \<times> string \<Rightarrow> 'fs world \<Rightarrow> tagsistant_tag_id \<times> 'fs world" where
  "store_lookup env t w = (case t of (n, k, v) \<Rightarrow> tagsistant_sql_get_tag_id env True (Some n) (Some k) (Some v) w)"

definition store_create :: "string \<times> string \<times> string \<Rightarrow> 'fs world \<Rightarrow> 'fs world" where
  "store_create t w = (case t of (n, k, v) \<Rightarrow> tagsistant_sql_create_tag True (Some n) (Some k) (Some v) w)"

definition store_room :: "'fs world \<Rightarrow> bool" where
  "store_room w \<longleftrightarrow> tags_seq (db w) < 2 ^ 31 - 1"

lemma takeWhile_plain: "plain a \<Longrightarrow> takeWhile (\<lambda>c. c \<noteq> CHR ''<'') (a @ ''<separator>'' @ b) = a"
  by (subst takeWhile_append2) (auto simp: plain_def)

lemma append_separator_inj:
  assumes "plain a" "plain a'" "a @ ''<separator>'' @ b = a' @ ''<separator>'' @ b'"
  shows "a = a'" "b = b'"
proof -
  show "a = a'" using assms takeWhile_plain by metis
  then show "b = b'" using assms(3) by simp
qed

lemma cache_key_inj:
  assumes "plain_key t" "plain_key t'" "cache_key t = cache_key t'"
  shows "t = t'"
proof -
  obtain n k v n' k' v' where t: "t = (n, k, v)" "t' = (n', k', v')" by (metis prod_cases3)
  have e: "n @ ''<separator>'' @ (k @ ''<separator>'' @ v) = n' @ ''<separator>'' @ (k' @ ''<separator>'' @ v')"
    using assms(3) by (simp add: cache_key_def t tagsistant_make_tag_key_def)
  have p: "plain n" "plain n'" "plain k" "plain k'" using assms by (auto simp: plain_key_def t)
  note 1 = append_separator_inj[OF p(1,2) e]
  note 2 = append_separator_inj[OF p(3,4) 1(2)]
  show ?thesis using 1 2 by (simp add: t)
qed

lemma select_exact:
  "select_tag_ids (Some n) (Some k) (Some v) d = map tr_id (filter (\<lambda>r. tag_triple r = (n, k, v)) (tags d))"
  by (simp add: select_tag_ids_def tag_triple_def conj_assoc)

lemma triple_inj: "db_ok d \<Longrightarrow> r \<in> set (tags d) \<Longrightarrow> x \<in> set (tags d) \<Longrightarrow> tag_triple x = tag_triple r \<longleftrightarrow> x = r"
  by (auto simp: db_ok_def distinct_map inj_on_def)

lemma filter_triple:
  assumes "db_ok d"
  shows "filter (\<lambda>r. tag_triple r = t) (tags d) = (case find (\<lambda>r. tag_triple r = t) (tags d) of None \<Rightarrow> [] | Some r \<Rightarrow> [r])"
proof (cases "find (\<lambda>r. tag_triple r = t) (tags d)")
  case None
  then have "\<forall>x \<in> set (tags d). tag_triple x \<noteq> t" by (auto simp: find_None_iff)
  then show ?thesis using None by (simp add: filter_empty_conv)
next
  case (Some r)
  then have r: "r \<in> set (tags d)" "tag_triple r = t" by (auto simp: find_Some_iff)
  have d: "distinct (tags d)" and inj: "inj_on tag_triple (set (tags d))"
    using assms by (auto simp: db_ok_def distinct_map)
  have "tag_triple y = t \<longleftrightarrow> y = r" if "y \<in> set (tags d)" for y
    using that r inj by (auto dest: inj_onD)
  with filter_unique[OF d r(1)] Some show ?thesis by simp
qed

lemma sql_tag_id_exact:
  assumes "row_order env" "db_ok d"
  shows "sql_tag_id env True (Some n) (Some k) (Some v) d = tag_id_of d (n, k, v)"
proof (cases "find (\<lambda>r. tag_triple r = (n, k, v)) (tags d)")
  case None
  then have "select_tag_ids (Some n) (Some k) (Some v) d = []"
    using filter_triple[OF assms(2), of "(n, k, v)"] by (simp add: select_exact)
  moreover from assms(1) have "order_ids env [] = []" using row_order_ids_Nil by blast
  ultimately show ?thesis using None
    by (simp add: sql_tag_id_def tagsistant_return_first_def tag_id_of_def)
next
  case (Some r)
  then have s: "select_tag_ids (Some n) (Some k) (Some v) d = [tr_id r]"
    using filter_triple[OF assms(2), of "(n, k, v)"] by (simp add: select_exact)
  obtain xs where xs: "order_ids env [tr_id r] = xs" by blast
  then obtain ys where "xs = tr_id r # ys" using row_order_single[OF assms(1) xs] by (cases xs) auto
  then show ?thesis using Some s xs
    by (simp add: sql_tag_id_def tagsistant_return_first_def tag_id_of_def)
qed

lemma get_exact:
  assumes "store_inv env w" "plain_key (n, k, v)"
  shows "fst (tagsistant_sql_get_tag_id env True (Some n) (Some k) (Some v) w) = tag_id_of (db w) (n, k, v)"
    and "cache_coherent (snd (tagsistant_sql_get_tag_id env True (Some n) (Some k) (Some v) w))"
proof -
  have coh: "cache_coherent w" and sql: "sql_tag_id env True (Some n) (Some k) (Some v) (db w) = tag_id_of (db w) (n, k, v)"
    using assms(1) sql_tag_id_exact[of env "db w" n k v] by (simp_all add: store_inv_def)
  have key: "tagsistant_make_tag_key n k v = cache_key (n, k, v)" by (simp add: cache_key_def)
  show "fst (tagsistant_sql_get_tag_id env True (Some n) (Some k) (Some v) w) = tag_id_of (db w) (n, k, v)"
  proof (cases "tag_cache w (cache_key (n, k, v))")
    case None
    then show ?thesis using sql by (simp add: tagsistant_sql_get_tag_id_def Let_def key)
  next
    case (Some i)
    with coh assms(2) have "i \<noteq> 0" "i = tag_id_of (db w) (n, k, v)" unfolding cache_coherent_def by blast+
    with Some show ?thesis by (simp add: tagsistant_sql_get_tag_id_def Let_def key)
  qed
  let ?w' = "snd (tagsistant_sql_get_tag_id env True (Some n) (Some k) (Some v) w)"
  have c': "tag_cache ?w' = (tag_cache w)(cache_key (n, k, v) \<mapsto> tag_id_of (db w) (n, k, v))
      \<and> tag_id_of (db w) (n, k, v) \<noteq> 0 \<or> tag_cache ?w' = tag_cache w"
    using sql by (simp add: tagsistant_sql_get_tag_id_def Let_def key)
  show "cache_coherent ?w'"
    unfolding cache_coherent_def get_tag_id_db
  proof (intro allI impI)
    fix t i
    assume a: "plain_key t \<and> tag_cache ?w' (cache_key t) = Some i"
    have old: "tag_cache w (cache_key t) = Some i \<Longrightarrow> i \<noteq> 0 \<and> i = tag_id_of (db w) t"
      using a coh unfolding cache_coherent_def by blast
    show "i \<noteq> 0 \<and> i = tag_id_of (db w) t"
    proof (cases "cache_key t = cache_key (n, k, v)")
      case True
      then have "t = (n, k, v)" using cache_key_inj a assms(2) by blast
      with a c' old show ?thesis by auto
    next
      case False
      with a c' have "tag_cache w (cache_key t) = Some i" by auto
      with old show ?thesis .
    qed
  qed
qed

lemma find_append: "find P (xs @ ys) = (case find P xs of None \<Rightarrow> find P ys | Some x \<Rightarrow> Some x)"
  by (induction xs) auto

lemma tag_id_of_insert_tag:
  assumes "db_ok d"
  shows "tag_id_of (insert_tag n k v d) t =
     (if t = (n, k, v) \<and> (\<forall>r \<in> set (tags d). tag_triple r \<noteq> t) then word_of_int (tags_seq d + 1) else tag_id_of d t)"
proof (cases "(n, k, v) \<in> set (map tag_triple (tags d))")
  case True
  then show ?thesis by (auto simp: insert_tag_def)
next
  case False
  then have "find (\<lambda>r. tag_triple r = (n, k, v)) (tags d) = None" by (force simp: find_None_iff)
  with False show ?thesis
    by (auto simp: insert_tag_def tag_id_of_def find_append tag_triple_def split: option.splits)
qed

lemma tag_id_of_nonzero:
  assumes "db_ok d" "tags_seq d < 2 ^ 31" "r \<in> set (tags d)"
  shows "tag_id_of d (tag_triple r) = word_of_int (tr_id r)" "(word_of_int (tr_id r) :: 32 word) \<noteq> 0"
    "sint (word_of_int (tr_id r) :: 32 word) = tr_id r"
proof -
  obtain r' where f: "find (\<lambda>x. tag_triple x = tag_triple r) (tags d) = Some r'"
    using assms(3) by (cases "find (\<lambda>x. tag_triple x = tag_triple r) (tags d)") (auto simp: find_None_iff)
  then have "r' \<in> set (tags d)" "tag_triple r' = tag_triple r" by (auto simp: find_Some_iff)
  then have "r' = r" using assms(1,3) by (auto simp: db_ok_def distinct_map dest: inj_onD)
  with f show "tag_id_of d (tag_triple r) = word_of_int (tr_id r)" by (simp add: tag_id_of_def)
  have b: "1 \<le> tr_id r" "tr_id r < 2 ^ 31" using assms by (auto simp: db_ok_def)
  then show s: "sint (word_of_int (tr_id r) :: 32 word) = tr_id r"
    by (simp add: sint_sbintrunc' signed_take_bit_int_eq_self)
  with b show "(word_of_int (tr_id r) :: 32 word) \<noteq> 0" by (metis not_one_le_zero signed_0)
qed

lemma row_inserted: "\<exists>r \<in> set (tags (insert_tag n k v d)). tag_triple r = (n, k, v)"
  by (auto simp: insert_tag_def tag_triple_def)

lemma tag_id_of_other: "db_ok d \<Longrightarrow> tag_id_of d t \<noteq> 0 \<Longrightarrow> t \<in> set (map tag_triple (tags d))"
  by (force simp: tag_id_of_def find_Some_iff split: option.splits dest: nth_mem)

lemma coherent_db:
  "cache_coherent w \<Longrightarrow> tag_cache w' = tag_cache w \<Longrightarrow>
     (\<And>t. tag_id_of (db w) t \<noteq> 0 \<Longrightarrow> tag_id_of (db w') t = tag_id_of (db w) t) \<Longrightarrow> cache_coherent w'"
  by (auto simp: cache_coherent_def)

lemma create_tag_cache [simp]: "tag_cache (tagsistant_sql_create_tag conn n k v w) = tag_cache w"
  by (simp add: tagsistant_sql_create_tag_def split: option.splits)

lemma create_coherent:
  assumes "store_inv env w"
  shows "cache_coherent (store_create t w)"
proof -
  obtain n k v where t: "t = (n, k, v)" by (metis prod_cases3)
  have ok: "db_ok (db w)" and coh: "cache_coherent w" using assms by (simp_all add: store_inv_def)
  have "tag_id_of (insert_tag n k v (db w)) u = tag_id_of (db w) u" if "tag_id_of (db w) u \<noteq> 0" for u
    using tag_id_of_other[OF ok that] by (auto simp: tag_id_of_insert_tag[OF ok])
  then show ?thesis
    by (intro coherent_db[OF coh]) (simp_all add: t store_create_def tagsistant_sql_create_tag_def)
qed

interpretation store: tag_ids "store_inv env" plain_key store_room "store_lookup env" store_create
  "\<lambda>w. tag_id_of (db w)" 0 for env
proof unfold_locales
  fix w t assume a: "store_inv env w" "plain_key t"
  obtain n k v where t: "t = (n, k, v)" by (metis prod_cases3)
  have ok: "db_ok (db w)" and ro: "row_order env" using a by (simp_all add: store_inv_def)
  show "fst (store_lookup env t w) = tag_id_of (db w) t"
    using get_exact(1)[of env w n k v] a by (simp add: t store_lookup_def)
  show "(\<lambda>w. tag_id_of (db w)) (snd (store_lookup env t w)) = tag_id_of (db w)"
    by (simp add: t store_lookup_def)
  show "store_inv env (snd (store_lookup env t w))"
    using get_exact(2)[of env w n k v] a ok ro by (simp add: t store_lookup_def store_inv_def)
  show "store_room (snd (store_lookup env t w)) = store_room w"
    by (simp add: t store_lookup_def store_room_def)
  show "store_inv env (store_create t w)"
    using create_coherent[OF a(1), of t] ok ro by (simp add: t store_create_def store_inv_def)
  show "tag_id_of (db (store_create t w)) t' = tag_id_of (db w) t'" if "t' \<noteq> t" for t'
    using that ok by (simp add: t store_create_def tagsistant_sql_create_tag_def tag_id_of_insert_tag)
  assume room: "store_room w"
  let ?d = "db (store_create t w)"
  have d: "?d = insert_tag n k v (db w)" by (simp add: t store_create_def tagsistant_sql_create_tag_def)
  have "\<exists>r \<in> set (tags ?d). tag_triple r = t"
    using row_inserted[of n k v "db w"] by (metis d t)
  moreover have "db_ok ?d" using db_ok_insert_tag[OF ok] by (simp add: d)
  moreover have "tags_seq ?d < 2 ^ 31" using room unfolding d by (auto simp: insert_tag_def store_room_def)
  ultimately show "tag_id_of ?d t \<noteq> 0" using tag_id_of_nonzero by metis
qed

subsection \<open>Tagging, untagging, deleting a tag\<close>

text \<open>The id a tagging operation ends up with, and the state it is applied in.\<close>

definition store_ensure :: "'fs env \<Rightarrow> string \<times> string \<times> string \<Rightarrow> 'fs world \<Rightarrow> tagsistant_tag_id \<times> 'fs world" where
  "store_ensure env t w =
     (if fst (store_lookup env t w) = 0 then store_lookup env t (store_create t (snd (store_lookup env t w)))
      else store_lookup env t w)"

lemma tag_object_ensure:
  "tagsistant_sql_tag_object env True (Some n) (Some k) (Some v) i w =
     sql_exec True (insert_tagging (sint (fst (store_ensure env (n, k, v) w))) (sint i)) (snd (store_ensure env (n, k, v) w))"
  by (simp add: tagsistant_sql_tag_object_def store_ensure_def store_lookup_def store_create_def Let_def split_beta)

lemma ensure_tags_of [simp]: "tags_of j (db (snd (store_ensure env t w))) = tags_of j (db w)"
  by (cases t) (simp add: store_ensure_def store_lookup_def store_create_def tagsistant_sql_create_tag_def)

lemma tag_id_of_tagging [simp]:
  "tag_id_of (insert_tagging t i d) u = tag_id_of d u" "tag_id_of (delete_tagging t i d) u = tag_id_of d u"
  by (simp_all add: tag_id_of_def insert_tagging_def delete_tagging_def)

lemma store_inv_exec:
  assumes "store_inv env w" "\<And>d. db_ok d \<Longrightarrow> db_ok (f d)" "\<And>d u. tag_id_of (f d) u = tag_id_of d u"
  shows "store_inv env (sql_exec True f w)"
  using assms coherent_db[of w "sql_exec True f w"] by (simp add: store_inv_def)

lemmas ensure = store.ensure_facts[OF _ _ prod.collapse[unfolded store_ensure_def], folded store_ensure_def]

lemma tag_object_facts:
  assumes "store_inv env w" "plain_key (n, k, v)" "store_room w"
    and w': "w' = tagsistant_sql_tag_object env True (Some n) (Some k) (Some v) i w"
  shows "store_inv env w' \<and> tag_id_of (db w') (n, k, v) \<noteq> 0
    \<and> tags_of (sint i) (db w') = insert (sint (tag_id_of (db w') (n, k, v))) (tags_of (sint i) (db w))
    \<and> (\<forall>j. j \<noteq> sint i \<longrightarrow> tags_of j (db w') = tags_of j (db w))
    \<and> (\<forall>t. t \<noteq> (n, k, v) \<longrightarrow> tag_id_of (db w') t = tag_id_of (db w) t)"
proof -
  let ?e = "store_ensure env (n, k, v) w"
  have d: "db w' = insert_tagging (sint (fst ?e)) (sint i) (db (snd ?e))"
    by (simp add: w' tag_object_ensure)
  note e = ensure[OF assms(1,2)]
  have i: "tag_id_of (db w') (n, k, v) = fst ?e" using e(2) by (simp add: d)
  have "store_inv env w'" unfolding w' tag_object_ensure
    using e(1) by (rule store_inv_exec) (simp_all add: db_ok_statements)
  moreover have "fst ?e \<noteq> 0" using e(4) assms(3) .
  moreover have "tag_id_of (db w') t = tag_id_of (db w) t" if "t \<noteq> (n, k, v)" for t
    using e(3)[OF that] by (simp add: d)
  ultimately show ?thesis using i by (simp add: d)
qed

text \<open>C9: Tagging an object, whether the tag exists or not and whether its id is cached or not,
  adds exactly that tag to that object: the object's other tags, the tags of the other objects
  and the ids of the other tags are unchanged, the tag has a nonzero id afterwards, and the
  cache still agrees with the table.\<close>

theorem tag_object_adds_one_tag:
  assumes "store_inv env w" "plain_key (n, k, v)" "store_room w"
    and w': "w' = tagsistant_sql_tag_object env True (Some n) (Some k) (Some v) i w"
  shows "store_inv env w' \<and> tag_id_of (db w') (n, k, v) \<noteq> 0
    \<and> tags_of (sint i) (db w') = insert (sint (tag_id_of (db w') (n, k, v))) (tags_of (sint i) (db w))
    \<and> (\<forall>j. j \<noteq> sint i \<longrightarrow> tags_of j (db w') = tags_of j (db w))
    \<and> (\<forall>t. t \<noteq> (n, k, v) \<longrightarrow> tag_id_of (db w') t = tag_id_of (db w) t)"
  using tag_object_facts[OF assms] .

lemma return_first_const:
  assumes "row_order env" "\<forall>x \<in> set rows. x = sint i" "(i :: 32 word) \<noteq> 0"
  shows "tagsistant_return_first env True rows 0 \<noteq> 0 \<longleftrightarrow> rows \<noteq> []"
proof (cases "order_ids env rows")
  case Nil
  then have "rows = []" using row_order_ids_Nil[OF assms(1)] by blast
  with Nil show ?thesis by (simp add: tagsistant_return_first_def)
next
  case (Cons x xs)
  have "x \<in> set rows" using row_order_ids[OF assms(1), of rows] Cons by auto
  then have "x = sint i" "rows \<noteq> []" using assms(2) by auto
  moreover have "(word_of_int (sint i) :: 32 word) = i" by simp
  ultimately show ?thesis using Cons assms(3) by (simp add: tagsistant_return_first_def del: of_int_sint)
qed

lemma is_tagged_as_iff:
  assumes "row_order env" "i \<noteq> 0"
  shows "tagsistant_object_is_tagged_as env True i t w \<longleftrightarrow> sint t \<in> tags_of (sint i) (db w)"
proof -
  let ?rows = "map fst (filter (\<lambda>p. fst p = sint i \<and> snd p = sint t) (tagging (db w)))"
  have "?rows \<noteq> [] \<longleftrightarrow> sint t \<in> tags_of (sint i) (db w)"
    by (force simp: tags_of_def filter_empty_conv)
  then show ?thesis
    using return_first_const[OF assms(1) _ assms(2), of ?rows]
    unfolding tagsistant_object_is_tagged_as_def by simp
qed

lemma is_tagged_iff:
  assumes "row_order env" "i \<noteq> 0"
  shows "tagsistant_object_is_tagged env True i w \<longleftrightarrow> tags_of (sint i) (db w) \<noteq> {}"
proof -
  let ?rows = "map fst (filter (\<lambda>p. fst p = sint i) (tagging (db w)))"
  have "?rows \<noteq> [] \<longleftrightarrow> tags_of (sint i) (db w) \<noteq> {}"
    by (force simp: tags_of_def filter_empty_conv)
  then show ?thesis
    using return_first_const[OF assms(1) _ assms(2), of ?rows]
    unfolding tagsistant_object_is_tagged_def by simp
qed

lemma untag_object_db:
  assumes "store_inv env w" "plain_key (n, k, v)"
  shows "db (tagsistant_sql_untag_object env True (Some n) (Some k) (Some v) i w)
    = delete_tagging (sint (tag_id_of (db w) (n, k, v))) (sint i) (db w)"
  using get_exact(1)[OF assms] by (simp add: tagsistant_sql_untag_object_def Let_def split_beta)

text \<open>C17: Untagging undoes tagging: an object tagged and then untagged with the same tag has the
  tags it had, less that one, and the daemon reports it tagged after the first step and not
  tagged after the second.\<close>

theorem untag_after_tag:
  assumes "store_inv env w" "plain_key (n, k, v)" "store_room w" "i \<noteq> 0"
    and w1: "w1 = tagsistant_sql_tag_object env True (Some n) (Some k) (Some v) i w"
    and w2: "w2 = tagsistant_sql_untag_object env True (Some n) (Some k) (Some v) i w1"
    and t: "t = tag_id_of (db w1) (n, k, v)"
  shows "tagsistant_object_is_tagged_as env True i t w1 \<and> \<not> tagsistant_object_is_tagged_as env True i t w2
    \<and> tags_of (sint i) (db w2) = tags_of (sint i) (db w) - {sint t}"
proof -
  let ?e = "store_ensure env (n, k, v) w"
  have d: "db w1 = insert_tagging (sint (fst ?e)) (sint i) (db (snd ?e))"
    by (simp add: w1 tag_object_ensure)
  have inv: "store_inv env w1" unfolding w1 tag_object_ensure
    using ensure(1)[OF assms(1,2)] by (rule store_inv_exec) (simp_all add: db_ok_statements)
  have "t = fst ?e" using ensure(2)[OF assms(1,2)] by (simp add: d t)
  then have 1: "tags_of (sint i) (db w1) = insert (sint t) (tags_of (sint i) (db w))" by (simp add: d)
  have "db w2 = delete_tagging (sint t) (sint i) (db w1)"
    unfolding w2 t using untag_object_db[OF inv assms(2)] .
  then have 2: "tags_of (sint i) (db w2) = tags_of (sint i) (db w) - {sint t}" using 1 by simp
  have ro: "row_order env" using assms(1) by (simp add: store_inv_def)
  show ?thesis using is_tagged_as_iff[OF ro assms(4)] 1 2 by simp
qed

text \<open>C10: The cache of tag ids is transparent: in every state the cache agrees with, for names
  without the character the cache's separator starts with, the lookup returns the id the tags
  table gives (0 for a tag that does not exist), keeps the database, and leaves a cache that
  agrees again.\<close>

theorem cache_transparent:
  assumes "store_inv env w" "plain n" "plain k"
  shows "fst (tagsistant_sql_get_tag_id env True (Some n) (Some k) (Some v) w)
       = sql_tag_id env True (Some n) (Some k) (Some v) (db w)
     \<and> store_inv env (snd (tagsistant_sql_get_tag_id env True (Some n) (Some k) (Some v) w))
     \<and> db (snd (tagsistant_sql_get_tag_id env True (Some n) (Some k) (Some v) w)) = db w"
proof -
  have p: "plain_key (n, k, v)" using assms by (simp add: plain_key_def)
  show ?thesis
    using get_exact[OF assms(1) p] assms(1) sql_tag_id_exact[of env "db w" n k v] by (simp add: store_inv_def)
qed

lemma delete_tag_db:
  assumes "store_inv env w" "plain_key (n, k, v)"
  shows "db (tagsistant_sql_delete_tag env True (Some n) (Some k) (Some v) w)
    = (let t = sint (tag_id_of (db w) (n, k, v))
       in delete_relations_of_tag t (delete_tagging_of_tag t (delete_tag_rows n k v (db w))))"
  using get_exact(1)[OF assms] by (simp add: tagsistant_sql_delete_tag_def Let_def split_beta)

text \<open>C16: Deleting a tag, when the cache agrees with the table, removes its row, every tagging
  and every relation that mention it, and nothing of any other tag.\<close>

theorem delete_tag_removes_exactly:
  assumes "store_inv env w" "plain_key (n, k, v)" "tags_seq (db w) < 2 ^ 31"
    and r: "r \<in> set (tags (db w))" "tag_triple r = (n, k, v)"
    and w': "w' = tagsistant_sql_delete_tag env True (Some n) (Some k) (Some v) w"
  shows "tags (db w') = filter (\<lambda>x. x \<noteq> r) (tags (db w))
    \<and> (\<forall>j. tags_of j (db w') = tags_of j (db w) - {tr_id r})
    \<and> relations (db w') = filter (\<lambda>x. re_tag1 x \<noteq> tr_id r \<and> re_tag2 x \<noteq> tr_id r) (relations (db w))"
proof -
  have ok: "db_ok (db w)" using assms(1) by (simp add: store_inv_def)
  have id: "sint (tag_id_of (db w) (n, k, v)) = tr_id r"
    using tag_id_of_nonzero(1,3)[OF ok assms(3) r(1)] r(2) by simp
  have d: "db w' = delete_relations_of_tag (tr_id r) (delete_tagging_of_tag (tr_id r) (delete_tag_rows n k v (db w)))"
    unfolding w' delete_tag_db[OF assms(1,2)] id Let_def ..
  have "tag_triple x \<noteq> (n, k, v) \<longleftrightarrow> x \<noteq> r" if "x \<in> set (tags (db w))" for x
    using triple_inj[OF ok r(1) that] r(2) by simp
  then have "filter (\<lambda>x. tag_triple x \<noteq> (n, k, v)) (tags (db w)) = filter (\<lambda>x. x \<noteq> r) (tags (db w))"
    by (rule filter_cong[OF refl])
  then show ?thesis
    by (simp add: d delete_relations_of_tag_def delete_tagging_of_tag_def delete_tag_rows_def tags_of_def
        cong: filter_cong) auto
qed

subsection \<open>Concrete instances, and what breaks coherence\<close>

definition two_tags :: database where
  "two_tags = snd (insert_object ''f'' (insert_tag ''a'' ''k'' ''v'' (insert_tag ''a'' '''' '''' empty_db)))"

lemma store_inv_sample [simp]: "db_ok d \<Longrightarrow> store_inv sample_env (sample_world d fl)"
  by (simp add: store_inv_def cache_coherent_def)

lemma two_tags_simps [simp]: "db_ok two_tags" "tags_seq two_tags = 2" "tagging two_tags = []"
  "tags two_tags = [\<lparr>tr_id = 1, tr_name = ''a'', tr_key = '''', tr_value = ''''\<rparr>, \<lparr>tr_id = 2, tr_name = ''a'', tr_key = ''k'', tr_value = ''v''\<rparr>]"
  by (simp_all add: two_tags_def db_ok_empty db_ok_statements)
    (simp_all add: empty_db_def insert_tag_def insert_object_def tag_triple_def)

theorem tag_object_adds_one_tag_witness:
  "tags_of 1 (db (tagsistant_sql_tag_object sample_env True (Some ''b'') (Some '''') (Some '''') 1 (sample_world two_tags [])))
     = {sint (tag_id_of (db (tagsistant_sql_tag_object sample_env True (Some ''b'') (Some '''') (Some '''') 1 (sample_world two_tags []))) (''b'', '''', ''''))}"
  using tag_object_adds_one_tag[of sample_env "sample_world two_tags []" "''b''" "''''" "''''" _ 1, OF _ _ _ refl]
  by (simp add: plain_key_def plain_def store_room_def tags_of_def)

theorem untag_after_tag_witness:
  "tags_of 1 (db (tagsistant_sql_untag_object sample_env True (Some ''a'') (Some ''k'') (Some ''v'') 1
     (tagsistant_sql_tag_object sample_env True (Some ''a'') (Some ''k'') (Some ''v'') 1 (sample_world two_tags [])))) = {}"
  using untag_after_tag[of sample_env "sample_world two_tags []" "''a''" "''k''" "''v''" 1, OF _ _ _ _ refl refl refl]
  by (simp add: plain_key_def plain_def store_room_def tags_of_def)

theorem cache_transparent_witness:
  "fst (tagsistant_sql_get_tag_id sample_env True (Some ''a'') (Some ''k'') (Some ''v'') (sample_world two_tags []))
     = sql_tag_id sample_env True (Some ''a'') (Some ''k'') (Some ''v'') two_tags"
  using cache_transparent[of sample_env "sample_world two_tags []" "''a''" "''k''" "''v''"]
  by (simp add: plain_def)

theorem delete_tag_removes_exactly_witness:
  "tags (db (tagsistant_sql_delete_tag sample_env True (Some ''a'') (Some ''k'') (Some ''v'') (sample_world two_tags [])))
     = [\<lparr>tr_id = 1, tr_name = ''a'', tr_key = '''', tr_value = ''''\<rparr>]"
  using delete_tag_removes_exactly[of sample_env "sample_world two_tags []" "''a''" "''k''" "''v''"
      "\<lparr>tr_id = 2, tr_name = ''a'', tr_key = ''k'', tr_value = ''v''\<rparr>", OF _ _ _ _ _ refl]
  by (simp add: plain_key_def plain_def tag_triple_def)

lemma partial_lookup:
  assumes "store_inv env w" "tags_seq (db w) < 2 ^ 31"
    and r: "r \<in> set (tags (db w))" "tr_name r = n" "\<forall>x \<in> set (tags (db w)). tr_name x = n \<longrightarrow> x = r"
    and c: "tag_cache w (cache_key (n, '''', '''')) = None"
  shows "tagsistant_sql_get_tag_id env True (Some n) None None w
    = (word_of_int (tr_id r), w\<lparr>tag_cache := (tag_cache w)(cache_key (n, '''', '''') \<mapsto> word_of_int (tr_id r))\<rparr>)"
proof -
  have ok: "db_ok (db w)" and ro: "row_order env" using assms(1) by (simp_all add: store_inv_def)
  have d: "distinct (tags (db w))" using ok by (simp add: db_ok_def distinct_map)
  have "filter (\<lambda>x. tr_name x = n) (tags (db w)) = [r]"
    by (rule filter_unique[OF d r(1)]) (use r(2,3) in metis)
  then have sel: "select_tag_ids (Some n) None None (db w) = [tr_id r]" by (simp add: select_tag_ids_def)
  obtain xs where xs: "order_ids env [tr_id r] = xs" by blast
  then obtain ys where "xs = tr_id r # ys" using row_order_single[OF ro xs] by (cases xs) auto
  then have "sql_tag_id env True (Some n) None None (db w) = word_of_int (tr_id r)"
    using sel xs by (simp add: sql_tag_id_def tagsistant_return_first_def)
  then show ?thesis
    using c tag_id_of_nonzero(2)[OF ok assms(2) r(1)]
    by (simp add: tagsistant_sql_get_tag_id_def Let_def cache_key_def)
qed

text \<open>A lookup by namespace alone, as a path with an unfinished triple tag makes it, stores
  the id of some triple of that namespace in the cache under the key of the plain tag of the same
  name. If the plain tag is then deleted, although it does not exist, the taggings of the triple
  are all deleted with it, while the triple's row stays; without that lookup the deletion
  changes no object's tags.\<close>

theorem partial_lookup_poisons_cache:
  assumes "store_inv env w" "tags_seq (db w) < 2 ^ 31" "plain n"
    and r: "r \<in> set (tags (db w))" "tr_name r = n" "\<forall>x \<in> set (tags (db w)). tr_name x = n \<longrightarrow> x = r"
      "tr_key r \<noteq> ''''"
    and c: "tag_cache w (cache_key (n, '''', '''')) = None"
    and w1: "w1 = snd (tagsistant_sql_get_tag_id env True (Some n) None None w)"
    and nt: "\<forall>j. 0 \<notin> tags_of j (db w)"
  shows "(\<forall>j. tags_of j (db (tagsistant_sql_delete_tag env True (Some n) None None w)) = tags_of j (db w))
    \<and> (\<forall>j. tags_of j (db (tagsistant_sql_delete_tag env True (Some n) None None w1)) = tags_of j (db w) - {tr_id r})
    \<and> r \<in> set (tags (db (tagsistant_sql_delete_tag env True (Some n) None None w1)))"
proof -
  have ok: "db_ok (db w)" using assms(1) by (simp add: store_inv_def)
  have "tag_triple x \<noteq> (n, '''', '''')" if "x \<in> set (tags (db w))" for x
    using r that unfolding tag_triple_def by (metis prod.inject)
  then have "find (\<lambda>x. tag_triple x = (n, '''', '''')) (tags (db w)) = None"
    by (simp add: find_None_iff)
  then have id0: "tag_id_of (db w) (n, '''', '''') = 0" by (simp add: tag_id_of_def)
  have same: "tagsistant_sql_delete_tag env True (Some n) None None x
      = tagsistant_sql_delete_tag env True (Some n) (Some '''') (Some '''') x" for x :: "'a world"
    by (simp add: tagsistant_sql_delete_tag_def)
  have pk: "plain_key (n, '''', '''')" using assms(3) by (simp add: plain_key_def plain_def)
  have 1: "tags_of j (db (tagsistant_sql_delete_tag env True (Some n) None None w)) = tags_of j (db w)" for j
    using delete_tag_db[OF assms(1) pk] nt unfolding same by (simp add: id0)
  have nz: "(word_of_int (tr_id r) :: 32 word) \<noteq> 0" "sint (word_of_int (tr_id r) :: 32 word) = tr_id r"
    using tag_id_of_nonzero(2,3)[OF ok assms(2) r(1)] by blast+
  have w1': "w1 = w\<lparr>tag_cache := (tag_cache w)(cache_key (n, '''', '''') \<mapsto> word_of_int (tr_id r))\<rparr>"
    using partial_lookup[OF assms(1,2) r(1,2,3) c] by (simp add: w1)
  have "db (tagsistant_sql_delete_tag env True (Some n) (Some '''') (Some '''') w1) =
      delete_relations_of_tag (tr_id r) (delete_tagging_of_tag (tr_id r) (delete_tag_rows n '''' '''' (db w)))"
    using nz by (simp add: tagsistant_sql_delete_tag_def tagsistant_sql_get_tag_id_def Let_def w1' cache_key_def)
  then have "tags_of j (db (tagsistant_sql_delete_tag env True (Some n) None None w1)) = tags_of j (db w) - {tr_id r}"
      "r \<in> set (tags (db (tagsistant_sql_delete_tag env True (Some n) None None w1)))" for j
    using r(1,4) unfolding same
    by (auto simp: delete_relations_of_tag_def delete_tagging_of_tag_def delete_tag_rows_def tag_triple_def tags_of_def)
  with 1 show ?thesis by blast
qed

definition one_triple :: database where
  "one_triple = insert_tagging 1 1 (insert_tag ''a'' ''k'' ''v'' empty_db)"

theorem partial_lookup_poisons_cache_witness:
  "tags_of 1 (db (tagsistant_sql_delete_tag sample_env True (Some ''a'') None None (sample_world one_triple []))) = {1}
   \<and> tags_of 1 (db (tagsistant_sql_delete_tag sample_env True (Some ''a'') None None
       (snd (tagsistant_sql_get_tag_id sample_env True (Some ''a'') None None (sample_world one_triple []))))) = {}"
proof -
  have ok: "db_ok one_triple" by (simp add: one_triple_def db_ok_empty db_ok_statements)
  have t: "tags one_triple = [\<lparr>tr_id = 1, tr_name = ''a'', tr_key = ''k'', tr_value = ''v''\<rparr>]" "tags_seq one_triple = 1"
      "tagging one_triple = [(1, 1)]"
    by (simp_all add: one_triple_def empty_db_def insert_tag_def insert_tagging_def tag_triple_def)
  then have g: "tags_of j one_triple = (if j = 1 then {1} else {})" for j by (auto simp: tags_of_def)
  let ?r = "\<lparr>tr_id = 1, tr_name = ''a'', tr_key = ''k'', tr_value = ''v''\<rparr>" and ?w = "sample_world one_triple []"
  have p: "store_inv sample_env ?w" "tags_seq (db ?w) < 2 ^ 31" "plain ''a''" "?r \<in> set (tags (db ?w))"
      "tr_name ?r = ''a''" "\<forall>x \<in> set (tags (db ?w)). tr_name x = ''a'' \<longrightarrow> x = ?r" "tr_key ?r \<noteq> ''''"
      "tag_cache ?w (cache_key (''a'', '''', '''')) = None" "\<forall>j. 0 \<notin> tags_of j (db ?w)"
    using ok t g by (auto simp: plain_def)
  have d: "tags_of 1 (db ?w) = {1}" using g by simp
  show ?thesis
    using partial_lookup_poisons_cache[OF p(1-8) refl p(9)] d by simp
qed

subsection \<open>Aliases\<close>

lemma map_of_append_new: "map_of (xs @ [(a, q)]) a = (case map_of xs a of None \<Rightarrow> Some q | Some p \<Rightarrow> Some p)"
  by (induction xs) auto

lemma map_of_update_query:
  "map_of (map (\<lambda>p. if fst p = a then (a, q) else p) xs) b
     = (if b = a then map_option (\<lambda>_. q) (map_of xs a) else map_of xs b)"
  by (induction xs) auto

text \<open>After creating an alias and setting its query, reading the alias gives that query back
  (the length reported is its length), every other alias reads as before, and after deleting it
  it no longer exists.\<close>

theorem alias_roundtrip:
  shows "let w1 = tagsistant_sql_alias_set True (Some a) q (tagsistant_sql_alias_create True (Some a) w)
    in tagsistant_sql_alias_get True (Some a) w1 = Some q
     \<and> tagsistant_sql_alias_get_length True (Some a) w1 = length q
     \<and> (b = a \<or> tagsistant_sql_alias_get True (Some b) w1 = tagsistant_sql_alias_get True (Some b) w)
     \<and> tagsistant_sql_alias_get True (Some a) (tagsistant_sql_alias_delete True (Some a) w1) = None"
proof -
  have m: "map_of (aliases (insert_alias a d)) b =
      (if b = a \<and> a \<notin> fst ` set (aliases d) then Some '''' else map_of (aliases d) b)" for d b
  proof (cases "a \<in> fst ` set (aliases d)")
    case False
    then have "map_of (aliases d) a = None" by (simp add: map_of_eq_None_iff)
    with False show ?thesis by (simp add: insert_alias_def map_add_def split: option.splits)
  qed (simp add: insert_alias_def)
  have e: "\<exists>z. map_of (aliases d) a = Some z" "map_option (\<lambda>_. q) (map_of (aliases d) a) = Some q"
    if "(a, b) \<in> set (aliases d)" for d b
    using that by (cases "map_of (aliases d) a"; force simp: map_of_eq_None_iff)+
  show ?thesis
    by (auto simp: Let_def tagsistant_sql_alias_set_def tagsistant_sql_alias_create_def tagsistant_sql_alias_get_def
        tagsistant_sql_alias_get_length_def tagsistant_sql_alias_exists_def tagsistant_sql_alias_delete_def
        update_alias_query_def delete_alias_def map_of_update_query m map_of_eq_None_iff e)
qed

end
