(* ===== verification/Reasoner.thy ===== *)
theory Reasoner
  imports Tag_Store
begin

section \<open>The reasoner\<close>

text \<open>
  \<^verbatim>\<open>src/src/reasoner.c\<close>, with the reasoner cache compiled out as
  \<^verbatim>\<open>path_resolution.h\<close> has it. The structure \<^verbatim>\<open>tagsistant_reasoning\<close> holds two
  pointers into the same tree; here the second one, \<^verbatim>\<open>current_node\<close>, is its depth on the
  chain of related nodes that starts at \<^verbatim>\<open>start_node\<close>. The specification is reachability
  over the relations of the database.
\<close>

subsection \<open>The code\<close>

text \<open>The structure \<^verbatim>\<open>tagsistant_tag\<close>; its names are arrays, never NULL.\<close>

record tagsistant_tag =
  t_tag_id :: tagsistant_tag_id
  t_tag :: string
  t_namespace :: string
  t_key :: string
  t_value :: string

record tagsistant_reasoning =
  rs_start :: qtree_and_node
  rs_rest :: "qtree_and_node list"
  rs_depth :: nat
  rs_conn :: dbi_conn
  rs_negate :: bool
  rs_added_tags :: nat

definition tagsistant_and_node_match :: "qtree_and_node \<Rightarrow> tagsistant_tag \<Rightarrow> bool" where
  "tagsistant_and_node_match nd T \<longleftrightarrow> t_tag_id T = an_tag_id (and_data nd)"

text \<open>The nodes the duplicate check visits for one node of the \<^verbatim>\<open>next\<close> chain.\<close>

definition visited_nodes :: "qtree_and_node \<Rightarrow> qtree_and_node list" where
  "visited_nodes nd = related_chain nd @ tl (negated_chain nd)"

fun modify_related :: "nat \<Rightarrow> (qtree_and_node \<Rightarrow> qtree_and_node) \<Rightarrow> qtree_and_node \<Rightarrow> qtree_and_node" where
  "modify_related 0 f nd = f nd"
| "modify_related (Suc n) f (And_node a None ng) = And_node a None ng"
| "modify_related (Suc n) f (And_node a (Some r) ng) = And_node a (Some (modify_related n f r)) ng"

definition reasoned_node :: "tagsistant_tag \<Rightarrow> bool \<Rightarrow> qtree_and_node" where
  "reasoned_node T neg = And_node
     \<lparr>an_negate = neg, an_tag = Some (t_tag T), an_tag_id = t_tag_id T, an_namespace = Some (t_namespace T),
      an_key = Some (t_key T), an_operator = TAGSISTANT_NONE, an_value = Some (t_value T)\<rparr> None None"

definition tagsistant_add_reasoned_tag :: "tagsistant_tag \<Rightarrow> tagsistant_reasoning \<Rightarrow> tagsistant_reasoning" where
  "tagsistant_add_reasoned_tag T R =
     (if \<exists>nd \<in> set (concat (map visited_nodes (rs_start R # rs_rest R))). tagsistant_and_node_match nd T then R
      else let nd = reasoned_node T (rs_negate R)
           in R\<lparr>rs_start := modify_related (rs_depth R)
                  (if rs_negate R then append_negated nd else append_related nd) (rs_start R),
                rs_added_tags := rs_added_tags R + 1\<rparr>)"

definition tag_of_row :: "tag_row \<Rightarrow> tagsistant_tag" where
  "tag_of_row r =
     (if is_triple_token (tr_name r)
      then \<lparr>t_tag_id = word_of_int (tr_id r), t_tag = '''', t_namespace = tr_name r, t_key = tr_key r, t_value = tr_value r\<rparr>
      else \<lparr>t_tag_id = word_of_int (tr_id r), t_tag = tr_name r, t_namespace = '''', t_key = '''', t_value = ''''\<rparr>)"

definition tagsistant_add_reasoned_tag_callback :: "tag_row \<Rightarrow> tagsistant_reasoning \<Rightarrow> tagsistant_reasoning" where
  "tagsistant_add_reasoned_tag_callback r R = tagsistant_add_reasoned_tag (tag_of_row r) R"

text \<open>The two queries: the rows joined, each once (the union removes duplicates).\<close>

definition positive_rows :: "tagsistant_tag_id \<Rightarrow> database \<Rightarrow> tag_row list" where
  "positive_rows t d = filter (\<lambda>r. \<exists>q \<in> set (relations d).
      re_tag1 q = sint t \<and> re_relation q \<in> {''includes'', ''is_equivalent''} \<and> re_tag2 q = tr_id r \<or>
      re_tag2 q = sint t \<and> re_relation q = ''is_equivalent'' \<and> re_tag1 q = tr_id r) (tags d)"

definition negative_rows :: "tagsistant_tag_id \<Rightarrow> database \<Rightarrow> tag_row list" where
  "negative_rows t d = concat (map (\<lambda>q. filter (\<lambda>r. tr_id r = re_tag2 q) (tags d))
      (filter (\<lambda>q. re_tag1 q = sint t \<and> re_relation q = ''excludes'') (relations d)))"

text \<open>The engine returns the rows that match in an order of its own.\<close>

definition ordered_rows :: "'fs env \<Rightarrow> tag_row list \<Rightarrow> tag_row list" where
  "ordered_rows env rows = filter (\<lambda>r. r \<in> set rows) (order_rows env rows)"

definition reasoning_rows :: "'fs env \<Rightarrow> dbi_conn \<Rightarrow> tag_row list \<Rightarrow> tagsistant_reasoning \<Rightarrow> tagsistant_reasoning" where
  "reasoning_rows env conn rows R = (if conn then fold tagsistant_add_reasoned_tag_callback (ordered_rows env rows) R else R)"

text \<open>The id of the current node's tag, as \<^verbatim>\<open>tagsistant_reasoner_inner()\<close> looks it up.\<close>

definition node_tag_id :: "'fs env \<Rightarrow> dbi_conn \<Rightarrow> and_data \<Rightarrow> 'fs world \<Rightarrow> tagsistant_tag_id \<times> 'fs world" where
  "node_tag_id env conn a w =
     (if an_tag a \<noteq> None \<and> strlen (an_tag a) \<noteq> 0 then tagsistant_sql_get_tag_id env conn (an_tag a) None None w
      else if an_namespace a \<noteq> None \<and> an_key a \<noteq> None \<and> an_value a \<noteq> None
      then tagsistant_sql_get_tag_id env conn (an_namespace a) (an_key a) (an_value a) w
      else (0, w))"

definition current_node :: "tagsistant_reasoning \<Rightarrow> qtree_and_node" where
  "current_node R = related_chain (rs_start R) ! rs_depth R"

text \<open>One visit of a node: its positive relations, then its negative ones.\<close>

definition reasoner_visit :: "'fs env \<Rightarrow> tagsistant_reasoning \<Rightarrow> 'fs world \<Rightarrow> tagsistant_reasoning \<times> 'fs world" where
  "reasoner_visit env R w =
     (let (other, w1) = node_tag_id env (rs_conn R) (and_data (current_node R)) w;
          R1 = reasoning_rows env (rs_conn R) (positive_rows other (db w1)) (R\<lparr>rs_negate := False\<rparr>)
      in (reasoning_rows env (rs_conn R) (negative_rows other (db w1)) (R1\<lparr>rs_negate := True\<rparr>), w1))"

lemma related_chain_cons: "related_chain nd = nd # (case and_related nd of None \<Rightarrow> [] | Some r \<Rightarrow> related_chain r)"
  by (cases nd rule: related_chain.cases) auto

lemma chain_modify_negated [simp]:
  "chain_ids (modify_related n (append_negated x) nd) = chain_ids nd"
proof (induction n "append_negated x" nd rule: modify_related.induct)
  case (3 n a r ng)
  then show ?case by (simp add: chain_ids_def)
qed simp_all

lemma chain_modify_related:
  assumes "n < length (related_chain nd)" "and_related x = None"
  shows "chain_ids (modify_related n (append_related x) nd) = chain_ids nd @ [an_tag_id (and_data x)]"
  using assms(1)
proof (induction n "append_related x" nd rule: modify_related.induct)
  case (1 nd)
  then show ?case using chain_ids_append_related[OF assms(2)] by simp
next
  case (3 n a r ng)
  then show ?case by (simp add: chain_ids_def)
qed simp

subsection \<open>Termination\<close>

text \<open>
  The walk ends since a tag is added to the chain only if it is not on it: what is missing from
  the chain shrinks with every addition.
\<close>

definition table_ids :: "database \<Rightarrow> tagsistant_tag_id set" where
  "table_ids d = (\<lambda>r. word_of_int (tr_id r)) ` set (tags d)"

lemma finite_table_ids [simp]: "finite (table_ids d)"
  by (simp add: table_ids_def)

definition reasoning_ids :: "tagsistant_reasoning \<Rightarrow> tagsistant_tag_id list" where
  "reasoning_ids R = chain_ids (rs_start R)"

definition missing :: "database \<Rightarrow> tagsistant_reasoning \<Rightarrow> nat" where
  "missing d R = card (table_ids d - set (reasoning_ids R))"

lemma add_tag_ids:
  assumes "rs_depth R < length (reasoning_ids R)"
  obtains "tagsistant_add_reasoned_tag T R = R"
  | "reasoning_ids (tagsistant_add_reasoned_tag T R) =
       (if rs_negate R then reasoning_ids R else reasoning_ids R @ [t_tag_id T])"
    "t_tag_id T \<notin> set (reasoning_ids R)"
proof -
  consider "\<exists>nd \<in> set (concat (map visited_nodes (rs_start R # rs_rest R))). tagsistant_and_node_match nd T"
    | "\<not> (\<exists>nd \<in> set (concat (map visited_nodes (rs_start R # rs_rest R))). tagsistant_and_node_match nd T)"
    by blast
  then show ?thesis
  proof cases
    case 1
    then show ?thesis using that(1) by (simp only: tagsistant_add_reasoned_tag_def if_True simp_thms)
  next
    case 2
    then have "t_tag_id T \<notin> set (reasoning_ids R)"
      by (auto simp: visited_nodes_def tagsistant_and_node_match_def reasoning_ids_def chain_ids_def)
    moreover have "reasoning_ids (tagsistant_add_reasoned_tag T R) =
       (if rs_negate R then reasoning_ids R else reasoning_ids R @ [t_tag_id T])"
      using 2 assms by (simp add: tagsistant_add_reasoned_tag_def reasoning_ids_def Let_def reasoned_node_def
          chain_modify_related chain_ids_def[of "rs_start R"])
    ultimately show ?thesis using that(2) by blast
  qed
qed

text \<open>What a batch of rows does to the chain and to the number of missing ids.\<close>

definition reasoning_step_ok :: "database \<Rightarrow> tagsistant_reasoning \<Rightarrow> tagsistant_reasoning \<Rightarrow> bool" where
  "reasoning_step_ok d R R' \<longleftrightarrow> rs_depth R' = rs_depth R \<and> rs_conn R' = rs_conn R \<and> rs_rest R' = rs_rest R \<and>
     prefix (reasoning_ids R) (reasoning_ids R') \<and>
     missing d R' + length (reasoning_ids R') \<le> missing d R + length (reasoning_ids R)"

lemma step_ok_refl: "reasoning_step_ok d R R"
  by (simp add: reasoning_step_ok_def)

lemma step_ok_trans: "reasoning_step_ok d R S \<Longrightarrow> reasoning_step_ok d S T \<Longrightarrow> reasoning_step_ok d R T"
  by (auto simp: reasoning_step_ok_def intro: prefix_order.trans)

lemma add_tag_frame [simp]:
  "rs_depth (tagsistant_add_reasoned_tag T R) = rs_depth R"
  "rs_conn (tagsistant_add_reasoned_tag T R) = rs_conn R"
  "rs_rest (tagsistant_add_reasoned_tag T R) = rs_rest R"
  "rs_negate (tagsistant_add_reasoned_tag T R) = rs_negate R"
  by (simp_all add: tagsistant_add_reasoned_tag_def Let_def)

lemma step_ok_row:
  assumes "r \<in> set (tags d)" "rs_depth R < length (reasoning_ids R)"
  shows "reasoning_step_ok d R (tagsistant_add_reasoned_tag_callback r R)"
proof -
  let ?T = "tag_of_row r"
  let ?R = "tagsistant_add_reasoned_tag ?T R"
  have id: "t_tag_id ?T \<in> table_ids d" using assms(1) by (auto simp: tag_of_row_def table_ids_def)
  from assms(2) show ?thesis unfolding tagsistant_add_reasoned_tag_callback_def
  proof (cases rule: add_tag_ids[where T = ?T])
    case 2
    have "missing d ?R + length (reasoning_ids ?R) \<le> missing d R + length (reasoning_ids R)"
    proof (cases "rs_negate R")
      case False
      then have app: "reasoning_ids ?R = reasoning_ids R @ [t_tag_id ?T]" using 2(1) by simp
      moreover from this have "table_ids d - set (reasoning_ids ?R) = (table_ids d - set (reasoning_ids R)) - {t_tag_id ?T}"
        by auto
      moreover have "t_tag_id ?T \<in> table_ids d - set (reasoning_ids R)" using id 2(2) by simp
      ultimately have "missing d ?R < missing d R"
        unfolding missing_def by (metis card_Diff1_less finite_Diff finite_table_ids)
      then show ?thesis using app by simp
    qed (use 2(1) in \<open>simp add: missing_def\<close>)
    then show "reasoning_step_ok d R ?R" using 2(1) by (simp add: reasoning_step_ok_def)
  qed (simp add: step_ok_refl)
qed

lemma step_ok_depth: "reasoning_step_ok d R R' \<Longrightarrow> rs_depth R < length (reasoning_ids R) \<Longrightarrow> rs_depth R' < length (reasoning_ids R')"
  unfolding reasoning_step_ok_def by (auto dest: prefix_length_le)

lemma step_ok_fold:
  "set rows \<subseteq> set (tags d) \<Longrightarrow> rs_depth R < length (reasoning_ids R)
   \<Longrightarrow> reasoning_step_ok d R (fold tagsistant_add_reasoned_tag_callback rows R)"
proof (induction rows arbitrary: R)
  case (Cons r rows)
  have 1: "reasoning_step_ok d R (tagsistant_add_reasoned_tag_callback r R)"
    using Cons.prems by (intro step_ok_row) auto
  have "reasoning_step_ok d (tagsistant_add_reasoned_tag_callback r R) (fold tagsistant_add_reasoned_tag_callback (r # rows) R)"
    using Cons.IH[OF _ step_ok_depth[OF 1 Cons.prems(2)]] Cons.prems(1) by simp
  then show ?case using 1 step_ok_trans by blast
qed (simp add: step_ok_refl)

lemma step_ok_rows:
  "set rows \<subseteq> set (tags d) \<Longrightarrow> rs_depth R < length (reasoning_ids R) \<Longrightarrow> reasoning_step_ok d R (reasoning_rows env conn rows R)"
  by (auto simp: reasoning_rows_def ordered_rows_def step_ok_refl intro!: step_ok_fold)

lemma rows_in_table: "set (positive_rows t d) \<subseteq> set (tags d)" "set (negative_rows t d) \<subseteq> set (tags d)"
  by (auto simp: positive_rows_def negative_rows_def)

lemma node_tag_id_db [simp]: "db (snd (node_tag_id env conn a w)) = db w"
  by (simp add: node_tag_id_def)

lemma visit_db [simp]: "db (snd (reasoner_visit env R w)) = db w"
  by (simp add: reasoner_visit_def Let_def split_beta)

lemma reasoning_ids_negate [simp]: "reasoning_ids (R\<lparr>rs_negate := b\<rparr>) = reasoning_ids R"
  by (simp add: reasoning_ids_def)

lemma step_ok_negate [simp]:
  "reasoning_step_ok d (R\<lparr>rs_negate := b\<rparr>) S = reasoning_step_ok d R S"
  "reasoning_step_ok d R (S\<lparr>rs_negate := b\<rparr>) = reasoning_step_ok d R S"
  by (simp_all add: reasoning_step_ok_def missing_def)

lemma visit_ok:
  assumes "rs_depth R < length (reasoning_ids R)"
  shows "reasoning_step_ok (db w) R (fst (reasoner_visit env R w))"
proof -
  let ?o = "fst (node_tag_id env (rs_conn R) (and_data (current_node R)) w)"
  let ?R1 = "reasoning_rows env (rs_conn R) (positive_rows ?o (db w)) (R\<lparr>rs_negate := False\<rparr>)"
  have 1: "reasoning_step_ok (db w) R ?R1"
    using step_ok_rows[OF rows_in_table(1), of "R\<lparr>rs_negate := False\<rparr>"] assms by simp
  have "reasoning_step_ok (db w) ?R1 (reasoning_rows env (rs_conn R) (negative_rows ?o (db w)) (?R1\<lparr>rs_negate := True\<rparr>))"
    using step_ok_rows[OF rows_in_table(2), of "?R1\<lparr>rs_negate := True\<rparr>"] step_ok_depth[OF 1 assms] by simp
  with 1 show ?thesis by (auto simp: reasoner_visit_def Let_def split_beta intro: step_ok_trans)
qed

lemma length_reasoning_ids: "length (related_chain (rs_start R)) = length (reasoning_ids R)"
  by (simp add: reasoning_ids_def chain_ids_def)

lemma visit_decreases:
  assumes d: "rs_depth R < length (related_chain (rs_start R))" and x: "x = reasoner_visit env R w" "(R1, w1) = x"
    and n: "Suc (rs_depth R1) < length (related_chain (rs_start R1))"
  shows "missing (db w1) (R1\<lparr>rs_depth := Suc (rs_depth R1)\<rparr>) + length (reasoning_ids (R1\<lparr>rs_depth := Suc (rs_depth R1)\<rparr>)) - Suc (rs_depth R1)
    < missing (db w) R + length (reasoning_ids R) - rs_depth R"
proof -
  have R1: "R1 = fst (reasoner_visit env R w)" and w1: "db w1 = db w" using x by (metis fst_conv) (metis x snd_conv visit_db)
  have ok: "reasoning_step_ok (db w) R R1" using visit_ok[of R w env] d by (simp add: R1 length_reasoning_ids)
  have "missing (db w) (R1\<lparr>rs_depth := Suc (rs_depth R1)\<rparr>) = missing (db w) R1"
    "reasoning_ids (R1\<lparr>rs_depth := Suc (rs_depth R1)\<rparr>) = reasoning_ids R1"
    by (simp_all add: missing_def reasoning_ids_def)
  then show ?thesis using ok n d by (auto simp: w1 reasoning_step_ok_def length_reasoning_ids)
qed

function tagsistant_reasoner_inner :: "'fs env \<Rightarrow> tagsistant_reasoning \<Rightarrow> 'fs world \<Rightarrow> tagsistant_reasoning \<times> 'fs world" where
  "tagsistant_reasoner_inner env R w =
     (if rs_depth R < length (related_chain (rs_start R))
      then let (R1, w1) = reasoner_visit env R w
           in if Suc (rs_depth R1) < length (related_chain (rs_start R1))
              then tagsistant_reasoner_inner env (R1\<lparr>rs_depth := Suc (rs_depth R1)\<rparr>) w1
              else (R1, w1)
      else (R, w))"
  by pat_completeness auto

termination tagsistant_reasoner_inner
proof (relation "measure (\<lambda>(env, R, w). missing (db w) R + length (reasoning_ids R) - rs_depth R)", simp)
  fix env :: "'fs env" and R w x R1 and w1 :: "'fs world"
  assume d: "rs_depth R < length (related_chain (rs_start R))" and x: "x = reasoner_visit env R w" "(R1, w1) = x"
    and n: "Suc (rs_depth R1) < length (related_chain (rs_start R1))"
  show "((env, R1\<lparr>rs_depth := Suc (rs_depth R1)\<rparr>, w1), env, R, w)
      \<in> measure (\<lambda>(env, R, w). missing (db w) R + length (reasoning_ids R) - rs_depth R)"
    using visit_decreases[OF d x n] by simp
qed

declare tagsistant_reasoner_inner.simps [simp del]

text \<open>The macro \<^verbatim>\<open>tagsistant_reasoner\<close> on the structure its caller fills.\<close>

definition tagsistant_reasoner :: "'fs env \<Rightarrow> dbi_conn \<Rightarrow> qtree_and_node \<Rightarrow> 'fs world \<Rightarrow> qtree_and_node \<times> 'fs world" where
  "tagsistant_reasoner env conn nd w =
     (let (R, w') = tagsistant_reasoner_inner env
        \<lparr>rs_start = nd, rs_rest = [], rs_depth = 0, rs_conn = conn, rs_negate = False, rs_added_tags = 0\<rparr> w
      in (rs_start R, w'))"

subsection \<open>What one added tag does to the tree\<close>

definition chain_data :: "qtree_and_node \<Rightarrow> and_data list" where
  "chain_data nd = map and_data (related_chain nd)"

definition negated_ids :: "qtree_and_node \<Rightarrow> tagsistant_tag_id list" where
  "negated_ids nd = map an_tag_id (tl (map and_data (negated_chain nd)))"

lemma chain_ids_data: "chain_ids nd = map an_tag_id (chain_data nd)"
  by (simp add: chain_ids_def chain_data_def)

lemma chain_data_simps [simp]:
  "chain_data (And_node a None ng) = [a]" "chain_data (And_node a (Some r) ng) = a # chain_data r"
  by (simp_all add: chain_data_def)

lemma chain_data_append_related:
  "and_related x = None \<Longrightarrow> chain_data (append_related x nd) = chain_data nd @ [and_data x]"
  by (induction nd rule: related_chain.induct) (cases x, auto)

lemma chain_data_append_negated [simp]: "chain_data (append_negated x nd) = chain_data nd"
proof (cases nd)
  case (And_node a r ng)
  then show ?thesis by (cases ng; cases r) simp_all
qed

lemma chain_data_modify_negated [simp]: "chain_data (modify_related n (append_negated x) nd) = chain_data nd"
  by (induction n "append_negated x" nd rule: modify_related.induct) simp_all

lemma chain_data_modify_related:
  "n < length (chain_data nd) \<Longrightarrow> and_related x = None
   \<Longrightarrow> chain_data (modify_related n (append_related x) nd) = chain_data nd @ [and_data x]"
  by (induction n "append_related x" nd rule: modify_related.induct) (auto simp: chain_data_append_related)

lemma negated_chain_append: "and_negated x = None \<Longrightarrow> negated_chain (append_negated x nd) \<noteq> []
  \<and> map and_data (negated_chain (append_negated x nd)) = map and_data (negated_chain nd) @ [and_data x]"
  by (induction nd rule: negated_chain.induct) (cases x, auto)

lemma negated_ids_append:
  "and_negated x = None \<Longrightarrow> negated_ids (append_negated x nd) = negated_ids nd @ [an_tag_id (and_data x)]"
  using negated_chain_append[of x nd] by (simp add: negated_ids_def)

lemma negated_ids_cong: "and_negated a = and_negated b \<Longrightarrow> negated_ids a = negated_ids b"
  by (cases a rule: negated_chain.cases; cases b rule: negated_chain.cases) (auto simp: negated_ids_def)

lemma and_negated_modify [simp]: "0 < n \<Longrightarrow> and_negated (modify_related n f nd) = and_negated nd"
  by (cases "(n, f, nd)" rule: modify_related.cases) auto

lemma negated_ids_modify:
  "negated_ids (modify_related n (append_related x) nd) = negated_ids nd"
  "0 < n \<Longrightarrow> negated_ids (modify_related n f nd) = negated_ids nd"
proof -
  show 1: "0 < n \<Longrightarrow> negated_ids (modify_related n f nd) = negated_ids nd" for f
    by (rule negated_ids_cong) simp
  show "negated_ids (modify_related n (append_related x) nd) = negated_ids nd"
    using 1 by (cases n) (auto intro: negated_ids_cong)
qed

text \<open>The effect of one row on the reasoning structure with nothing after its start node.\<close>

definition reasoned_data :: "tagsistant_tag \<Rightarrow> bool \<Rightarrow> and_data" where
  "reasoned_data T neg = and_data (reasoned_node T neg)"

lemma add_tag_cases:
  assumes "rs_depth R < length (chain_data (rs_start R))" "rs_rest R = []"
  obtains (dup) "tagsistant_add_reasoned_tag T R = R" 
      "t_tag_id T \<in> set (reasoning_ids R) \<union> set (negated_ids (rs_start R))"
  | (related) "\<not> rs_negate R" "t_tag_id T \<notin> set (reasoning_ids R)"
      "chain_data (rs_start (tagsistant_add_reasoned_tag T R)) = chain_data (rs_start R) @ [reasoned_data T False]"
      "negated_ids (rs_start (tagsistant_add_reasoned_tag T R)) = negated_ids (rs_start R)"
  | (negated) "rs_negate R"
      "chain_data (rs_start (tagsistant_add_reasoned_tag T R)) = chain_data (rs_start R)"
      "set (negated_ids (rs_start R)) \<subseteq> set (negated_ids (rs_start (tagsistant_add_reasoned_tag T R)))"
      "0 < rs_depth R \<Longrightarrow> negated_ids (rs_start (tagsistant_add_reasoned_tag T R)) = negated_ids (rs_start R)"
proof (cases "t_tag_id T \<in> set (reasoning_ids R) \<union> set (negated_ids (rs_start R))")
  case True
  then have "\<exists>nd \<in> set (concat (map visited_nodes (rs_start R # rs_rest R))). tagsistant_and_node_match nd T"
    by (force simp: visited_nodes_def tagsistant_and_node_match_def reasoning_ids_def chain_ids_def negated_ids_def simp flip: map_tl)
  then show ?thesis using True dup by (simp only: tagsistant_add_reasoned_tag_def if_True simp_thms)
next
  case False
  then have n: "\<not> (\<exists>nd \<in> set (concat (map visited_nodes (rs_start R # rs_rest R))). tagsistant_and_node_match nd T)"
    using assms(2) by (auto simp: visited_nodes_def tagsistant_and_node_match_def reasoning_ids_def chain_ids_def negated_ids_def simp flip: map_tl)
  let ?x = "reasoned_node T (rs_negate R)"
  have s: "rs_start (tagsistant_add_reasoned_tag T R)
      = modify_related (rs_depth R) (if rs_negate R then append_negated ?x else append_related ?x) (rs_start R)"
    unfolding tagsistant_add_reasoned_tag_def if_not_P[OF n] Let_def by simp
  have x: "and_related ?x = None" "and_negated ?x = None" by (simp_all add: reasoned_node_def)
  show ?thesis
  proof (cases "rs_negate R")
    case False
    then show ?thesis using related \<open>t_tag_id T \<notin> _\<close> s x assms(1)
      by (simp add: chain_data_modify_related negated_ids_modify reasoned_data_def)
  next
    case True
    have "set (negated_ids (rs_start R)) \<subseteq> set (negated_ids (modify_related (rs_depth R) (append_negated ?x) (rs_start R)))"
      using negated_ids_append[OF x(2), of "rs_start R"] by (cases "rs_depth R") (auto simp: negated_ids_modify)
    then show ?thesis using negated True s by (simp add: negated_ids_modify)
  qed
qed

subsection \<open>The specification: reachability over the relations\<close>

text \<open>
  \<open>(x, y)\<close> is an edge if the database says that the tag \<open>x\<close> includes the tag \<open>y\<close>, or that
  the two are equivalent, in either direction.
\<close>

definition implied :: "database \<Rightarrow> (tagsistant_tag_id \<times> tagsistant_tag_id) set" where
  "implied d = {(x, y). y \<in> table_ids d \<and>
     (has_relation (sint x) ''includes'' (sint y) d \<or> has_relation (sint x) ''is_equivalent'' (sint y) d \<or>
      has_relation (sint y) ''is_equivalent'' (sint x) d)}"

text \<open>
  The tables the reasoner meets: flat tags have neither key nor value, names are free of the
  separator, and ids fit the 32-bit integers they are read into.
\<close>

definition tags_plain :: "database \<Rightarrow> bool" where
  "tags_plain d \<longleftrightarrow> tags_seq d < 2 ^ 31 \<and> (\<forall>r \<in> set (tags d). plain (tr_name r) \<and> plain (tr_key r) \<and>
     tr_name r \<noteq> '''' \<and> (is_triple_token (tr_name r) \<or> tr_key r = '''' \<and> tr_value r = ''''))"

text \<open>A node of the tree whose id is that of the tag it names.\<close>

definition node_ok :: "database \<Rightarrow> and_data \<Rightarrow> bool" where
  "node_ok d a \<longleftrightarrow>
     (case an_tag a of
        Some (c # n) \<Rightarrow> plain (c # n) \<and> \<not> is_triple_token (c # n) \<and> an_tag_id a = tag_id_of d (c # n, '''', '''')
      | _ \<Rightarrow> (case (an_namespace a, an_key a, an_value a) of
           (Some n, Some k, Some v) \<Rightarrow> plain n \<and> plain k \<and> an_tag_id a = tag_id_of d (n, k, v)
         | _ \<Rightarrow> an_tag_id a = 0))"

lemma flat_lookup:
  assumes "\<forall>r \<in> set (tags (db w)). tr_name r = n \<longrightarrow> tr_key r = '''' \<and> tr_value r = ''''"
  shows "tagsistant_sql_get_tag_id env True (Some n) None None w = tagsistant_sql_get_tag_id env True (Some n) (Some '''') (Some '''') w"
proof -
  have "filter (\<lambda>r. tr_name r = n) (tags (db w)) = filter (\<lambda>r. tr_name r = n \<and> tr_key r = '''' \<and> tr_value r = '''') (tags (db w))"
    by (rule filter_cong[OF refl]) (use assms in blast)
  then have "select_tag_ids (Some n) None None (db w) = select_tag_ids (Some n) (Some '''') (Some '''') (db w)"
    by (simp add: select_tag_ids_def)
  then show ?thesis by (simp add: tagsistant_sql_get_tag_id_def sql_tag_id_def Let_def)
qed

lemma node_tag_id_ok:
  assumes "store_inv env w" "tags_plain (db w)" "node_ok (db w) a"
  shows "fst (node_tag_id env True a w) = an_tag_id a" "store_inv env (snd (node_tag_id env True a w))"
proof -
  have get: "fst (tagsistant_sql_get_tag_id env True (Some n) (Some k) (Some v) w) = tag_id_of (db w) (n, k, v)
      \<and> store_inv env (snd (tagsistant_sql_get_tag_id env True (Some n) (Some k) (Some v) w))"
    if "plain n" "plain k" for n k v
    using get_exact[of env w n k v] assms(1) that by (auto simp: plain_key_def store_inv_def)
  have flat: "\<forall>r \<in> set (tags (db w)). tr_name r = n \<longrightarrow> tr_key r = '''' \<and> tr_value r = ''''" if "\<not> is_triple_token n" for n
    using assms(2) that unfolding tags_plain_def by blast
  have p: "plain ''''" by (simp add: plain_def)
  show "fst (node_tag_id env True a w) = an_tag_id a" "store_inv env (snd (node_tag_id env True a w))"
    using assms(1,3) get get[OF _ p] flat_lookup[OF flat]
    by (auto simp: node_ok_def node_tag_id_def strlen_def split: option.splits list.splits prod.splits)
qed

lemma row_facts:
  assumes "db_ok d" "tags_plain d" "r \<in> set (tags d)"
  shows "t_tag_id (tag_of_row r) = tag_id_of d (tag_triple r)" "sint (t_tag_id (tag_of_row r)) = tr_id r"
    "node_ok d (reasoned_data (tag_of_row r) neg)"
proof -
  have s: "tags_seq d < 2 ^ 31" using assms(2) by (simp add: tags_plain_def)
  note id = tag_id_of_nonzero[OF assms(1) s assms(3)]
  show "t_tag_id (tag_of_row r) = tag_id_of d (tag_triple r)" "sint (t_tag_id (tag_of_row r)) = tr_id r"
    using id(1,3) by (simp_all add: tag_of_row_def)
  have "plain (tr_name r)" "plain (tr_key r)" "tr_name r \<noteq> ''''"
    "is_triple_token (tr_name r) \<or> tr_key r = '''' \<and> tr_value r = ''''"
    using assms(2,3) by (auto simp: tags_plain_def)
  with id(1) show "node_ok d (reasoned_data (tag_of_row r) neg)"
    by (auto simp: node_ok_def reasoned_data_def reasoned_node_def tag_of_row_def tag_triple_def split: list.splits)
qed

lemma positive_rows_implied:
  assumes "db_ok d" "tags_plain d"
  shows "(\<lambda>r. t_tag_id (tag_of_row r)) ` set (positive_rows x d) = implied d `` {x}"
proof -
  have s: "sint (word_of_int (tr_id r) :: 32 word) = tr_id r" if "r \<in> set (tags d)" for r
    using row_facts(2)[OF assms that] by (simp add: tag_of_row_def split: if_splits)
  have e: "(x, word_of_int (tr_id r)) \<in> implied d \<longleftrightarrow> r \<in> set (positive_rows x d)" if "r \<in> set (tags d)" for r
    using that s[OF that] by (auto simp: implied_def positive_rows_def has_relation_def table_ids_def)
  have i: "t_tag_id (tag_of_row r) = word_of_int (tr_id r)" for r by (simp add: tag_of_row_def)
  have "y \<in> implied d `` {x} \<longleftrightarrow> (\<exists>r \<in> set (positive_rows x d). y = word_of_int (tr_id r))" for y
  proof -
    have "y \<in> implied d `` {x} \<longleftrightarrow> (\<exists>r \<in> set (tags d). y = word_of_int (tr_id r) \<and> (x, word_of_int (tr_id r)) \<in> implied d)"
      by (auto simp: implied_def table_ids_def)
    also have "\<dots> \<longleftrightarrow> (\<exists>r \<in> set (positive_rows x d). y = word_of_int (tr_id r))"
      using e rows_in_table(1)[of x d] by blast
    finally show ?thesis .
  qed
  then show ?thesis by (auto simp: i)
qed

subsection \<open>The reasoner computes what the relations imply\<close>

text \<open>
  A batch of rows with the ids \<open>X\<close>: what it may add to the structure, and what it leaves. A tag
  is covered if it is on the chain or among those the start node excludes.
\<close>

definition grown :: "database \<Rightarrow> tagsistant_tag_id set \<Rightarrow> tagsistant_reasoning \<Rightarrow> tagsistant_reasoning \<Rightarrow> bool" where
  "grown d X R S \<longleftrightarrow> rs_rest S = rs_rest R \<and> rs_negate S = rs_negate R \<and> rs_depth S = rs_depth R \<and> rs_conn S = rs_conn R \<and>
     prefix (chain_data (rs_start R)) (chain_data (rs_start S)) \<and>
     set (chain_data (rs_start S)) \<subseteq> set (chain_data (rs_start R)) \<union> {a. node_ok d a \<and> an_tag_id a \<in> X} \<and>
     set (negated_ids (rs_start R)) \<subseteq> set (negated_ids (rs_start S)) \<and>
     (distinct (reasoning_ids R) \<longrightarrow> distinct (reasoning_ids S)) \<and>
     (\<not> rs_negate R \<or> 0 < rs_depth R \<longrightarrow> negated_ids (rs_start S) = negated_ids (rs_start R)) \<and>
     (rs_negate R \<longrightarrow> chain_data (rs_start S) = chain_data (rs_start R))"

definition covered :: "tagsistant_reasoning \<Rightarrow> tagsistant_tag_id set" where
  "covered R = set (reasoning_ids R) \<union> set (negated_ids (rs_start R))"

lemma reasoning_ids_data: "reasoning_ids R = map an_tag_id (chain_data (rs_start R))"
  by (simp add: reasoning_ids_def chain_ids_data)

lemma grown_refl: "grown d X R R"
  by (simp add: grown_def)

lemma grown_trans: "grown d X R S \<Longrightarrow> grown d X S T \<Longrightarrow> grown d X R T"
  unfolding grown_def by (auto intro: prefix_order.trans)

lemma grown_covered: "grown d X R S \<Longrightarrow> covered R \<subseteq> covered S"
  by (auto simp: grown_def covered_def reasoning_ids_data prefix_def)

lemma grown_depth: "grown d X R S \<Longrightarrow> rs_depth R < length (chain_data (rs_start R)) \<Longrightarrow> rs_depth S < length (chain_data (rs_start S))"
  by (auto simp: grown_def dest: prefix_length_le)

lemma grown_row:
  assumes "rs_depth R < length (chain_data (rs_start R))" "rs_rest R = []"
    and "node_ok d (reasoned_data (tag_of_row r) False)" "t_tag_id (tag_of_row r) \<in> X"
  shows "grown d X R (tagsistant_add_reasoned_tag_callback r R)"
    and "\<not> rs_negate R \<Longrightarrow> t_tag_id (tag_of_row r) \<in> covered (tagsistant_add_reasoned_tag_callback r R)"
proof -
  let ?T = "tag_of_row r"
  have S: "tagsistant_add_reasoned_tag_callback r R = tagsistant_add_reasoned_tag ?T R"
    by (simp add: tagsistant_add_reasoned_tag_callback_def)
  have id: "an_tag_id (reasoned_data ?T False) = t_tag_id ?T" by (simp add: reasoned_data_def reasoned_node_def)
  have "grown d X R (tagsistant_add_reasoned_tag ?T R) \<and>
      (\<not> rs_negate R \<longrightarrow> t_tag_id ?T \<in> covered (tagsistant_add_reasoned_tag ?T R))"
    using assms(1,2)
  proof (cases rule: add_tag_cases[where T = ?T])
    case dup
    then show ?thesis by (simp add: grown_refl covered_def)
  next
    case related
    then show ?thesis using related assms(3,4) id
      by (auto simp: grown_def covered_def reasoning_ids_data)
  next
    case negated
    then show ?thesis by (auto simp: grown_def covered_def reasoning_ids_data)
  qed
  then show "grown d X R (tagsistant_add_reasoned_tag_callback r R)"
    "\<not> rs_negate R \<Longrightarrow> t_tag_id ?T \<in> covered (tagsistant_add_reasoned_tag_callback r R)"
    by (simp_all add: S)
qed

lemma grown_fold:
  assumes "rs_depth R < length (chain_data (rs_start R))" "rs_rest R = []"
    and "\<forall>r \<in> set rows. node_ok d (reasoned_data (tag_of_row r) False) \<and> t_tag_id (tag_of_row r) \<in> X"
  shows "grown d X R (fold tagsistant_add_reasoned_tag_callback rows R)
    \<and> (\<not> rs_negate R \<longrightarrow> (\<lambda>r. t_tag_id (tag_of_row r)) ` set rows \<subseteq> covered (fold tagsistant_add_reasoned_tag_callback rows R))"
  using assms
proof (induction rows arbitrary: R)
  case (Cons r rows)
  let ?S = "tagsistant_add_reasoned_tag_callback r R"
  have 1: "grown d X R ?S" "\<not> rs_negate R \<Longrightarrow> t_tag_id (tag_of_row r) \<in> covered ?S"
    using grown_row[of R d r X] Cons.prems by auto
  have "rs_rest ?S = []" "rs_negate ?S = rs_negate R" using 1(1) Cons.prems(2) by (simp_all add: grown_def)
  then have 2: "grown d X ?S (fold tagsistant_add_reasoned_tag_callback rows ?S)"
    "\<not> rs_negate R \<Longrightarrow> (\<lambda>r. t_tag_id (tag_of_row r)) ` set rows \<subseteq> covered (fold tagsistant_add_reasoned_tag_callback rows ?S)"
    using Cons.IH[of ?S] grown_depth[OF 1(1)] Cons.prems by auto
  show ?case using grown_trans[OF 1(1) 2(1)] grown_covered[OF 2(1)] 1(2) 2(2) by auto
qed (simp add: grown_refl)

text \<open>One visit of a node: its id's edges are covered afterwards.\<close>

definition walk_ok :: "'fs env \<Rightarrow> tagsistant_reasoning \<Rightarrow> 'fs world \<Rightarrow> bool" where
  "walk_ok env R w \<longleftrightarrow> store_inv env w \<and> tags_plain (db w) \<and> rs_conn R \<and> rs_rest R = [] \<and>
     rs_depth R < length (chain_data (rs_start R)) \<and> (\<forall>a \<in> set (chain_data (rs_start R)). node_ok (db w) a)"

definition excluded :: "database \<Rightarrow> (tagsistant_tag_id \<times> tagsistant_tag_id) set" where
  "excluded d = {(x, y). y \<in> table_ids d \<and> has_relation (sint x) ''excludes'' (sint y) d}"

lemma set_ordered_rows: "row_order env \<Longrightarrow> set (ordered_rows env rows) = set rows"
  by (auto simp: ordered_rows_def row_order_def)

lemma current_id: "rs_depth R < length (chain_data (rs_start R)) \<Longrightarrow>
    and_data (current_node R) = chain_data (rs_start R) ! rs_depth R"
  by (simp add: current_node_def chain_data_def)

lemma negative_rows_excluded:
  assumes "db_ok d" "tags_plain d"
  shows "(\<lambda>r. t_tag_id (tag_of_row r)) ` set (negative_rows x d) \<subseteq> excluded d `` {x}"
proof
  fix y assume "y \<in> (\<lambda>r. t_tag_id (tag_of_row r)) ` set (negative_rows x d)"
  then obtain r q where r: "y = t_tag_id (tag_of_row r)" "r \<in> set (tags d)" "q \<in> set (relations d)" "re_tag1 q = sint x"
      "re_relation q = ''excludes''" "tr_id r = re_tag2 q"
    by (auto simp: negative_rows_def)
  moreover from r(1,2) have "y \<in> table_ids d" by (auto simp: tag_of_row_def table_ids_def)
  moreover have "sint y = re_tag2 q" using row_facts(2)[OF assms r(2)] r(1,6) by simp
  ultimately show "y \<in> excluded d `` {x}" by (auto simp: excluded_def has_relation_def)
qed

lemma visit_walk:
  assumes ok: "walk_ok env R w" and v: "(R1, w1) = reasoner_visit env R w"
  defines "c \<equiv> reasoning_ids R ! rs_depth R"
  shows "walk_ok env R1 w1" "db w1 = db w" "rs_depth R1 = rs_depth R" "prefix (reasoning_ids R) (reasoning_ids R1)"
    and "set (reasoning_ids R1) \<subseteq> set (reasoning_ids R) \<union> implied (db w) `` {c}"
    and "implied (db w) `` {c} \<subseteq> covered R1" "covered R \<subseteq> covered R1"
    and "distinct (reasoning_ids R) \<Longrightarrow> distinct (reasoning_ids R1)"
    and "0 < rs_depth R \<or> excluded (db w) `` {c} = {} \<Longrightarrow> negated_ids (rs_start R1) = negated_ids (rs_start R)"
proof -
  have st: "store_inv env w" "tags_plain (db w)" "rs_conn R" "rs_rest R = []" "rs_depth R < length (chain_data (rs_start R))"
      and nodes: "\<forall>a \<in> set (chain_data (rs_start R)). node_ok (db w) a"
    using ok by (simp_all add: walk_ok_def)
  have ro: "row_order env" and dk: "db_ok (db w)" using st(1) by (simp_all add: store_inv_def)
  have cur: "and_data (current_node R) = chain_data (rs_start R) ! rs_depth R" using current_id[OF st(5)] .
  have "node_ok (db w) (and_data (current_node R))" using nodes st(5) by (simp add: cur)
  note look = node_tag_id_ok[OF st(1,2) this]
  have c: "fst (node_tag_id env True (and_data (current_node R)) w) = c"
    using look(1) st(5) by (simp add: c_def cur reasoning_ids_data)
  let ?P = "ordered_rows env (positive_rows c (db w))" and ?N = "ordered_rows env (negative_rows c (db w))"
  let ?R0 = "R\<lparr>rs_negate := False\<rparr>"
  let ?A = "fold tagsistant_add_reasoned_tag_callback ?P ?R0"
  let ?B = "fold tagsistant_add_reasoned_tag_callback ?N (?A\<lparr>rs_negate := True\<rparr>)"
  have R1: "R1 = ?B" and w1: "w1 = snd (node_tag_id env True (and_data (current_node R)) w)"
    using v st(3) c by (simp_all add: reasoner_visit_def Let_def split_beta reasoning_rows_def)
  have P: "(\<lambda>r. t_tag_id (tag_of_row r)) ` set ?P = implied (db w) `` {c}"
    using positive_rows_implied[OF dk st(2)] by (simp add: set_ordered_rows[OF ro])
  have N: "(\<lambda>r. t_tag_id (tag_of_row r)) ` set ?N \<subseteq> excluded (db w) `` {c}"
    using negative_rows_excluded[OF dk st(2)] by (simp add: set_ordered_rows[OF ro])
  have rP: "\<forall>r \<in> set ?P. node_ok (db w) (reasoned_data (tag_of_row r) False) \<and> t_tag_id (tag_of_row r) \<in> implied (db w) `` {c}"
    using P row_facts(3)[OF dk st(2)] rows_in_table(1)[of c "db w"] by (auto simp: set_ordered_rows[OF ro])
  have rN: "\<forall>r \<in> set ?N. node_ok (db w) (reasoned_data (tag_of_row r) False) \<and> t_tag_id (tag_of_row r) \<in> excluded (db w) `` {c}"
    using N row_facts(3)[OF dk st(2)] rows_in_table(2)[of c "db w"] by (auto simp: set_ordered_rows[OF ro])
  have A: "grown (db w) (implied (db w) `` {c}) ?R0 ?A" "implied (db w) `` {c} \<subseteq> covered ?A"
    using grown_fold[of ?R0, OF _ _ rP] st(4,5) P by simp_all
  have dA: "rs_depth ?A < length (chain_data (rs_start ?A))" "rs_rest ?A = []"
    using grown_depth[OF A(1)] A(1) st(4,5) by (simp_all add: grown_def)
  have B: "grown (db w) (excluded (db w) `` {c}) (?A\<lparr>rs_negate := True\<rparr>) ?B"
    using grown_fold[of "?A\<lparr>rs_negate := True\<rparr>", OF _ _ rN] dA by simp
  have cd: "chain_data (rs_start R1) = chain_data (rs_start ?A)" using B by (simp add: grown_def R1)
  show "db w1 = db w" by (simp add: w1)
  show "rs_depth R1 = rs_depth R" using A(1) B by (simp add: grown_def R1)
  show "walk_ok env R1 w1"
    using A(1) B dA look(2) st nodes unfolding walk_ok_def
    by (auto simp: w1 cd) (auto simp: grown_def R1)
  show "prefix (reasoning_ids R) (reasoning_ids R1)"
    using A(1) cd by (auto simp: grown_def reasoning_ids_data prefix_def)
  show "set (reasoning_ids R1) \<subseteq> set (reasoning_ids R) \<union> implied (db w) `` {c}"
    using A(1) cd by (auto simp: grown_def reasoning_ids_data)
  have cA: "covered ?A \<subseteq> covered R1" using grown_covered[OF B] by (simp add: R1 covered_def reasoning_ids_data)
  then show "implied (db w) `` {c} \<subseteq> covered R1" using A(2) by blast
  have "covered ?R0 = covered R" by (simp add: covered_def reasoning_ids_data)
  then show "covered R \<subseteq> covered R1" using grown_covered[OF A(1)] cA by blast
  show "distinct (reasoning_ids R) \<Longrightarrow> distinct (reasoning_ids R1)"
    using A(1) cd by (simp add: grown_def reasoning_ids_data)
  assume "0 < rs_depth R \<or> excluded (db w) `` {c} = {}"
  then have "?N = [] \<or> 0 < rs_depth ?A" using A(1) N by (auto simp: grown_def)
  then have "negated_ids (rs_start R1) = negated_ids (rs_start ?A)" using B by (auto simp: grown_def R1)
  then show "negated_ids (rs_start R1) = negated_ids (rs_start R)" using A(1) by (simp add: grown_def)
qed

text \<open>The whole walk, from the current depth on.\<close>

definition saturated :: "tagsistant_reasoning \<Rightarrow> database \<Rightarrow> bool" where
  "saturated R d \<longleftrightarrow> (\<forall>x \<in> set (take (rs_depth R) (reasoning_ids R)). implied d `` {x} \<subseteq> covered R)"

lemma walk_facts:
  assumes "walk_ok env R w" "(S, v) = tagsistant_reasoner_inner env R w" "saturated R (db w)"
  shows "set (reasoning_ids S) \<subseteq> (implied (db w))\<^sup>* `` set (reasoning_ids R)
    \<and> prefix (reasoning_ids R) (reasoning_ids S)
    \<and> (distinct (reasoning_ids R) \<longrightarrow> distinct (reasoning_ids S))
    \<and> (\<forall>x \<in> set (reasoning_ids S). implied (db w) `` {x} \<subseteq> covered S)
    \<and> (0 < rs_depth R \<or> excluded (db w) `` {hd (reasoning_ids R)} = {} \<longrightarrow>
         negated_ids (rs_start S) = negated_ids (rs_start R))
    \<and> store_inv env v \<and> db v = db w \<and> (\<forall>a \<in> set (chain_data (rs_start S)). node_ok (db w) a)"
  using assms
proof (induction env R w rule: tagsistant_reasoner_inner.induct)
  case (1 env R w)
  obtain R1 w1 where v: "(R1, w1) = reasoner_visit env R w" by (metis surj_pair)
  note V = visit_walk[OF "1.prems"(1) v]
  have d: "rs_depth R < length (reasoning_ids R)" using "1.prems"(1) by (simp add: walk_ok_def reasoning_ids_data)
  have cin: "reasoning_ids R ! rs_depth R \<in> set (reasoning_ids R)" using d by simp
  have sub: "implied (db w) `` {reasoning_ids R ! rs_depth R} \<subseteq> (implied (db w))\<^sup>* `` set (reasoning_ids R)"
    using cin by blast
  have sound1: "set (reasoning_ids R1) \<subseteq> (implied (db w))\<^sup>* `` set (reasoning_ids R)"
    using V(5) sub by blast
  have tk: "take (Suc (rs_depth R)) (reasoning_ids R1) = take (rs_depth R) (reasoning_ids R) @ [reasoning_ids R ! rs_depth R]"
    using V(4) d by (auto simp: prefix_def take_Suc_conv_app_nth nth_append)
  have sat1: "\<forall>x \<in> set (take (Suc (rs_depth R)) (reasoning_ids R1)). implied (db w) `` {x} \<subseteq> covered R1"
    using "1.prems"(3) V(6,7) unfolding tk saturated_def by auto
  have neg1: "0 < rs_depth R \<or> excluded (db w) `` {hd (reasoning_ids R)} = {} \<Longrightarrow> negated_ids (rs_start R1) = negated_ids (rs_start R)"
    using V(9) d by (cases "rs_depth R") (auto simp: hd_conv_nth)
  have nodes1: "\<forall>a \<in> set (chain_data (rs_start R1)). node_ok (db w) a" and inv1: "store_inv env w1"
    using V(1,2) by (simp_all add: walk_ok_def)
  have d': "rs_depth R < length (related_chain (rs_start R))" using d by (simp add: length_reasoning_ids)
  have unf: "tagsistant_reasoner_inner env R w = (if Suc (rs_depth R1) < length (related_chain (rs_start R1))
      then tagsistant_reasoner_inner env (R1\<lparr>rs_depth := Suc (rs_depth R1)\<rparr>) w1 else (R1, w1))"
    by (subst tagsistant_reasoner_inner.simps) (simp only: v[symmetric] d' if_True Let_def split_conv prod.case)
  show ?case
  proof (cases "Suc (rs_depth R1) < length (related_chain (rs_start R1))")
    case False
    then have SR: "(S, v) = (R1, w1)"
      using "1.prems"(2) by (simp only: unf if_False)
    have "take (Suc (rs_depth R)) (reasoning_ids R1) = reasoning_ids R1"
      using False V(3) by (simp add: length_reasoning_ids)
    then show ?thesis using SR sound1 sat1 V neg1 nodes1 inv1 by auto
  next
    case True
    let ?R2 = "R1\<lparr>rs_depth := Suc (rs_depth R1)\<rparr>"
    have e: "(S, v) = tagsistant_reasoner_inner env ?R2 w1"
      using "1.prems"(2) True by (simp only: unf if_True)
    have r: "reasoning_ids (R1\<lparr>rs_depth := n\<rparr>) = reasoning_ids R1" "covered (R1\<lparr>rs_depth := n\<rparr>) = covered R1" for n
      by (simp_all add: reasoning_ids_data covered_def)
    have "walk_ok env ?R2 w1" using V(1) True by (simp add: walk_ok_def chain_data_def)
    moreover have "saturated ?R2 (db w1)" using sat1 V(2,3) by (simp add: saturated_def r)
    ultimately have IH: "set (reasoning_ids S) \<subseteq> (implied (db w))\<^sup>* `` set (reasoning_ids R1)"
      "prefix (reasoning_ids R1) (reasoning_ids S)" "distinct (reasoning_ids R1) \<longrightarrow> distinct (reasoning_ids S)"
      "\<forall>x \<in> set (reasoning_ids S). implied (db w) `` {x} \<subseteq> covered S"
      "negated_ids (rs_start S) = negated_ids (rs_start R1)" "store_inv env v" "db v = db w"
      "\<forall>a \<in> set (chain_data (rs_start S)). node_ok (db w) a"
      using "1.IH"[OF d' v refl True _ e] V(2) by (simp_all add: r)
    have "(implied (db w))\<^sup>* `` set (reasoning_ids R1) \<subseteq> (implied (db w))\<^sup>* `` set (reasoning_ids R)"
      using sound1 by (auto intro: rtrancl_trans)
    then show ?thesis using IH V(4,8) neg1 by (auto intro: prefix_order.trans)
  qed
qed

text \<open>C6: What the reasoner returns, on every set of relations, cyclic ones included (the walk
  always ends): the tags on the chain of the node are distinct, each of them is implied by the
  node's tag through a path of \<^verbatim>\<open>includes\<close> and \<^verbatim>\<open>is_equivalent\<close> relations, and a tag implied by
  one on the chain is on the chain too unless the node excludes it. If the node's tag excludes
  nothing, the chain is exactly the set of the tags reachable from it. The database is left as
  it is.\<close>

theorem reasoner_computes_reachability:
  assumes "store_inv env w" "tags_plain (db w)" "node_ok (db w) a"
    and r: "(nd, w') = tagsistant_reasoner env True (And_node a None None) w"
  shows "distinct (chain_ids nd)
    \<and> set (chain_ids nd) \<subseteq> (implied (db w))\<^sup>* `` {an_tag_id a}
    \<and> (\<forall>x \<in> set (chain_ids nd). \<forall>y. (x, y) \<in> implied (db w) \<longrightarrow> y \<in> set (chain_ids nd) \<union> set (negated_ids nd))
    \<and> (excluded (db w) `` {an_tag_id a} = {} \<longrightarrow> set (chain_ids nd) = (implied (db w))\<^sup>* `` {an_tag_id a})
    \<and> db w' = db w \<and> store_inv env w'"
proof -
  let ?R = "\<lparr>rs_start = And_node a None None, rs_rest = [], rs_depth = 0, rs_conn = True, rs_negate = False, rs_added_tags = 0\<rparr>"
  obtain S where S: "(S, w') = tagsistant_reasoner_inner env ?R w" and nd: "nd = rs_start S"
    using r by (auto simp: tagsistant_reasoner_def Let_def split: prod.splits)
  have ids: "reasoning_ids ?R = [an_tag_id a]" "negated_ids (rs_start ?R) = []" "reasoning_ids S = chain_ids nd"
    by (simp_all add: reasoning_ids_data negated_ids_def chain_ids_data nd)
  have "walk_ok env ?R w" using assms(1-3) by (simp add: walk_ok_def)
  note W = walk_facts[OF this S]
  have F: "set (chain_ids nd) \<subseteq> (implied (db w))\<^sup>* `` {an_tag_id a}" "prefix [an_tag_id a] (chain_ids nd)" "distinct (chain_ids nd)"
    "\<forall>x \<in> set (chain_ids nd). implied (db w) `` {x} \<subseteq> set (chain_ids nd) \<union> set (negated_ids nd)"
    "excluded (db w) `` {an_tag_id a} = {} \<Longrightarrow> negated_ids nd = []" "db w' = db w" "store_inv env w'"
    using W ids by (simp_all add: saturated_def covered_def flip: nd)
  have "(implied (db w))\<^sup>* `` {an_tag_id a} \<subseteq> set (chain_ids nd)" if x: "excluded (db w) `` {an_tag_id a} = {}"
  proof -
    have start: "an_tag_id a \<in> set (chain_ids nd)" using F(2) by (auto simp: prefix_def)
    have cl: "implied (db w) `` set (chain_ids nd) \<subseteq> set (chain_ids nd)" using F(4) F(5)[OF x] by auto
    have "(implied (db w))\<^sup>* `` set (chain_ids nd) \<subseteq> set (chain_ids nd)"
      using Image_closed_trancl[OF cl] by simp
    then show ?thesis using start by blast
  qed
  with F show ?thesis by auto
qed

definition related_tags :: database where
  "related_tags = insert_relation 3 2 ''is_equivalent'' (insert_relation 1 2 ''includes''
     (insert_tag ''c'' '''' '''' (insert_tag ''b'' '''' '''' (insert_tag ''a'' '''' '''' empty_db))))"

theorem reasoner_computes_reachability_witness:
  "let w = sample_world related_tags []; a = new_and_data\<lparr>an_tag := Some ''a'', an_tag_id := 1\<rparr>;
       nd = fst (tagsistant_reasoner sample_env True (And_node a None None) w)
   in set (chain_ids nd) = (implied related_tags)\<^sup>* `` {1} \<and> distinct (chain_ids nd)"
proof -
  have t: "tags related_tags = [\<lparr>tr_id = 1, tr_name = ''a'', tr_key = '''', tr_value = ''''\<rparr>,
      \<lparr>tr_id = 2, tr_name = ''b'', tr_key = '''', tr_value = ''''\<rparr>, \<lparr>tr_id = 3, tr_name = ''c'', tr_key = '''', tr_value = ''''\<rparr>]"
      "tags_seq related_tags = 3"
      "relations related_tags = [\<lparr>re_id = 1, re_tag1 = 1, re_relation = ''includes'', re_tag2 = 2\<rparr>,
        \<lparr>re_id = 2, re_tag1 = 3, re_relation = ''is_equivalent'', re_tag2 = 2\<rparr>]"
    by (simp_all add: related_tags_def insert_relation_def insert_tag_def empty_db_def tag_triple_def)
  have ok: "db_ok related_tags" by (simp add: related_tags_def db_ok_statements db_ok_empty)
  have "tags_plain related_tags" by (simp add: tags_plain_def t plain_def)
  moreover have "\<not> is_triple_token ''a''" by (simp add: is_triple_token_def ends_dollar_def newline_def suffix_def)
  then have "node_ok related_tags (new_and_data\<lparr>an_tag := Some ''a'', an_tag_id := 1\<rparr>)"
    by (simp add: node_ok_def plain_def tag_id_of_def t tag_triple_def new_and_data_def)
  moreover have "excluded related_tags = {}"
    by (simp add: excluded_def has_relation_def t)
  ultimately show ?thesis
    using reasoner_computes_reachability[of sample_env "sample_world related_tags []"
        "new_and_data\<lparr>an_tag := Some ''a'', an_tag_id := 1\<rparr>", OF _ _ _ prod.collapse] ok
    by (simp add: Let_def new_and_data_def)
qed

end
