(* ===== verification/Path_Parser.thy ===== *)
theory Path_Parser
  imports Reasoner
begin

section \<open>Parsing the part of a path each kind of query has\<close>

text \<open>
  The functions \<^verbatim>\<open>tagsistant_querytree_parse_*\<close> of \<^verbatim>\<open>src/src/path_resolution.c\<close>.
  The token vector is a list whose head is the current token, the empty list being the final
  NULL; a parsing function returns what is left of it. The parser of \<^verbatim>\<open>store/\<close> queries is
  a loop over tokens with a small automaton for tag groups: \<open>store_token\<close> is its body,
  \<open>parse_store_loop\<close> the loop.
\<close>

subsection \<open>Queries under store/\<close>

datatype tag_group = TAG_GROUP_DONT_ADD | TAG_GROUP_ADD_TO_NODE | TAG_GROUP_ADD_NEW_NODE

definition TAGSISTANT_ERROR_NESTED_TAG_GROUP :: string where
  "TAGSISTANT_ERROR_NESTED_TAG_GROUP =
     ''Syntax error: nested tag group. Close all tag groups before opening another.'' @ newline"

definition TAGSISTANT_ERROR_CLOSE_TAG_GROUP_NOT_OPENED :: string where
  "TAGSISTANT_ERROR_CLOSE_TAG_GROUP_NOT_OPENED =
     ''Syntax error: } without {. Open a tag group before closing it'' @ newline"

definition TAGSISTANT_ERROR_DOUBLE_NEGATION :: string where
  "TAGSISTANT_ERROR_DOUBLE_NEGATION =
     ''Syntax error: can'' @ [CHR 0x27] @ ''t do a double negation. Use the -/ operator before a tag and never write -/-/'' @ newline"

definition TAGSISTANT_ERROR_NEGATION_INSIDE_TAG_GROUP :: string where
  "TAGSISTANT_ERROR_NEGATION_INSIDE_TAG_GROUP =
     ''Syntax error: negation inside a tag group is prohibited'' @ newline"

definition TAGSISTANT_ERROR_NEGATION_ON_FIRST_POSITION :: string where
  "TAGSISTANT_ERROR_NEGATION_ON_FIRST_POSITION =
     ''Syntax error: negation can'' @ [CHR 0x27] @ ''t start a query or follow a +/ operator''"

text \<open>
  The local state of the parser: the or-nodes already closed, the and-set being filled, whose
  last node is \<^verbatim>\<open>last_and\<close> (NULL when the set is empty), and the tag group flag.
\<close>

record parse_state =
  ps_qtree :: querytree
  ps_done :: "qtree_and_node list list"
  ps_cur :: "qtree_and_node list"
  ps_group :: tag_group

definition parse_operator :: "string \<Rightarrow> triple_operator option" where
  "parse_operator t = (if t = ''gt'' then Some TAGSISTANT_GREATER_THAN
     else if t = ''lt'' then Some TAGSISTANT_SMALLER_THAN
     else if t = ''eq'' then Some TAGSISTANT_EQUAL_TO
     else if t = ''inc'' then Some TAGSISTANT_CONTAINS else None)"

text \<open>
  A triple tag: up to four tokens, of which the last one consumed stays the current one.
\<close>

definition store_operator :: "string \<Rightarrow> and_data \<Rightarrow> querytree \<Rightarrow> and_data \<times> querytree" where
  "store_operator t a q =
     (case parse_operator t of None \<Rightarrow> (a, q)
      | Some op \<Rightarrow> (a\<lparr>an_operator := op\<rparr>,
          q\<lparr>q_operator := op, q_force_inode_in_filenames := q_force_inode_in_filenames q \<or> op \<noteq> TAGSISTANT_EQUAL_TO\<rparr>))"

definition store_triple :: "string \<Rightarrow> string list \<Rightarrow> querytree \<Rightarrow> and_data \<times> querytree \<times> string list" where
  "store_triple ns ts q =
     (let a1 = new_and_data\<lparr>an_namespace := Some ns\<rparr>;
          q1 = q\<lparr>q_namespace := Some ns, q_key := None, q_value := None\<rparr>
      in case ts of [] \<Rightarrow> (a1, q1, [ns])
         | k # ts1 \<Rightarrow>
             let a2 = a1\<lparr>an_key := Some k\<rparr>; q2 = q1\<lparr>q_key := Some k\<rparr>
             in case ts1 of [] \<Rightarrow> (a2, q2, [k])
                | op # ts2 \<Rightarrow>
                    let (a3, q3) = store_operator op a2 q2
                    in case ts2 of [] \<Rightarrow> (a3, q3, [op])
                       | v # ts3 \<Rightarrow> (a3\<lparr>an_value := Some v\<rparr>, q3\<lparr>q_value := Some v\<rparr>, v # ts3))"

text \<open>A tag token, with the id looked up.\<close>

definition store_tag :: "'fs env \<Rightarrow> string \<Rightarrow> string list \<Rightarrow> querytree \<Rightarrow> 'fs world
    \<Rightarrow> (and_data \<times> querytree \<times> string list) \<times> 'fs world" where
  "store_tag env t ts q w =
     (if is_triple_token t
      then let (a, q1, rest) = store_triple t ts q;
               (i, w1) = tagsistant_sql_get_tag_id env (q_dbi q) (an_namespace a) (an_key a) (an_value a) w
           in ((a\<lparr>an_tag_id := i\<rparr>, q1, rest), w1)
      else let (i, w1) = tagsistant_sql_get_tag_id env (q_dbi q) (Some t) None None w
           in ((new_and_data\<lparr>an_tag := Some t, an_tag_id := i\<rparr>, q, t # ts), w1))"

definition modify_last :: "('a \<Rightarrow> 'a) \<Rightarrow> 'a list \<Rightarrow> 'a list" where
  "modify_last f xs = butlast xs @ [f (last xs)]"

text \<open>The related tags of a new node, when the query asks for reasoning.\<close>

definition store_reason :: "'fs env \<Rightarrow> querytree \<Rightarrow> and_data \<Rightarrow> 'fs world \<Rightarrow> qtree_and_node \<times> 'fs world" where
  "store_reason env q a w =
     (if q_do_reasoning q \<and> (an_tag a \<noteq> None \<or> an_namespace a \<noteq> None \<and> an_key a \<noteq> None \<and> an_value a \<noteq> None)
      then tagsistant_reasoner env (q_dbi q) (And_node a None None) w
      else (And_node a None None, w))"

text \<open>
  Where the node goes. The reasoner works on the node alone, so it is run before the node is put
  in its place; the errors and the crash come before it, as in the code.
\<close>

definition store_place :: "'fs env \<Rightarrow> and_data \<Rightarrow> parse_state \<Rightarrow> 'fs world \<Rightarrow> (((string \<times> parse_state) + parse_state) \<times> 'fs world) run" where
  "store_place env a s w =
     (let q = ps_qtree s;
          group = (if ps_group s = TAG_GROUP_ADD_NEW_NODE then TAG_GROUP_ADD_TO_NODE else ps_group s)
      in if q_negate_next_tag q then
           if ps_cur s = []
           then Done (Inl (TAGSISTANT_ERROR_NEGATION_ON_FIRST_POSITION, s\<lparr>ps_qtree := q\<lparr>q_negate_next_tag := False\<rparr>\<rparr>), w)
           else let (nd, w1) = store_reason env q (a\<lparr>an_negate := True\<rparr>) w
                in Done (Inr (s\<lparr>ps_qtree := q\<lparr>q_negate_next_tag := False\<rparr>,
                     ps_cur := modify_last (append_negated nd) (ps_cur s), ps_group := group\<rparr>), w1)
         else if ps_group s = TAG_GROUP_ADD_TO_NODE then
           if ps_cur s = [] then Segv
           else let (nd, w1) = store_reason env q a w
                in Done (Inr (s\<lparr>ps_cur := modify_last (append_related nd) (ps_cur s), ps_group := group\<rparr>), w1)
         else let (nd, w1) = store_reason env q a w
              in Done (Inr (s\<lparr>ps_cur := ps_cur s @ [nd], ps_group := group\<rparr>), w1))"

text \<open>
  The body of the loop for the current token \<open>t\<close>, followed by \<open>ts\<close>: an error message, or the
  new state and the tokens from the last one consumed on.
\<close>

definition store_token :: "'fs env \<Rightarrow> string \<Rightarrow> string list \<Rightarrow> parse_state \<Rightarrow> 'fs world
    \<Rightarrow> (((string \<times> parse_state) + parse_state \<times> string list) \<times> 'fs world) run" where
  "store_token env t ts s w =
     (let q = ps_qtree s in
      if t = '''' then Done (Inr (s, t # ts), w)
      else if t = ''-'' then
        if q_negate_next_tag q then Done (Inl (TAGSISTANT_ERROR_DOUBLE_NEGATION, s), w)
        else if ps_group s \<noteq> TAG_GROUP_DONT_ADD then Done (Inl (TAGSISTANT_ERROR_NEGATION_INSIDE_TAG_GROUP, s), w)
        else Done (Inr (s\<lparr>ps_qtree := q\<lparr>q_negate_next_tag := True\<rparr>\<rparr>, t # ts), w)
      else if t = ''+'' then Done (Inr (s\<lparr>ps_done := ps_done s @ [ps_cur s], ps_cur := []\<rparr>, t # ts), w)
      else if t = ''{'' then
        if ps_group s \<noteq> TAG_GROUP_DONT_ADD then Done (Inl (TAGSISTANT_ERROR_NESTED_TAG_GROUP, s), w)
        else Done (Inr (s\<lparr>ps_group := TAG_GROUP_ADD_NEW_NODE\<rparr>, t # ts), w)
      else if t = ''}'' then
        if ps_group s = TAG_GROUP_DONT_ADD then Done (Inl (TAGSISTANT_ERROR_CLOSE_TAG_GROUP_NOT_OPENED, s), w)
        else Done (Inr (s\<lparr>ps_group := TAG_GROUP_DONT_ADD\<rparr>, t # ts), w)
      else
        let ((a, q1, rest), w1) = store_tag env t ts q w
        in run_bind (store_place env a (s\<lparr>ps_qtree := q1\<rparr>) w1)
             (\<lambda>(r, w2). Done (map_sum id (\<lambda>s2. (s2, rest)) r, w2)))"

lemma store_triple_rest:
  "snd (snd (store_triple ns ts q)) \<noteq> [] \<and> length (snd (snd (store_triple ns ts q))) \<le> Suc (length ts)"
  by (simp add: store_triple_def Let_def split_beta split: list.splits)

lemma store_tag_rest:
  "snd (snd (fst (store_tag env t ts q w))) \<noteq> [] \<and> length (snd (snd (fst (store_tag env t ts q w)))) \<le> Suc (length ts)"
  using store_triple_rest[of t ts q] by (simp add: store_tag_def Let_def split_beta)

lemma map_sum_Inr: "map_sum id f r = Inr y \<longleftrightarrow> (\<exists>x. r = Inr x \<and> y = f x)"
  by (cases r) auto

lemma store_token_rest:
  assumes "store_token env t ts s w = Done (Inr (s', rest), w')"
  shows "rest \<noteq> [] \<and> length rest \<le> Suc (length ts)"
proof -
  have "rest = t # ts \<or> rest = snd (snd (fst (store_tag env t ts (ps_qtree s) w)))"
    using assms by (auto simp: store_token_def Let_def run_bind_Done_iff split_beta map_sum_Inr split: if_splits)
  then show ?thesis using store_tag_rest[of env t ts "ps_qtree s" w] by auto
qed

definition finish_store :: "parse_state \<Rightarrow> querytree" where
  "finish_store s = (ps_qtree s)\<lparr>q_tree := ps_done s @ [ps_cur s]\<rparr>"

function parse_store_loop :: "'fs env \<Rightarrow> string list \<Rightarrow> parse_state \<Rightarrow> 'fs world
    \<Rightarrow> ((bool \<times> querytree \<times> string list) \<times> 'fs world) run" where
  "parse_store_loop env tokens s w =
     (case tokens of
        [] \<Rightarrow> Done ((True, finish_store s, []), w)
      | t # ts \<Rightarrow>
          if t \<noteq> '''' \<and> hd t = CHR ''@'' then Done ((True, finish_store s, ts), w)
          else (case store_token env t ts s w of
                  Segv \<Rightarrow> Segv | Hang \<Rightarrow> Hang
                | Done (Inl (e, s1), w1) \<Rightarrow> Done ((False, (finish_store s1)\<lparr>q_error_message := Some e\<rparr>, t # ts), w1)
                | Done (Inr (s1, rest), w1) \<Rightarrow>
                    parse_store_loop env (tl rest)
                      (s1\<lparr>ps_qtree := (ps_qtree s1)\<lparr>q_last_tag := Some (hd rest)\<rparr>\<rparr>) w1))"
  by pat_completeness auto
termination
proof (relation "measure (\<lambda>(env, tokens, s, w). length tokens)", simp)
  fix env :: "'fs env" and tokens s w t ts x y w1 z s1 rest
  assume "tokens = t # ts" "store_token env t ts s w = Done x" "(y, w1) = x" "y = Inr z" "(s1, rest) = z"
  then have "store_token env t ts s w = Done (Inr (s1, rest), w1)" by auto
  note r = store_token_rest[OF this]
  then show "((env, tl rest, s1\<lparr>ps_qtree := (ps_qtree s1)\<lparr>q_last_tag := Some (hd rest)\<rparr>\<rparr>, w1), env, tokens, s, w)
      \<in> measure (\<lambda>(env, tokens, s, w). length tokens)"
    using \<open>tokens = t # ts\<close> by (cases rest) auto
qed

declare parse_store_loop.simps [simp del]

definition tagsistant_querytree_parse_store :: "'fs env \<Rightarrow> querytree \<Rightarrow> string \<Rightarrow> string list \<Rightarrow> bool \<Rightarrow> 'fs world
    \<Rightarrow> ((bool \<times> querytree \<times> string list) \<times> 'fs world) run" where
  "tagsistant_querytree_parse_store env q path tokens disable_reasoner w =
     (let q1 = (if strstr ''/@'' path
                then q\<lparr>q_complete := True, q_do_reasoning := \<not> disable_reasoner \<and> \<not> strstr ''/@@'' path\<rparr>
                else q);
          q2 = q1\<lparr>q_valid := True\<rparr>
      in parse_store_loop env tokens
           \<lparr>ps_qtree = q2, ps_done = [], ps_cur = [], ps_group = TAG_GROUP_DONT_ADD\<rparr> w)"

subsection \<open>What a store query means\<close>

text \<open>
  The abstract syntax of the queries: an or-list of and-lists of criteria, each a set of
  alternative tags and a list of excluded ones; how it is written as tokens, and the tree it
  stands for.
\<close>

datatype tag_atom = Flat string | Triple string string triple_operator string

datatype criterion = Criterion (alternatives: "tag_atom list") (exclusions: "tag_atom list")

fun operator_token :: "triple_operator \<Rightarrow> string" where
  "operator_token TAGSISTANT_EQUAL_TO = ''eq''"
| "operator_token TAGSISTANT_CONTAINS = ''inc''"
| "operator_token TAGSISTANT_GREATER_THAN = ''gt''"
| "operator_token TAGSISTANT_SMALLER_THAN = ''lt''"
| "operator_token _ = ''''"

fun atom_tokens :: "tag_atom \<Rightarrow> string list" where
  "atom_tokens (Flat n) = [n]"
| "atom_tokens (Triple ns k op v) = [ns, k, operator_token op, v]"

definition criterion_tokens :: "criterion \<Rightarrow> string list" where
  "criterion_tokens c =
     (if length (alternatives c) = 1 then atom_tokens (hd (alternatives c))
      else ''{'' # concat (map atom_tokens (alternatives c)) @ [''}''])
     @ concat (map (\<lambda>e. ''-'' # atom_tokens e) (exclusions c))"

fun query_tokens :: "criterion list list \<Rightarrow> string list" where
  "query_tokens [] = []"
| "query_tokens [cs] = concat (map criterion_tokens cs)"
| "query_tokens (cs # ds # css) = concat (map criterion_tokens cs) @ ''+'' # query_tokens (ds # css)"

fun atom_data :: "database \<Rightarrow> bool \<Rightarrow> tag_atom \<Rightarrow> and_data" where
  "atom_data d neg (Flat n) = new_and_data\<lparr>an_tag := Some n, an_tag_id := tag_id_of d (n, '''', ''''), an_negate := neg\<rparr>"
| "atom_data d neg (Triple ns k op v) = new_and_data\<lparr>an_namespace := Some ns, an_key := Some k, an_operator := op,
     an_value := Some v, an_tag_id := tag_id_of d (ns, k, v), an_negate := neg\<rparr>"

fun related_of :: "and_data list \<Rightarrow> qtree_and_node option" where
  "related_of [] = None"
| "related_of (a # as) = Some (And_node a (related_of as) None)"

fun negated_of :: "and_data list \<Rightarrow> qtree_and_node option" where
  "negated_of [] = None"
| "negated_of (a # as) = Some (And_node a None (negated_of as))"

definition criterion_node :: "database \<Rightarrow> criterion \<Rightarrow> qtree_and_node" where
  "criterion_node d c = And_node (atom_data d False (hd (alternatives c)))
     (related_of (map (atom_data d False) (tl (alternatives c))))
     (negated_of (map (atom_data d True) (exclusions c)))"

definition query_tree :: "database \<Rightarrow> criterion list list \<Rightarrow> qtree_and_node list list" where
  "query_tree d css = map (map (criterion_node d)) css"

fun atom_ok :: "tag_atom \<Rightarrow> bool" where
  "atom_ok (Flat n) \<longleftrightarrow> n \<notin> {'''', ''-'', ''+'', ''{'', ''}''} \<and> hd n \<noteq> CHR ''@'' \<and> \<not> is_triple_token n \<and> plain n"
| "atom_ok (Triple ns k op v) \<longleftrightarrow> is_triple_token ns \<and> hd ns \<noteq> CHR ''@'' \<and> plain ns \<and> plain k
     \<and> op \<in> {TAGSISTANT_EQUAL_TO, TAGSISTANT_CONTAINS, TAGSISTANT_GREATER_THAN, TAGSISTANT_SMALLER_THAN}"

definition criterion_ok :: "criterion \<Rightarrow> bool" where
  "criterion_ok c \<longleftrightarrow> alternatives c \<noteq> [] \<and> (\<forall>a \<in> set (alternatives c) \<union> set (exclusions c). atom_ok a)"

subsection \<open>Parsing what was written\<close>

lemma append_related_of:
  "append_related (And_node x None None) (And_node a (related_of as) ng) = And_node a (related_of (as @ [x])) ng"
  by (induction as arbitrary: a ng) simp_all

lemma append_negated_of:
  "append_negated (And_node x None None) (And_node a r (negated_of as)) = And_node a r (negated_of (as @ [x]))"
  by (induction as arbitrary: a r) simp_all

lemma parse_operator_token [simp]:
  "op \<in> {TAGSISTANT_EQUAL_TO, TAGSISTANT_CONTAINS, TAGSISTANT_GREATER_THAN, TAGSISTANT_SMALLER_THAN}
   \<Longrightarrow> parse_operator (operator_token op) = Some op"
  by (auto simp: parse_operator_def)

text \<open>The state of the loop between two tokens, for a query without reasoning.\<close>

definition parsing :: "'fs env \<Rightarrow> database \<Rightarrow> querytree \<Rightarrow> qtree_and_node list list \<Rightarrow> qtree_and_node list \<Rightarrow> tag_group \<Rightarrow> bool
    \<Rightarrow> parse_state \<Rightarrow> 'fs world \<Rightarrow> bool" where
  "parsing env d q0 dn cur g neg s w \<longleftrightarrow> store_inv env w \<and> tags_plain d \<and> db w = d \<and>
     q_dbi (ps_qtree s) \<and> \<not> q_do_reasoning (ps_qtree s) \<and> q_negate_next_tag (ps_qtree s) = neg \<and>
     q_valid (ps_qtree s) = q_valid q0 \<and> q_complete (ps_qtree s) = q_complete q0 \<and> q_full_path (ps_qtree s) = q_full_path q0 \<and>
     q_type (ps_qtree s) = q_type q0 \<and>
     ps_done s = dn \<and> ps_cur s = cur \<and> ps_group s = g"

definition atom_first :: "tag_atom \<Rightarrow> string" where
  "atom_first a = hd (atom_tokens a)"

lemma triple_token_nonempty: "is_triple_token s \<Longrightarrow> s \<notin> {'''', ''-'', ''+'', ''{'', ''}''}"
  by (auto simp: is_triple_token_def ends_dollar_def suffix_def newline_def Cons_eq_append_conv)

lemma atom_first_ok: "atom_ok a \<Longrightarrow> atom_first a \<notin> {'''', ''-'', ''+'', ''{'', ''}''} \<and> hd (atom_first a) \<noteq> CHR ''@''"
  by (cases a) (auto simp: atom_first_def dest: triple_token_nonempty)

lemma store_tag_atom:
  assumes "atom_ok a" "store_inv env w" "tags_plain (db w)" "q_dbi q"
  shows "\<exists>q' w'. store_tag env (atom_first a) (tl (atom_tokens a) @ rest) q w =
      ((atom_data (db w) False a, q', last (atom_tokens a) # rest), w')
    \<and> store_inv env w' \<and> db w' = db w \<and> q_dbi q' \<and> q_do_reasoning q' = q_do_reasoning q
    \<and> q_negate_next_tag q' = q_negate_next_tag q \<and> q_valid q' = q_valid q \<and> q_complete q' = q_complete q
    \<and> q_full_path q' = q_full_path q \<and> q_type q' = q_type q"
proof (cases a)
  case (Flat n)
  then have n: "\<not> is_triple_token n" "plain n" using assms(1) by auto
  have "\<forall>r \<in> set (tags (db w)). tr_name r = n \<longrightarrow> tr_key r = '''' \<and> tr_value r = ''''"
    using assms(3) n(1) unfolding tags_plain_def by blast
  note f = flat_lookup[OF this, of env]
  have p: "plain_key (n, '''', '''')" using n(2) by (simp add: plain_key_def plain_def)
  note g = get_exact[OF assms(2) p]
  show ?thesis using n g assms(2,4) Flat
    by (simp add: store_tag_def atom_first_def f split_beta Let_def store_inv_def new_and_data_def)
next
  case (Triple ns k op v)
  then have n: "is_triple_token ns" "plain_key (ns, k, v)" "parse_operator (operator_token op) = Some op"
    using assms(1) by (auto simp: plain_key_def)
  note g = get_exact[OF assms(2) n(2)]
  show ?thesis using n g assms(2,4) Triple
    by (simp add: store_tag_def atom_first_def split_beta Let_def store_triple_def store_operator_def store_inv_def new_and_data_def)
qed

lemma loop_step:
  assumes "t = '''' \<or> hd t \<noteq> CHR ''@''" "store_token env t ts s w = Done (Inr (s1, r # rest), w1)"
  shows "parse_store_loop env (t # ts) s w =
     parse_store_loop env rest (s1\<lparr>ps_qtree := (ps_qtree s1)\<lparr>q_last_tag := Some r\<rparr>\<rparr>) w1"
  using assms by (subst parse_store_loop.simps) auto

lemma parsing_last_tag [simp]:
  "parsing env d q0 dn cur g neg (s\<lparr>ps_qtree := (ps_qtree s)\<lparr>q_last_tag := t\<rparr>\<rparr>) w = parsing env d q0 dn cur g neg s w"
  by (simp add: parsing_def)

text \<open>Where a node goes, as a function of the state.\<close>

definition placed :: "bool \<Rightarrow> tag_group \<Rightarrow> qtree_and_node \<Rightarrow> qtree_and_node list \<Rightarrow> qtree_and_node list" where
  "placed neg g nd cur = (if neg then modify_last (append_negated nd) cur
     else if g = TAG_GROUP_ADD_TO_NODE then modify_last (append_related nd) cur else cur @ [nd])"

lemma modify_last_snoc [simp]: "modify_last f (xs @ [x]) = xs @ [f x]"
  by (simp add: modify_last_def)

lemma atom_data_neg: "(atom_data d False a)\<lparr>an_negate := True\<rparr> = atom_data d True a"
  by (cases a) simp_all

definition group_after :: "tag_group \<Rightarrow> tag_group" where
  "group_after g = (if g = TAG_GROUP_ADD_NEW_NODE then TAG_GROUP_ADD_TO_NODE else g)"

text \<open>One tag, wherever it stands.\<close>

lemma parse_atom:
  assumes "parsing env d q0 dn cur g neg s w" "atom_ok a" "neg \<or> g = TAG_GROUP_ADD_TO_NODE \<longrightarrow> cur \<noteq> []"
  shows "\<exists>s' w'. parse_store_loop env (atom_tokens a @ rest) s w = parse_store_loop env rest s' w'
    \<and> parsing env d q0 dn (placed neg g (And_node (atom_data d neg a) None None) cur) (group_after g) False s' w'"
proof -
  have p: "store_inv env w" "tags_plain (db w)" "q_dbi (ps_qtree s)" "db w = d" using assms(1) by (simp_all add: parsing_def)
  obtain q' w' where t: "store_tag env (atom_first a) (tl (atom_tokens a) @ rest) (ps_qtree s) w =
      ((atom_data d False a, q', last (atom_tokens a) # rest), w')"
    and q': "store_inv env w'" "db w' = d" "q_dbi q'" "q_do_reasoning q' = q_do_reasoning (ps_qtree s)"
      "q_negate_next_tag q' = q_negate_next_tag (ps_qtree s)" "q_valid q' = q_valid (ps_qtree s)"
      "q_complete q' = q_complete (ps_qtree s)" "q_full_path q' = q_full_path (ps_qtree s)" "q_type q' = q_type (ps_qtree s)"
    using store_tag_atom[OF assms(2) p(1,2,3), of rest] unfolding p(4) by blast
  have toks: "atom_tokens a @ rest = atom_first a # tl (atom_tokens a) @ rest" by (cases a) (simp_all add: atom_first_def)
  have f: "atom_first a \<notin> {'''', ''-'', ''+'', ''{'', ''}''}" "hd (atom_first a) \<noteq> CHR ''@''"
    using atom_first_ok[OF assms(2)] by auto
  have nr: "\<not> q_do_reasoning (ps_qtree s)" "q_negate_next_tag (ps_qtree s) = neg" "ps_cur s = cur" "ps_group s = g"
    using assms(1) by (simp_all add: parsing_def)
  obtain s1 where pl: "store_place env (atom_data d False a) (s\<lparr>ps_qtree := q'\<rparr>) w' = Done (Inr s1, w')"
    and s1: "s1 = s\<lparr>ps_qtree := q'\<lparr>q_negate_next_tag := False\<rparr>, ps_cur := placed neg g (And_node (atom_data d neg a) None None) cur,
        ps_group := group_after g\<rparr>"
  proof (rule that)
    show "store_place env (atom_data d False a) (s\<lparr>ps_qtree := q'\<rparr>) w' = Done (Inr (s\<lparr>ps_qtree := q'\<lparr>q_negate_next_tag := False\<rparr>,
        ps_cur := placed neg g (And_node (atom_data d neg a) None None) cur, ps_group := group_after g\<rparr>), w')"
      using nr q' assms(3) by (cases neg) (simp_all add: store_place_def store_reason_def Let_def atom_data_neg placed_def group_after_def)
  qed simp
  have "store_token env (atom_first a) (tl (atom_tokens a) @ rest) s w = Done (Inr (s1, last (atom_tokens a) # rest), w')"
    using f(1) by (simp add: store_token_def t pl)
  from loop_step[OF _ this] f(2) have
    "parse_store_loop env (atom_tokens a @ rest) s w
      = parse_store_loop env rest (s1\<lparr>ps_qtree := (ps_qtree s1)\<lparr>q_last_tag := Some (last (atom_tokens a))\<rparr>\<rparr>) w'"
    unfolding toks by simp
  moreover have "parsing env d q0 dn (placed neg g (And_node (atom_data d neg a) None None) cur) (group_after g) False s1 w'"
    using assms(1) q' p by (simp add: parsing_def s1)
  ultimately show ?thesis by (metis parsing_last_tag)
qed

lemma parse_related:
  assumes "parsing env d q0 dn (cur @ [And_node x (related_of ys) ng]) TAG_GROUP_ADD_TO_NODE False s w" "\<forall>a \<in> set as. atom_ok a"
  shows "\<exists>s' w'. parse_store_loop env (concat (map atom_tokens as) @ rest) s w = parse_store_loop env rest s' w'
    \<and> parsing env d q0 dn (cur @ [And_node x (related_of (ys @ map (atom_data d False) as)) ng]) TAG_GROUP_ADD_TO_NODE False s' w'"
  using assms
proof (induction as arbitrary: ys s w)
  case (Cons a as)
  obtain s1 w1 where 1: "parse_store_loop env (atom_tokens a @ concat (map atom_tokens as) @ rest) s w =
        parse_store_loop env (concat (map atom_tokens as) @ rest) s1 w1"
      "parsing env d q0 dn (cur @ [And_node x (related_of (ys @ [atom_data d False a])) ng]) TAG_GROUP_ADD_TO_NODE False s1 w1"
    using parse_atom[OF Cons.prems(1), of a "concat (map atom_tokens as) @ rest"] Cons.prems(2)
    by (auto simp: placed_def group_after_def append_related_of)
  from Cons.IH[OF 1(2)] 1(1) Cons.prems(2) show ?case by simp
qed auto

lemma parse_marker:
  assumes "parsing env d q0 dn cur g neg s w"
  shows "\<not> neg \<Longrightarrow> g = TAG_GROUP_DONT_ADD \<Longrightarrow> \<exists>s'. parse_store_loop env (''-'' # rest) s w = parse_store_loop env rest s' w
       \<and> parsing env d q0 dn cur g True s' w"
    and "\<exists>s'. parse_store_loop env (''+'' # rest) s w = parse_store_loop env rest s' w
       \<and> parsing env d q0 (dn @ [cur]) [] g neg s' w"
    and "g = TAG_GROUP_DONT_ADD \<Longrightarrow> \<exists>s'. parse_store_loop env (''{'' # rest) s w = parse_store_loop env rest s' w
       \<and> parsing env d q0 dn cur TAG_GROUP_ADD_NEW_NODE neg s' w"
    and "g \<noteq> TAG_GROUP_DONT_ADD \<Longrightarrow> \<exists>s'. parse_store_loop env (''}'' # rest) s w = parse_store_loop env rest s' w
       \<and> parsing env d q0 dn cur TAG_GROUP_DONT_ADD neg s' w"
proof -
  show "\<not> neg \<Longrightarrow> g = TAG_GROUP_DONT_ADD \<Longrightarrow> \<exists>s'. parse_store_loop env (''-'' # rest) s w = parse_store_loop env rest s' w
       \<and> parsing env d q0 dn cur g True s' w"
    using assms by (subst loop_step[of "''-''" env rest s w "s\<lparr>ps_qtree := (ps_qtree s)\<lparr>q_negate_next_tag := True\<rparr>\<rparr>" "''-''" rest w])
      (auto simp: store_token_def parsing_def Let_def intro!: exI)
  show "\<exists>s'. parse_store_loop env (''+'' # rest) s w = parse_store_loop env rest s' w
       \<and> parsing env d q0 (dn @ [cur]) [] g neg s' w"
    using assms by (subst loop_step[of "''+''" env rest s w "s\<lparr>ps_done := ps_done s @ [ps_cur s], ps_cur := []\<rparr>" "''+''" rest w])
      (auto simp: store_token_def parsing_def Let_def intro!: exI)
  show "g = TAG_GROUP_DONT_ADD \<Longrightarrow> \<exists>s'. parse_store_loop env (''{'' # rest) s w = parse_store_loop env rest s' w
       \<and> parsing env d q0 dn cur TAG_GROUP_ADD_NEW_NODE neg s' w"
    using assms by (subst loop_step[of "''{''" env rest s w "s\<lparr>ps_group := TAG_GROUP_ADD_NEW_NODE\<rparr>" "''{''" rest w])
      (auto simp: store_token_def parsing_def Let_def intro!: exI)
  show "g \<noteq> TAG_GROUP_DONT_ADD \<Longrightarrow> \<exists>s'. parse_store_loop env (''}'' # rest) s w = parse_store_loop env rest s' w
       \<and> parsing env d q0 dn cur TAG_GROUP_DONT_ADD neg s' w"
    using assms by (subst loop_step[of "''}''" env rest s w "s\<lparr>ps_group := TAG_GROUP_DONT_ADD\<rparr>" "''}''" rest w])
      (auto simp: store_token_def parsing_def Let_def intro!: exI)
qed

lemma parse_negated:
  assumes "parsing env d q0 dn (cur @ [And_node x r (negated_of ys)]) TAG_GROUP_DONT_ADD False s w" "\<forall>a \<in> set es. atom_ok a"
  shows "\<exists>s' w'. parse_store_loop env (concat (map (\<lambda>e. ''-'' # atom_tokens e) es) @ rest) s w = parse_store_loop env rest s' w'
    \<and> parsing env d q0 dn (cur @ [And_node x r (negated_of (ys @ map (atom_data d True) es))]) TAG_GROUP_DONT_ADD False s' w'"
  using assms
proof (induction es arbitrary: ys s w)
  case (Cons e es)
  let ?more = "concat (map (\<lambda>e. ''-'' # atom_tokens e) es) @ rest"
  obtain s1 where 1: "parse_store_loop env (''-'' # atom_tokens e @ ?more) s w = parse_store_loop env (atom_tokens e @ ?more) s1 w"
      "parsing env d q0 dn (cur @ [And_node x r (negated_of ys)]) TAG_GROUP_DONT_ADD True s1 w"
    using parse_marker(1)[OF Cons.prems(1), of "atom_tokens e @ ?more"] by auto
  obtain s2 w2 where 2: "parse_store_loop env (atom_tokens e @ ?more) s1 w = parse_store_loop env ?more s2 w2"
      "parsing env d q0 dn (cur @ [And_node x r (negated_of (ys @ [atom_data d True e]))]) TAG_GROUP_DONT_ADD False s2 w2"
    using parse_atom[OF 1(2), of e ?more] Cons.prems(2) by (auto simp: placed_def group_after_def append_negated_of)
  from Cons.IH[OF 2(2)] 1(1) 2(1) Cons.prems(2) show ?case by simp
qed auto

lemma parse_alternatives:
  assumes "parsing env d q0 dn cur TAG_GROUP_DONT_ADD False s w" "as \<noteq> []" "\<forall>a \<in> set as. atom_ok a"
  shows "\<exists>s' w'. parse_store_loop env ((if length as = 1 then atom_tokens (hd as)
        else ''{'' # concat (map atom_tokens as) @ [''}'']) @ rest) s w = parse_store_loop env rest s' w'
    \<and> parsing env d q0 dn (cur @ [And_node (atom_data d False (hd as)) (related_of (map (atom_data d False) (tl as))) None])
        TAG_GROUP_DONT_ADD False s' w'"
proof (cases "length as = 1")
  case True
  then obtain a where as: "as = [a]" by (cases as) auto
  show ?thesis using parse_atom[OF assms(1), of a rest] assms(3) by (simp add: as placed_def group_after_def)
next
  case False
  obtain a as' where as: "as = a # as'" using assms(2) by (cases as) auto
  let ?more = "concat (map atom_tokens as') @ ''}'' # rest"
  obtain s1 where 1: "parse_store_loop env (''{'' # atom_tokens a @ ?more) s w = parse_store_loop env (atom_tokens a @ ?more) s1 w"
      "parsing env d q0 dn cur TAG_GROUP_ADD_NEW_NODE False s1 w"
    using parse_marker(3)[OF assms(1) refl, of "atom_tokens a @ ?more"] by blast
  obtain s2 w2 where 2: "parse_store_loop env (atom_tokens a @ ?more) s1 w = parse_store_loop env ?more s2 w2"
      "parsing env d q0 dn (cur @ [And_node (atom_data d False a) (related_of []) None]) TAG_GROUP_ADD_TO_NODE False s2 w2"
    using parse_atom[OF 1(2), of a ?more] assms(3) by (auto simp: placed_def group_after_def as)
  obtain s3 w3 where 3: "parse_store_loop env ?more s2 w2 = parse_store_loop env (''}'' # rest) s3 w3"
      "parsing env d q0 dn (cur @ [And_node (atom_data d False a) (related_of (map (atom_data d False) as')) None]) TAG_GROUP_ADD_TO_NODE False s3 w3"
    using parse_related[OF 2(2), of as' "''}'' # rest"] assms(3) by (auto simp: as)
  obtain s4 where 4: "parse_store_loop env (''}'' # rest) s3 w3 = parse_store_loop env rest s4 w3"
      "parsing env d q0 dn (cur @ [And_node (atom_data d False a) (related_of (map (atom_data d False) as')) None]) TAG_GROUP_DONT_ADD False s4 w3"
    using parse_marker(4)[OF 3(2), of rest] by blast
  have "length as \<noteq> 1" using False .
  then show ?thesis using 1(1) 2(1) 3(1) 4 by (auto simp: as)
qed

lemma parse_criterion:
  assumes "parsing env d q0 dn cur TAG_GROUP_DONT_ADD False s w" "criterion_ok c"
  shows "\<exists>s' w'. parse_store_loop env (criterion_tokens c @ rest) s w = parse_store_loop env rest s' w'
    \<and> parsing env d q0 dn (cur @ [criterion_node d c]) TAG_GROUP_DONT_ADD False s' w'"
proof -
  have c: "alternatives c \<noteq> []" "\<forall>a \<in> set (alternatives c). atom_ok a" "\<forall>a \<in> set (exclusions c). atom_ok a"
    using assms(2) by (auto simp: criterion_ok_def)
  let ?ex = "concat (map (\<lambda>e. ''-'' # atom_tokens e) (exclusions c)) @ rest"
  obtain s1 w1 where 1: "parse_store_loop env (criterion_tokens c @ rest) s w = parse_store_loop env ?ex s1 w1"
      "parsing env d q0 dn (cur @ [And_node (atom_data d False (hd (alternatives c)))
         (related_of (map (atom_data d False) (tl (alternatives c)))) (negated_of [])]) TAG_GROUP_DONT_ADD False s1 w1"
    using parse_alternatives[OF assms(1) c(1,2), of ?ex] by (auto simp: criterion_tokens_def)
  from parse_negated[OF 1(2) c(3), of rest] 1(1) show ?thesis by (simp add: criterion_node_def)
qed

lemma parse_criteria:
  assumes "parsing env d q0 dn cur TAG_GROUP_DONT_ADD False s w" "\<forall>c \<in> set cs. criterion_ok c"
  shows "\<exists>s' w'. parse_store_loop env (concat (map criterion_tokens cs) @ rest) s w = parse_store_loop env rest s' w'
    \<and> parsing env d q0 dn (cur @ map (criterion_node d) cs) TAG_GROUP_DONT_ADD False s' w'"
  using assms
proof (induction cs arbitrary: cur s w)
  case (Cons c cs)
  let ?more = "concat (map criterion_tokens cs) @ rest"
  obtain s1 w1 where 1: "parse_store_loop env (criterion_tokens c @ ?more) s w = parse_store_loop env ?more s1 w1"
      "parsing env d q0 dn (cur @ [criterion_node d c]) TAG_GROUP_DONT_ADD False s1 w1"
    using parse_criterion[OF Cons.prems(1), of c ?more] Cons.prems(2) by auto
  from Cons.IH[OF 1(2)] 1(1) Cons.prems(2) show ?case by simp
qed auto

lemma parse_query:
  assumes "parsing env d q0 dn [] TAG_GROUP_DONT_ADD False s w" "\<forall>cs \<in> set css. \<forall>c \<in> set cs. criterion_ok c" "css \<noteq> []"
  shows "\<exists>s' w'. parse_store_loop env (query_tokens css @ rest) s w = parse_store_loop env rest s' w'
    \<and> parsing env d q0 (dn @ butlast (query_tree d css)) (last (query_tree d css)) TAG_GROUP_DONT_ADD False s' w'"
  using assms
proof (induction css arbitrary: dn s w rule: query_tokens.induct)
  case (2 cs)
  then show ?case using parse_criteria[OF 2(1), of cs rest] by (simp add: query_tree_def)
next
  case (3 cs ds css)
  let ?more = "query_tokens (ds # css) @ rest"
  obtain s1 w1 where 1: "parse_store_loop env (concat (map criterion_tokens cs) @ ''+'' # ?more) s w = parse_store_loop env (''+'' # ?more) s1 w1"
      "parsing env d q0 dn (map (criterion_node d) cs) TAG_GROUP_DONT_ADD False s1 w1"
    using parse_criteria[OF 3(2), of cs "''+'' # ?more"] 3(3) by auto
  obtain s2 where 2: "parse_store_loop env (''+'' # ?more) s1 w1 = parse_store_loop env ?more s2 w1"
      "parsing env d q0 (dn @ [map (criterion_node d) cs]) [] TAG_GROUP_DONT_ADD False s2 w1"
    using parse_marker(2)[OF 1(2), of ?more] by blast
  from 3(1)[OF 2(2)] 1(1) 2(1) 3(3) show ?case by (simp add: query_tree_def)
qed simp

text \<open>C2: Parsing a written query gives back its tree. For every or-list of and-lists of criteria,
  each a non-empty set of alternative tags (flat or triple, with any of the four operators) and
  a list of excluded tags, written with braces for alternatives, a dash before each exclusion and
  a plus between and-lists, the parser of \<^verbatim>\<open>store/\<close> queries run without reasoning returns success,
  the tree has one node per criterion with the alternatives on its related chain and the
  exclusions on its negated chain, each with the id of its tag in the table, the tokens after the
  delimiter are what is left, and the database is unchanged.\<close>

theorem parse_store_roundtrip:
  assumes "store_inv env w" "tags_plain (db w)" "\<forall>cs \<in> set css. \<forall>c \<in> set cs. criterion_ok c" "css \<noteq> []"
    and "q_dbi q" "\<not> q_do_reasoning q" "\<not> q_negate_next_tag q" "hd del = CHR ''@''" "del \<noteq> ''''"
  shows "\<exists>q' w'. tagsistant_querytree_parse_store env q path (query_tokens css @ del # rest) True w = Done ((True, q', rest), w')
    \<and> q_tree q' = query_tree (db w) css \<and> q_valid q' \<and> (q_complete q' \<longleftrightarrow> q_complete q \<or> strstr ''/@'' path)
    \<and> store_inv env w' \<and> db w' = db w"
proof -
  let ?q1 = "if strstr ''/@'' path then q\<lparr>q_complete := True, q_do_reasoning := \<not> True \<and> \<not> strstr ''/@@'' path\<rparr> else q"
  let ?q = "?q1\<lparr>q_valid := True\<rparr>"
  let ?s = "\<lparr>ps_qtree = ?q, ps_done = [], ps_cur = [], ps_group = TAG_GROUP_DONT_ADD\<rparr>"
  have "parsing env (db w) ?q [] [] TAG_GROUP_DONT_ADD False ?s w"
    using assms by (simp add: parsing_def)
  from parse_query[OF this assms(3,4), of "del # rest"] obtain s' w' where
    1: "parse_store_loop env (query_tokens css @ del # rest) ?s w = parse_store_loop env (del # rest) s' w'"
      "parsing env (db w) ?q (butlast (query_tree (db w) css)) (last (query_tree (db w) css)) TAG_GROUP_DONT_ADD False s' w'"
    by auto
  have "parse_store_loop env (del # rest) s' w' = Done ((True, finish_store s', rest), w')"
    using assms(8,9) by (subst parse_store_loop.simps) simp
  then have "tagsistant_querytree_parse_store env q path (query_tokens css @ del # rest) True w = Done ((True, finish_store s', rest), w')"
    using 1(1) by (simp add: tagsistant_querytree_parse_store_def Let_def)
  moreover have "q_tree (finish_store s') = query_tree (db w) css"
    using 1(2) assms(4) by (simp add: finish_store_def parsing_def query_tree_def)
  moreover have "q_valid (finish_store s')" "q_complete (finish_store s') \<longleftrightarrow> q_complete q \<or> strstr ''/@'' path"
      "store_inv env w'" "db w' = db w"
    using 1(2) by (auto simp: finish_store_def parsing_def split: if_splits)
  ultimately show ?thesis by blast
qed

subsection \<open>Syntax errors and the crash\<close>

lemma store_start:
  assumes "store_inv env w" "tags_plain (db w)" "\<forall>cs \<in> set css. \<forall>c \<in> set cs. criterion_ok c" "css \<noteq> []"
    and "q_dbi q" "\<not> q_do_reasoning q" "\<not> q_negate_next_tag q"
  shows "\<exists>q0 s' w'. tagsistant_querytree_parse_store env q path (query_tokens css @ rest) True w = parse_store_loop env rest s' w'
    \<and> q_valid q0 \<and> parsing env (db w) q0 (butlast (query_tree (db w) css)) (last (query_tree (db w) css)) TAG_GROUP_DONT_ADD False s' w'"
proof -
  let ?q1 = "if strstr ''/@'' path then q\<lparr>q_complete := True, q_do_reasoning := \<not> True \<and> \<not> strstr ''/@@'' path\<rparr> else q"
  let ?q = "?q1\<lparr>q_valid := True\<rparr>"
  let ?s = "\<lparr>ps_qtree = ?q, ps_done = [], ps_cur = [], ps_group = TAG_GROUP_DONT_ADD\<rparr>"
  have "parsing env (db w) ?q [] [] TAG_GROUP_DONT_ADD False ?s w"
    using assms by (simp add: parsing_def)
  from parse_query[OF this assms(3,4), of rest] show ?thesis
    by (intro exI[of _ ?q]) (simp add: tagsistant_querytree_parse_store_def Let_def)
qed

lemma loop_error:
  assumes "hd t \<noteq> CHR ''@''" "store_token env t ts s w = Done (Inl (e, s1), w1)"
  shows "parse_store_loop env (t # ts) s w = Done ((False, (finish_store s1)\<lparr>q_error_message := Some e\<rparr>, t # ts), w1)"
  using assms by (subst parse_store_loop.simps) auto

text \<open>The five ways to break a query, each after a well-formed beginning.\<close>

definition broken_ends :: "(string list \<times> string) list" where
  "broken_ends =
     [([''-'', ''-''], TAGSISTANT_ERROR_DOUBLE_NEGATION),
      ([''{'', ''{''], TAGSISTANT_ERROR_NESTED_TAG_GROUP),
      ([''}''], TAGSISTANT_ERROR_CLOSE_TAG_GROUP_NOT_OPENED),
      ([''{'', ''-''], TAGSISTANT_ERROR_NEGATION_INSIDE_TAG_GROUP),
      ([''+'', ''-'', ''t''], TAGSISTANT_ERROR_NEGATION_ON_FIRST_POSITION)]"

text \<open>The five ways a query breaks off, after which the loop stops with the message.\<close>

definition stopped :: "database \<Rightarrow> string \<Rightarrow> ((bool \<times> querytree \<times> string list) \<times> 'fs world) run \<Rightarrow> bool" where
  "stopped d m r \<longleftrightarrow> (\<exists>q' left w'. r = Done ((False, q', left), w') \<and> q_error_message q' = Some m \<and> q_valid q' \<and> db w' = d)"

lemma token_stops:
  assumes "hd t \<noteq> CHR ''@''" "store_token env t ts s w = Done (Inl (m, s'), w')" "q_valid (ps_qtree s')" "db w' = d"
  shows "stopped d m (parse_store_loop env (t # ts) s w)"
  using loop_error[OF assms(1,2)] assms(3,4) by (simp add: finish_store_def stopped_def)

lemma second_minus_stops:
  assumes "parsing env d q0 dn cur TAG_GROUP_DONT_ADD False s w" "q_valid q0"
  shows "stopped d TAGSISTANT_ERROR_DOUBLE_NEGATION (parse_store_loop env (''-'' # ''-'' # rest) s w)"
proof -
  obtain s2 where 1: "parse_store_loop env (''-'' # ''-'' # rest) s w = parse_store_loop env (''-'' # rest) s2 w"
      "parsing env d q0 dn cur TAG_GROUP_DONT_ADD True s2 w"
    using parse_marker(1)[OF assms(1), of "''-'' # rest"] by auto
  show ?thesis unfolding 1(1)
    by (rule token_stops[where s' = s2 and w' = w]) (use 1(2) assms(2) in \<open>auto simp: store_token_def parsing_def\<close>)
qed

lemma marker_in_group_stops:
  assumes "parsing env d q0 dn cur TAG_GROUP_DONT_ADD False s w" "q_valid q0"
  shows "stopped d TAGSISTANT_ERROR_NESTED_TAG_GROUP (parse_store_loop env (''{'' # ''{'' # rest) s w)"
    and "stopped d TAGSISTANT_ERROR_NEGATION_INSIDE_TAG_GROUP (parse_store_loop env (''{'' # ''-'' # rest) s w)"
proof -
  have open_group: "\<exists>s2. parse_store_loop env (''{'' # ts) s w = parse_store_loop env ts s2 w \<and>
      parsing env d q0 dn cur TAG_GROUP_ADD_NEW_NODE False s2 w" for ts
    using parse_marker(3)[OF assms(1), of ts] by auto
  obtain s2 where 1: "parse_store_loop env (''{'' # ''{'' # rest) s w = parse_store_loop env (''{'' # rest) s2 w"
      "parsing env d q0 dn cur TAG_GROUP_ADD_NEW_NODE False s2 w" using open_group by blast
  show "stopped d TAGSISTANT_ERROR_NESTED_TAG_GROUP (parse_store_loop env (''{'' # ''{'' # rest) s w)" unfolding 1(1)
    by (rule token_stops[where s' = s2 and w' = w]) (use 1(2) assms(2) in \<open>auto simp: store_token_def parsing_def\<close>)
  obtain s3 where 2: "parse_store_loop env (''{'' # ''-'' # rest) s w = parse_store_loop env (''-'' # rest) s3 w"
      "parsing env d q0 dn cur TAG_GROUP_ADD_NEW_NODE False s3 w" using open_group by blast
  show "stopped d TAGSISTANT_ERROR_NEGATION_INSIDE_TAG_GROUP (parse_store_loop env (''{'' # ''-'' # rest) s w)" unfolding 2(1)
    by (rule token_stops[where s' = s3 and w' = w]) (use 2(2) assms(2) in \<open>auto simp: store_token_def parsing_def\<close>)
qed

lemma unopened_group_stops:
  assumes "parsing env d q0 dn cur TAG_GROUP_DONT_ADD False s w" "q_valid q0"
  shows "stopped d TAGSISTANT_ERROR_CLOSE_TAG_GROUP_NOT_OPENED (parse_store_loop env (''}'' # rest) s w)"
  by (rule token_stops[where s' = s and w' = w]) (use assms in \<open>auto simp: store_token_def parsing_def\<close>)

lemma first_minus_stops:
  assumes "parsing env d q0 dn cur TAG_GROUP_DONT_ADD False s w" "q_valid q0"
  shows "stopped d TAGSISTANT_ERROR_NEGATION_ON_FIRST_POSITION (parse_store_loop env (''+'' # ''-'' # ''t'' # rest) s w)"
proof -
  obtain s2 where 1: "parse_store_loop env (''+'' # ''-'' # ''t'' # rest) s w = parse_store_loop env (''-'' # ''t'' # rest) s2 w"
      "parsing env d q0 (dn @ [cur]) [] TAG_GROUP_DONT_ADD False s2 w"
    using parse_marker(2)[OF assms(1), of "''-'' # ''t'' # rest"] by auto
  obtain s3 where 2: "parse_store_loop env (''-'' # ''t'' # rest) s2 w = parse_store_loop env (''t'' # rest) s3 w"
      "parsing env d q0 (dn @ [cur]) [] TAG_GROUP_DONT_ADD True s3 w"
    using parse_marker(1)[OF 1(2), of "''t'' # rest"] by auto
  have t: "\<not> is_triple_token ''t''" by (simp add: is_triple_token_def ends_dollar_def newline_def suffix_def)
  show ?thesis unfolding 1(1) 2(1)
    by (rule token_stops[where s' = "s3\<lparr>ps_qtree := (ps_qtree s3)\<lparr>q_negate_next_tag := False\<rparr>\<rparr>"
          and w' = "snd (tagsistant_sql_get_tag_id env (q_dbi (ps_qtree s3)) (Some ''t'') None None w)"])
      (use 2(2) assms(2) t in \<open>auto simp: store_token_def parsing_def store_tag_def store_place_def Let_def split_beta\<close>)
qed

text \<open>C36: A well-formed query continued with a second dash, a nested brace, a closing brace with
  none open, a dash inside braces, or a plus and a dash makes the parser return failure with the
  message for that error. The query is still marked valid, and the tables are unchanged.\<close>

theorem store_syntax_errors:
  assumes "store_inv env w" "tags_plain (db w)" "\<forall>cs \<in> set css. \<forall>c \<in> set cs. criterion_ok c" "css \<noteq> []"
    and "q_dbi q" "\<not> q_do_reasoning q" "\<not> q_negate_next_tag q" "(broken, message) \<in> set broken_ends"
  shows "\<exists>q' left w'. tagsistant_querytree_parse_store env q path (query_tokens css @ broken @ rest) True w = Done ((False, q', left), w')
    \<and> q_error_message q' = Some message \<and> q_valid q' \<and> db w' = db w"
proof -
  obtain q0 s w1 where 1: "tagsistant_querytree_parse_store env q path (query_tokens css @ broken @ rest) True w
      = parse_store_loop env (broken @ rest) s w1" "q_valid q0"
      "parsing env (db w) q0 (butlast (query_tree (db w) css)) (last (query_tree (db w) css)) TAG_GROUP_DONT_ADD False s w1"
    using store_start[OF assms(1-7), of path "broken @ rest"] by blast
  have "stopped (db w) message (parse_store_loop env (broken @ rest) s w1)"
    using assms(8) second_minus_stops[OF 1(3,2), of rest] marker_in_group_stops[OF 1(3,2), of rest]
      unopened_group_stops[OF 1(3,2), of rest] first_minus_stops[OF 1(3,2), of rest]
    unfolding broken_ends_def by auto
  then show ?thesis unfolding 1(1) by (simp add: stopped_def)
qed

text \<open>A plus inside an open tag group makes the daemon dereference a NULL pointer: the group
  stays open across the plus while the last node is forgotten, so the next tag is appended to a
  node that does not exist.\<close>

theorem plus_in_group_crashes:
  assumes "store_inv env w" "tags_plain (db w)" "atom_ok a" "atom_ok b"
    and "q_dbi q" "\<not> q_do_reasoning q" "\<not> q_negate_next_tag q"
  shows "tagsistant_querytree_parse_store env q path (''{'' # atom_tokens a @ ''+'' # atom_tokens b @ rest) True w = Segv"
proof -
  let ?more = "''+'' # atom_tokens b @ rest"
  obtain q0 s w1 where 1: "tagsistant_querytree_parse_store env q path (''{'' # atom_tokens a @ ?more) True w
      = parse_store_loop env (''{'' # atom_tokens a @ ?more) s w1"
      "parsing env (db w) q0 (butlast (query_tree (db w) [[]])) (last (query_tree (db w) [[]])) TAG_GROUP_DONT_ADD False s w1"
    using store_start[OF assms(1,2) _ _ assms(5-7), of "[[]]" path "''{'' # atom_tokens a @ ?more"] by auto
  obtain s2 where 2: "parse_store_loop env (''{'' # atom_tokens a @ ?more) s w1 = parse_store_loop env (atom_tokens a @ ?more) s2 w1"
      "parsing env (db w) q0 (butlast (query_tree (db w) [[]])) (last (query_tree (db w) [[]])) TAG_GROUP_ADD_NEW_NODE False s2 w1"
    using parse_marker(3)[OF 1(2) refl] by blast
  obtain s3 w3 cur where 3: "parse_store_loop env (atom_tokens a @ ?more) s2 w1 = parse_store_loop env ?more s3 w3"
      "parsing env (db w) q0 (butlast (query_tree (db w) [[]])) cur TAG_GROUP_ADD_TO_NODE False s3 w3"
    using parse_atom[OF 2(2) assms(3), of ?more] by (auto simp: group_after_def)
  obtain s4 where 4: "parse_store_loop env ?more s3 w3 = parse_store_loop env (atom_tokens b @ rest) s4 w3"
      "parsing env (db w) q0 (butlast (query_tree (db w) [[]]) @ [cur]) [] TAG_GROUP_ADD_TO_NODE False s4 w3"
    using parse_marker(2)[OF 3(2)] by blast
  have toks: "atom_tokens b @ rest = atom_first b # tl (atom_tokens b) @ rest" by (cases b) (simp_all add: atom_first_def)
  have f: "atom_first b \<notin> {'''', ''-'', ''+'', ''{'', ''}''}" "hd (atom_first b) \<noteq> CHR ''@''"
    using atom_first_ok[OF assms(4)] by auto
  have p: "store_inv env w3" "tags_plain (db w3)" "q_dbi (ps_qtree s4)" "ps_cur s4 = []" "ps_group s4 = TAG_GROUP_ADD_TO_NODE"
    "\<not> q_negate_next_tag (ps_qtree s4)"
    using 4(2) by (simp_all add: parsing_def)
  obtain q' w' where "store_tag env (atom_first b) (tl (atom_tokens b) @ rest) (ps_qtree s4) w3
      = ((atom_data (db w3) False b, q', last (atom_tokens b) # rest), w')" "\<not> q_negate_next_tag q'"
    using store_tag_atom[OF assms(4) p(1,2,3), of rest] p(6) by auto
  then have "store_token env (atom_first b) (tl (atom_tokens b) @ rest) s4 w3 = Segv"
    using f(1) p(4,5) by (simp add: store_token_def store_place_def)
  then have "parse_store_loop env (atom_tokens b @ rest) s4 w3 = Segv"
    unfolding toks using f by (subst parse_store_loop.simps) simp
  then show ?thesis using 1(1) 2(1) 3(1) 4(1) by simp
qed

text \<open>What keeps the parser from the crash.\<close>

definition crash_free :: "string list \<Rightarrow> parse_state \<Rightarrow> bool" where
  "crash_free tokens s \<longleftrightarrow>
     ''+'' \<notin> set tokens \<and> (ps_group s = TAG_GROUP_ADD_TO_NODE \<longrightarrow> ps_cur s \<noteq> []) \<or>
     ''{'' \<notin> set tokens \<and> ps_group s = TAG_GROUP_DONT_ADD"

lemma store_triple_subset: "set (snd (snd (store_triple t ts q))) \<subseteq> insert t (set ts)"
  by (auto simp: store_triple_def Let_def split_beta split: list.splits)

lemma store_tag_subset: "set (snd (snd (fst (store_tag env t ts q w)))) \<subseteq> insert t (set ts)"
  using store_triple_subset[of t ts q] by (simp add: store_tag_def Let_def split_beta)

lemma set_tl_store_triple: "set (tl (snd (snd (store_triple t ts q)))) \<subseteq> set ts"
  by (auto simp: store_triple_def Let_def split_beta split: list.splits)

lemma set_tl_store_tag: "set (tl (snd (snd (fst (store_tag env t ts q w))))) \<subseteq> set ts"
  using set_tl_store_triple[of t ts q] by (simp add: store_tag_def Let_def split_beta)

lemma modify_last_Nil_iff [simp]: "modify_last f xs \<noteq> []"
  by (simp add: modify_last_def)

lemma store_place_cases:
  assumes "ps_group s = TAG_GROUP_ADD_TO_NODE \<longrightarrow> ps_cur s \<noteq> []"
  shows "(\<exists>e s1 w1. store_place env a s w = Done (Inl (e, s1), w1)) \<or>
    (\<exists>s1 w1. store_place env a s w = Done (Inr s1, w1) \<and> ps_cur s1 \<noteq> [] \<and> ps_group s1 = group_after (ps_group s))"
proof (cases "q_negate_next_tag (ps_qtree s)")
  case True
  then show ?thesis by (simp add: store_place_def Let_def split_beta group_after_def)
next
  case False
  then show ?thesis using assms by (simp add: store_place_def Let_def split_beta group_after_def)
qed

lemma store_token_cases:
  assumes "crash_free (t # ts) s"
  shows "(\<exists>e s1 w1. store_token env t ts s w = Done (Inl (e, s1), w1)) \<or>
    (\<exists>s1 rest w1. store_token env t ts s w = Done (Inr (s1, rest), w1) \<and> crash_free (tl rest) s1)"
proof -
  consider (tag) "t \<notin> {'''', ''-'', ''+'', ''{'', ''}''}" | (mark) "t \<in> {'''', ''-'', ''+'', ''{'', ''}''}" by blast
  then show ?thesis
  proof cases
    case tag
    obtain a q1 rest w1 where st: "store_tag env t ts (ps_qtree s) w = ((a, q1, rest), w1)" by (metis prod_cases3 surj_pair)
    have sub: "set (tl rest) \<subseteq> set ts" using set_tl_store_tag[of env t ts "ps_qtree s" w] st by simp
    have g: "ps_group (s\<lparr>ps_qtree := q1\<rparr>) = TAG_GROUP_ADD_TO_NODE \<longrightarrow> ps_cur (s\<lparr>ps_qtree := q1\<rparr>) \<noteq> []"
      using assms by (auto simp: crash_free_def)
    have tok: "store_token env t ts s w = run_bind (store_place env a (s\<lparr>ps_qtree := q1\<rparr>) w1)
        (\<lambda>(r, w2). Done (map_sum id (\<lambda>s2. (s2, rest)) r, w2))"
      using tag st by (simp add: store_token_def)
    from store_place_cases[OF g, of env a w1] consider
        e s2 w2 where "store_place env a (s\<lparr>ps_qtree := q1\<rparr>) w1 = Done (Inl (e, s2), w2)"
      | s2 w2 where "store_place env a (s\<lparr>ps_qtree := q1\<rparr>) w1 = Done (Inr s2, w2)" "ps_cur s2 \<noteq> []"
          "ps_group s2 = group_after (ps_group s)"
      by auto
    then show ?thesis
    proof cases
      case 1
      then show ?thesis using tok by simp
    next
      case 2
      then have "crash_free (tl rest) s2"
        using assms sub by (auto simp: crash_free_def group_after_def)
      then show ?thesis using tok 2(1) by simp
    qed
  next
    case mark
    then show ?thesis using assms
      by (auto simp: store_token_def crash_free_def Let_def)
  qed
qed

lemma crash_free_last_tag [simp]:
  "crash_free ts (s\<lparr>ps_qtree := q\<rparr>) = crash_free ts s"
  by (simp add: crash_free_def)

lemma loop_returns: "crash_free tokens s \<Longrightarrow> \<exists>r. parse_store_loop env tokens s w = Done r"
proof (induction env tokens s w rule: parse_store_loop.induct)
  case (1 env tokens s w)
  show ?case
  proof (cases tokens)
    case Nil
    have "parse_store_loop env [] s w = Done ((True, finish_store s, []), w)"
      by (subst parse_store_loop.simps) simp
    then show ?thesis using Nil by blast
  next
    case (Cons t ts)
    show ?thesis
    proof (cases "t \<noteq> '''' \<and> hd t = CHR ''@''")
      case True
      then have "parse_store_loop env (t # ts) s w = Done ((True, finish_store s, ts), w)"
        by (subst parse_store_loop.simps) simp
      then show ?thesis using Cons by blast
    next
      case False
      from "1.prems" have cf: "crash_free (t # ts) s" by (simp add: Cons)
      from store_token_cases[OF cf, of env w] consider
          e s1 w1 where "store_token env t ts s w = Done (Inl (e, s1), w1)"
        | s1 rest w1 where "store_token env t ts s w = Done (Inr (s1, rest), w1)" "crash_free (tl rest) s1"
        by blast
      then show ?thesis
      proof cases
        case 1
        then show ?thesis using Cons False by (subst parse_store_loop.simps) auto
      next
        case 2
        have "\<exists>r. parse_store_loop env (tl rest) (s1\<lparr>ps_qtree := (ps_qtree s1)\<lparr>q_last_tag := Some (hd rest)\<rparr>\<rparr>) w1 = Done r"
          using "1.IH"[OF Cons False 2(1) refl refl refl] 2(2) by simp
        then show ?thesis using Cons False 2(1) by (subst parse_store_loop.simps) auto
      qed
    qed
  qed
qed

text \<open>C37: That is the only crash: the parser of a \<^verbatim>\<open>store/\<close> query returns, with or without
  reasoning, whatever the tokens are, if they do not contain both a plus and an opening
  brace.\<close>

theorem parse_store_returns:
  assumes "''+'' \<notin> set tokens \<or> ''{'' \<notin> set tokens"
  shows "\<exists>r. tagsistant_querytree_parse_store env q path tokens disable_reasoner w = Done r"
  unfolding tagsistant_querytree_parse_store_def Let_def
  by (rule loop_returns) (use assms in \<open>simp add: crash_free_def\<close>)

subsection \<open>The other kinds of query\<close>

definition tagsistant_querytree_parse_tags :: "querytree \<Rightarrow> string list \<Rightarrow> querytree \<times> string list" where
  "tagsistant_querytree_parse_tags q tokens =
     (case tokens of [] \<Rightarrow> (q, [])
      | t # ts \<Rightarrow>
          if is_triple_token t then
            let q1 = q\<lparr>q_first_tag := None, q_second_tag := None, q_last_tag := None, q_namespace := Some t\<rparr>
            in case ts of [] \<Rightarrow> (q1, [t])
               | k # ts1 \<Rightarrow> (case ts1 of [] \<Rightarrow> (q1\<lparr>q_key := Some k\<rparr>, [k])
                   | v # ts2 \<Rightarrow> (q1\<lparr>q_key := Some k, q_value := Some v\<rparr>, v # ts2))
          else
            let q1 = q\<lparr>q_namespace := None, q_key := None, q_value := None, q_first_tag := Some t\<rparr>
            in case ts of [] \<Rightarrow> (q1, []) | t2 # ts1 \<Rightarrow> (q1\<lparr>q_second_tag := Some t2\<rparr>, t2 # ts1))"

text \<open>A triple in a \<^verbatim>\<open>relations/\<close> path has no operator.\<close>

definition tagsistant_querytree_parse_relations_consume_triple ::
    "querytree \<Rightarrow> string \<Rightarrow> string list \<Rightarrow> bool \<Rightarrow> querytree \<times> string list" where
  "tagsistant_querytree_parse_relations_consume_triple q t ts is_related =
     (let set3 = (\<lambda>n k v. if is_related
          then q\<lparr>q_related_namespace := n, q_related_key := k, q_related_value := v\<rparr>
          else q\<lparr>q_namespace := n, q_key := k, q_value := v\<rparr>)
      in case ts of [] \<Rightarrow> (set3 (Some t) None None, [t])
         | k # ts1 \<Rightarrow> (case ts1 of [] \<Rightarrow> (set3 (Some t) (Some k) None, [k])
             | v # ts2 \<Rightarrow>
                 let q1 = set3 (Some t) (Some k) (Some v)
                 in (if is_related then q1\<lparr>q_complete := True\<rparr> else q1, v # ts2)))"

text \<open>The part after the left tag, whose last token is the current one.\<close>

definition parse_right_tag :: "querytree \<Rightarrow> string list \<Rightarrow> querytree \<times> string list" where
  "parse_right_tag q tokens =
     (case tokens of [] \<Rightarrow> (q, [])
      | t # ts \<Rightarrow>
          let (q1, rest) = (if is_triple_token t
                then tagsistant_querytree_parse_relations_consume_triple q t ts True
                else (q\<lparr>q_second_tag := Some t, q_complete := True\<rparr>, t # ts))
          in (if tl rest \<noteq> [] then q1\<lparr>q_type := QTYPE_MALFORMED\<rparr> else q1, rest))"

text \<open>The part after the left tag: a relation the pattern accepts, and the right tag.\<close>

definition parse_relation_and_right :: "querytree \<Rightarrow> string list \<Rightarrow> bool \<times> querytree \<times> string list" where
  "parse_relation_and_right q tokens =
     (case tokens of [] \<Rightarrow> (True, q, [])
      | r # rest \<Rightarrow>
          if \<not> relation_pattern r then (False, q, r # rest)
          else let (q1, cur) = parse_right_tag (q\<lparr>q_relation := Some r\<rparr>) rest in (True, q1, tl cur))"

definition tagsistant_querytree_parse_relations :: "querytree \<Rightarrow> string list \<Rightarrow> bool \<times> querytree \<times> string list" where
  "tagsistant_querytree_parse_relations q tokens =
     (case tokens of [] \<Rightarrow> (True, q, [])
      | t # ts \<Rightarrow>
          let (q1, cur) = (if is_triple_token t
                then tagsistant_querytree_parse_relations_consume_triple q t ts False
                else (q\<lparr>q_first_tag := Some t\<rparr>, t # ts))
          in parse_relation_and_right q1 (tl cur))"

definition tagsistant_querytree_parse_stats :: "querytree \<Rightarrow> string list \<Rightarrow> querytree" where
  "tagsistant_querytree_parse_stats q tokens =
     (case tokens of [] \<Rightarrow> q | t # ts \<Rightarrow> q\<lparr>q_stats_path := Some t, q_complete := True\<rparr>)"

definition tagsistant_querytree_parse_alias :: "querytree \<Rightarrow> string list \<Rightarrow> querytree" where
  "tagsistant_querytree_parse_alias q tokens =
     (case tokens of [] \<Rightarrow> q
      | t # ts \<Rightarrow> let q1 = q\<lparr>q_alias := Some t\<rparr> in if ts \<noteq> [] then q1\<lparr>q_valid := False\<rparr> else q1)"

subsection \<open>Concrete instances\<close>

lemmas triple_token_eval = is_triple_token_def ends_dollar_def suffix_to_prefix newline_def

definition connected :: "string \<Rightarrow> querytree" where
  "connected p = (new_querytree p)\<lparr>q_dbi := True\<rparr>"

lemma connected_simps [simp]: "q_dbi (connected p)" "\<not> q_do_reasoning (connected p)" "\<not> q_negate_next_tag (connected p)"
  by (simp_all add: connected_def new_querytree_def)

definition one_triple_tag :: database where
  "one_triple_tag = insert_tag ''t:'' ''k'' ''v'' (insert_tag ''a'' '''' '''' empty_db)"

lemma one_triple_tag_simps [simp]: "db_ok one_triple_tag" "tags_plain one_triple_tag"
  "tag_id_of one_triple_tag (''a'', '''', '''') = 1" "tag_id_of one_triple_tag (''b'', '''', '''') = 0"
  "tag_id_of one_triple_tag (''t:'', ''k'', ''v'') = 2"
proof -
  have t: "tags one_triple_tag = [\<lparr>tr_id = 1, tr_name = ''a'', tr_key = '''', tr_value = ''''\<rparr>,
      \<lparr>tr_id = 2, tr_name = ''t:'', tr_key = ''k'', tr_value = ''v''\<rparr>]" "tags_seq one_triple_tag = 2"
    by (simp_all add: one_triple_tag_def empty_db_def insert_tag_def tag_triple_def)
  show "db_ok one_triple_tag" by (simp add: one_triple_tag_def db_ok_statements db_ok_empty)
  show "tags_plain one_triple_tag" by (simp add: tags_plain_def plain_def t triple_token_eval)
  show "tag_id_of one_triple_tag (''a'', '''', '''') = 1" "tag_id_of one_triple_tag (''b'', '''', '''') = 0"
    "tag_id_of one_triple_tag (''t:'', ''k'', ''v'') = 2"
    by (simp_all add: tag_id_of_def t tag_triple_def)
qed

theorem parse_store_roundtrip_witness:
  "\<exists>q' w'. tagsistant_querytree_parse_store sample_env (connected ''/store'') ''/store''
      [''{'', ''a'', ''t:'', ''k'', ''eq'', ''v'', ''}'', ''-'', ''b'', ''+'', ''@'', ''f''] True (sample_world one_triple_tag [])
      = Done ((True, q', [''f'']), w')
    \<and> map (map chain_ids) (q_tree q') = [[[1, 2]], []]"
  using parse_store_roundtrip[of sample_env "sample_world one_triple_tag []"
      "[[Criterion [Flat ''a'', Triple ''t:'' ''k'' TAGSISTANT_EQUAL_TO ''v''] [Flat ''b'']], []]"
      "connected ''/store''" "''@''" "''/store''" "[''f'']"]
  by (auto simp: criterion_ok_def plain_def triple_token_eval criterion_tokens_def query_tree_def criterion_node_def chain_ids_data
      new_and_data_def)

theorem store_syntax_errors_witness:
  "\<exists>q' left w'. tagsistant_querytree_parse_store sample_env (connected ''/store'') ''/store'' [''a'', ''-'', ''-'', ''b''] True
       (sample_world one_triple_tag []) = Done ((False, q', left), w') \<and> q_error_message q' = Some TAGSISTANT_ERROR_DOUBLE_NEGATION"
  using store_syntax_errors[of sample_env "sample_world one_triple_tag []" "[[Criterion [Flat ''a''] []]]" "connected ''/store''"
      "[''-'', ''-'']" TAGSISTANT_ERROR_DOUBLE_NEGATION "''/store''" "[''b'']"]
  by (auto simp: criterion_ok_def plain_def triple_token_eval criterion_tokens_def broken_ends_def)

theorem plus_in_group_crashes_witness:
  "tagsistant_querytree_parse_store sample_env (connected ''/store'') ''/store'' [''{'', ''a'', ''+'', ''b'', ''}'', ''@''] True
     (sample_world one_triple_tag []) = Segv"
  using plus_in_group_crashes[of sample_env "sample_world one_triple_tag []" "Flat ''a''" "Flat ''b''" "connected ''/store''" "''/store''" "[''}'', ''@'']"]
  by (simp add: plain_def triple_token_eval)

theorem parse_store_returns_witness:
  "\<exists>r. tagsistant_querytree_parse_store sample_env (connected ''/store'') ''/store'' [''{'', ''a'', ''b'', ''}'', ''@''] False
     (sample_world one_triple_tag []) = Done r"
  by (rule parse_store_returns) simp

end
