(* ===== verification/Path_Resolution.thy ===== *)
theory Path_Resolution
  imports Path_Parser
begin

section \<open>From a path to a query tree\<close>

text \<open>
  The rest of \<^verbatim>\<open>src/src/path_resolution.c\<close>: the expansion of aliases, the inode in a path,
  the guess of an inode from a set of tags, the paths under \<^verbatim>\<open>archive/\<close>, and
  \<^verbatim>\<open>tagsistant_querytree_new()\<close> and \<^verbatim>\<open>_destroy()\<close>, which every file system operation
  starts and ends with. The caches of query trees and and-sets are compiled out.
\<close>

subsection \<open>Alias expansion\<close>

text \<open>
  The replacement of the callback, and one replacement: a pattern free of special characters is
  replaced literally, any other is up to GRegex; the outer \<open>None\<close> is a NULL result.
\<close>

definition tagsistant_expand_path_callback :: "dbi_conn \<Rightarrow> 'fs world \<Rightarrow> string \<Rightarrow> string" where
  "tagsistant_expand_path_callback conn w matched = safe_string (tagsistant_sql_alias_get conn (Some (tl matched)) w)"

definition expand_once :: "'fs env \<Rightarrow> dbi_conn \<Rightarrow> 'fs world \<Rightarrow> string \<Rightarrow> string \<Rightarrow> string option" where
  "expand_once env conn w p s =
     (if rx_plain p then Some (replace_literal p (tagsistant_expand_path_callback conn w p) s)
      else rx_replace_eval env p s (tagsistant_expand_path_callback conn w))"

text \<open>The loop may run forever, which is the value \<open>None\<close>; \<open>Some None\<close> is a NULL path.\<close>

partial_function (option) expand_loop :: "'fs env \<Rightarrow> dbi_conn \<Rightarrow> 'fs world \<Rightarrow> string \<Rightarrow> string option option" where
  "expand_loop env conn w s =
     (case alias_rx s of None \<Rightarrow> Some (Some s)
      | Some p \<Rightarrow> (case expand_once env conn w p s of None \<Rightarrow> Some None | Some t \<Rightarrow> expand_loop env conn w t))"

declare expand_loop.simps [code]

definition tagsistant_expand_path :: "'fs env \<Rightarrow> dbi_conn \<Rightarrow> 'fs world \<Rightarrow> string \<Rightarrow> string run" where
  "tagsistant_expand_path env conn w path =
     (case expand_loop env conn w path of None \<Rightarrow> Hang | Some None \<Rightarrow> Segv | Some (Some s) \<Rightarrow> Done (compress_slashes s))"

subsection \<open>The inode in a path, and the guess of an inode\<close>

definition tagsistant_inode_extract_from_path :: "gchars \<Rightarrow> tagsistant_inode" where
  "tagsistant_inode_extract_from_path path =
     (case path of None \<Rightarrow> 0
      | Some p \<Rightarrow> (case inode_rx_1 p of Some d \<Rightarrow> strtoul32 d
          | None \<Rightarrow> (case inode_rx_2 p of Some d \<Rightarrow> strtoul32 d | None \<Rightarrow> 0)))"

definition tagsistant_check_single_tagging :: "'fs env \<Rightarrow> and_data \<Rightarrow> dbi_conn \<Rightarrow> string \<Rightarrow> 'fs world \<Rightarrow> tagsistant_inode" where
  "tagsistant_check_single_tagging env a conn objectname w =
     (if an_namespace a \<noteq> None \<and> strlen (an_namespace a) \<noteq> 0 \<and> an_operator a \<noteq> TAGSISTANT_EQUAL_TO then 1
      else tagsistant_return_integer env conn (select_tagged_named objectname (sint (an_tag_id a)) (db w)) 0)"

text \<open>The tag itself, then its related tags until one matches.\<close>

fun first_match :: "'fs env \<Rightarrow> dbi_conn \<Rightarrow> string \<Rightarrow> 'fs world \<Rightarrow> and_data list \<Rightarrow> tagsistant_inode" where
  "first_match env conn name w [] = 0"
| "first_match env conn name w (a # as) =
     (let i = tagsistant_check_single_tagging env a conn name w
      in if i \<noteq> 0 then i else first_match env conn name w as)"

definition all_inode :: "'fs env \<Rightarrow> dbi_conn \<Rightarrow> string \<Rightarrow> 'fs world \<Rightarrow> tagsistant_inode" where
  "all_inode env conn name w =
     (let i = tagsistant_inode_extract_from_path (Some name)
      in if i \<noteq> 0 then i
         else tagsistant_return_integer env conn (select_inodes (\<lambda>r. ob_name r = name) (db w)) 0)"

text \<open>The first step: \<open>Inl i\<close> leaves the function with \<open>i\<close>, \<open>Inr g\<close> ends the chain with the guess \<open>g\<close>.\<close>

fun guess_walk :: "'fs env \<Rightarrow> dbi_conn \<Rightarrow> string \<Rightarrow> 'fs world \<Rightarrow> tagsistant_inode \<Rightarrow> qtree_and_node list
    \<Rightarrow> tagsistant_inode + tagsistant_inode" where
  "guess_walk env conn name w guessed [] = Inr guessed"
| "guess_walk env conn name w guessed (nd # nodes) =
     (if an_tag (and_data nd) = Some ''ALL'' then Inl (all_inode env conn name w)
      else let single = first_match env conn name w (chain_data nd);
               guessed' = (if guessed = 0 then single else guessed)
           in if single = 0 \<and> \<not> an_negate (and_data nd) then Inl 0
              else if guessed' \<noteq> single then Inl 0
              else guess_walk env conn name w guessed' nodes)"

text \<open>
  The second step starts from the first node of the set, which must exist, and looks at the
  first node of its negated chain alone: that node has no \<^verbatim>\<open>next\<close>.
\<close>

definition tagsistant_guess_inode_from_and_set ::
    "'fs env \<Rightarrow> qtree_and_node list \<Rightarrow> dbi_conn \<Rightarrow> string \<Rightarrow> 'fs world \<Rightarrow> tagsistant_inode run" where
  "tagsistant_guess_inode_from_and_set env and_set conn name w =
     (case guess_walk env conn name w 0 and_set of
        Inl i \<Rightarrow> Done i
      | Inr guessed \<Rightarrow>
          (case and_set of [] \<Rightarrow> Segv
           | nd # _ \<Rightarrow>
               (case and_negated nd of None \<Rightarrow> Done guessed
                | Some ng \<Rightarrow> Done (if first_match env conn name w (chain_data ng) \<noteq> 0 then 0 else guessed))))"

fun guess_from_tree :: "'fs env \<Rightarrow> qtree_and_node list list \<Rightarrow> dbi_conn \<Rightarrow> string \<Rightarrow> 'fs world \<Rightarrow> tagsistant_inode run" where
  "guess_from_tree env [] conn name w = Done 0"
| "guess_from_tree env (and_set # sets) conn name w =
     run_bind (tagsistant_guess_inode_from_and_set env and_set conn name w)
       (\<lambda>i. if i \<noteq> 0 then Done i else guess_from_tree env sets conn name w)"

text \<open>The check the handlers make: sets the flags, and is the value of the \<^verbatim>\<open>exists\<close> flag.\<close>

definition first_element :: "string \<Rightarrow> string" where
  "first_element s = takeWhile (\<lambda>c. c \<noteq> CHR ''/'') s"

definition tagsistant_querytree_check_tagging_consistency :: "'fs env \<Rightarrow> querytree \<Rightarrow> 'fs world \<Rightarrow> (bool \<times> querytree) run" where
  "tagsistant_querytree_check_tagging_consistency env q w =
     (case q_object_path q of
        None \<Rightarrow> Done (False, q\<lparr>q_exists := False\<rparr>)
      | Some p \<Rightarrow>
          if p = '''' then Done (True, q\<lparr>q_exists := True\<rparr>)
          else
            let q1 = (if CHR ''/'' \<in> set p then q else q\<lparr>q_is_taggable := True\<rparr>)
            in run_bind (guess_from_tree env (q_tree q) (q_dbi q) (first_element p) w)
                 (\<lambda>i. Done (i \<noteq> 0, q1\<lparr>q_exists := (i \<noteq> 0)\<rparr>)))"

subsection \<open>Paths under archive/\<close>

definition TAGSISTANT_ARCHIVE_DEPTH :: "32 word" where
  "TAGSISTANT_ARCHIVE_DEPTH = 1000"

definition archive_hierarchy :: "'fs env \<Rightarrow> tagsistant_inode \<Rightarrow> string" where
  "archive_hierarchy env inode =
     archive env @ concat (map (\<lambda>c. [CHR ''/'', c]) (rev (fmt_u (inode mod TAGSISTANT_ARCHIVE_DEPTH))))"

definition tagsistant_querytree_rebuild_paths :: "'fs env \<Rightarrow> querytree \<Rightarrow> 'fs world \<Rightarrow> querytree \<times> 'fs world" where
  "tagsistant_querytree_rebuild_paths env q w =
     (if q_inode q = 0 then (q, w)
      else
        let dir = archive_hierarchy env (q_inode q);
            name = fmt_d (q_inode q) @ ''___'' @ printf_s (q_object_path q)
        in (q\<lparr>q_archive_path := Some name, q_full_archive_path := Some (dir @ ''/'' @ name)\<rparr>,
            w\<lparr>fs := os_mkdir_with_parents (sys env) dir (fs w)\<rparr>))"

definition tagsistant_querytree_set_object_path :: "'fs env \<Rightarrow> querytree \<Rightarrow> gchars \<Rightarrow> 'fs world \<Rightarrow> querytree \<times> 'fs world" where
  "tagsistant_querytree_set_object_path env q p w =
     (case p of None \<Rightarrow> (q, w)
      | Some s \<Rightarrow> tagsistant_querytree_rebuild_paths env (q\<lparr>q_object_path := Some s\<rparr>) w)"

definition tagsistant_querytree_set_inode :: "'fs env \<Rightarrow> querytree \<Rightarrow> tagsistant_inode \<Rightarrow> 'fs world \<Rightarrow> querytree \<times> 'fs world" where
  "tagsistant_querytree_set_inode env q i w =
     (if i = 0 then (q, w) else tagsistant_querytree_rebuild_paths env (q\<lparr>q_inode := i\<rparr>) w)"

subsection \<open>Building the query tree\<close>

definition TAGSISTANT_ERROR_MALFORMED_QUERY :: string where
  "TAGSISTANT_ERROR_MALFORMED_QUERY = ''Syntax error: your query is malformed'' @ newline"

definition guess_type :: "string \<Rightarrow> query_type" where
  "guess_type t =
     (if t = '''' then QTYPE_ROOT
      else if t = ''tags'' then QTYPE_TAGS
      else if t = ''archive'' then QTYPE_ARCHIVE
      else if t = ''relations'' then QTYPE_RELATIONS
      else if t = ''stats'' then QTYPE_STATS
      else if t = ''store'' then QTYPE_STORE
      else if t = ''alias'' then QTYPE_ALIAS
      else QTYPE_MALFORMED)"

text \<open>The object of an \<^verbatim>\<open>archive/\<close> path.\<close>

definition archive_object :: "'fs env \<Rightarrow> querytree \<Rightarrow> string list \<Rightarrow> 'fs world \<Rightarrow> querytree \<times> 'fs world" where
  "archive_object env q tokens w =
     (let p = g_strjoinv (CHR ''/'') tokens;
          i = tagsistant_inode_extract_from_path (Some p);
          q1 = q\<lparr>q_object_path := Some p, q_inode := i\<rparr>;
          (q2, w1) = (if i \<noteq> 0
            then tagsistant_querytree_set_inode env (q1\<lparr>q_object_path := Some (inode_rx_1_strip p)\<rparr>) i w
            else (q1, w));
          op = printf_s (q_object_path q2)
      in (if op = ''''
          then q2\<lparr>q_archive_path := Some '''', q_full_archive_path := Some (archive env)\<rparr>
          else q2\<lparr>q_archive_path := Some op, q_full_archive_path := Some (archive env @ ''/'' @ op)\<rparr>, w1))"

text \<open>
  The object of a complete \<^verbatim>\<open>store/\<close> path. An inode in the path is taken as it is: the
  loop that checks it against the tags calls \<^verbatim>\<open>tagsistant_querytree_set_inode(qtree, 0)\<close>,
  which does nothing, so the loop has no effect on the state.
\<close>

definition store_inode :: "'fs env \<Rightarrow> querytree \<Rightarrow> string list \<Rightarrow> 'fs world \<Rightarrow> querytree run" where
  "store_inode env q tokens w =
     (let p = g_strjoinv (CHR ''/'') tokens;
          i = tagsistant_inode_extract_from_path (Some p);
          q1 = q\<lparr>q_object_path := Some p, q_inode := i\<rparr>
      in if i = 0
         then if p = '''' then Done q1
              else run_bind (guess_from_tree env (q_tree q1) (q_dbi q1) (hd tokens) w) (\<lambda>g. Done (q1\<lparr>q_inode := g\<rparr>))
         else let q2 = q1\<lparr>q_object_path := Some (inode_rx_1_strip p)\<rparr>
              in Done (fst (tagsistant_querytree_set_inode env q2 0 w)))"

definition store_finish :: "'fs env \<Rightarrow> querytree \<Rightarrow> 'fs world \<Rightarrow> querytree \<times> 'fs world" where
  "store_finish env q w =
     (let (q1, w1) = tagsistant_querytree_set_inode env q (q_inode q) w
      in (if strlen (q_object_path q1) \<noteq> 0
          then q1\<lparr>q_points_to_object := True, q_valid := True, q_complete := True\<rparr> else q1, w1))"

definition store_object :: "'fs env \<Rightarrow> querytree \<Rightarrow> string list \<Rightarrow> 'fs world \<Rightarrow> (querytree \<times> 'fs world) run" where
  "store_object env q tokens w = run_bind (store_inode env q tokens w) (\<lambda>q1. Done (store_finish env q1 w))"

definition points_to_object :: "querytree \<Rightarrow> bool" where
  "points_to_object q \<longleftrightarrow>
     (q_type q = QTYPE_ARCHIVE \<or> q_type q = QTYPE_STORE \<and> q_complete q \<and> q_object_path q \<noteq> None) \<and>
     strlen (q_object_path q) > 0"

text \<open>The label \<^verbatim>\<open>RETURN\<close>.\<close>

definition qtree_return :: "querytree \<Rightarrow> querytree" where
  "qtree_return q =
     (if q_type q = QTYPE_MALFORMED \<and> q_error_message q = None
      then q\<lparr>q_error_message := Some TAGSISTANT_ERROR_MALFORMED_QUERY\<rparr> else q)"

text \<open>The parsing of the tokens after the first: \<open>False\<close> jumps to \<^verbatim>\<open>RETURN\<close>.\<close>

definition parse_tokens :: "'fs env \<Rightarrow> querytree \<Rightarrow> string list \<Rightarrow> bool \<Rightarrow> 'fs world
    \<Rightarrow> ((bool \<times> querytree \<times> string list) \<times> 'fs world) run" where
  "parse_tokens env q tokens disable_reasoner w =
     (case q_type q of
        QTYPE_STORE \<Rightarrow> tagsistant_querytree_parse_store env q (q_full_path q) tokens disable_reasoner w
      | QTYPE_TAGS \<Rightarrow> (let (q1, ts) = tagsistant_querytree_parse_tags q tokens in Done ((True, q1, ts), w))
      | QTYPE_RELATIONS \<Rightarrow> (let (_, q1, ts) = tagsistant_querytree_parse_relations q tokens in Done ((True, q1, ts), w))
      | QTYPE_STATS \<Rightarrow> Done ((True, tagsistant_querytree_parse_stats q tokens, tokens), w)
      | QTYPE_ALIAS \<Rightarrow> Done ((True, tagsistant_querytree_parse_alias q tokens, tokens), w)
      | _ \<Rightarrow> Done ((True, q, tokens), w))"

definition resolve_object :: "'fs env \<Rightarrow> querytree \<Rightarrow> string list \<Rightarrow> 'fs world \<Rightarrow> (querytree \<times> 'fs world) run" where
  "resolve_object env q tokens w =
     run_bind (if q_type q = QTYPE_ARCHIVE then Done (archive_object env q tokens w)
               else if q_type q = QTYPE_STORE \<and> q_complete q then store_object env q tokens w
               else Done (q, w))
       (\<lambda>(q1, w1). Done (q1\<lparr>q_points_to_object := points_to_object q1\<rparr>, w1))"

text \<open>Everything after the connection: expansion, splitting, parsing.\<close>

definition resolve_path :: "'fs env \<Rightarrow> querytree \<Rightarrow> bool \<Rightarrow> 'fs world \<Rightarrow> (querytree \<times> 'fs world) run" where
  "resolve_path env q disable_reasoner w =
     run_bind (if strstr ''/@'' (q_full_path q) then tagsistant_expand_path env (q_dbi q) w (q_full_path q)
               else Done (q_full_path q))
       (\<lambda>expanded.
          let q1 = q\<lparr>q_expanded_full_path := expanded\<rparr>
          in case tl (g_strsplit (CHR ''/'') 512 expanded) of
               [] \<Rightarrow> Segv
             | t # ts \<Rightarrow>
                 let q2 = q1\<lparr>q_type := guess_type t\<rparr>
                 in if q_type q2 = QTYPE_MALFORMED then Done (qtree_return q2, w)
                    else run_bind (parse_tokens env q2 ts disable_reasoner w)
                      (\<lambda>((ok, q3, rest), w3).
                         if \<not> ok then Done (qtree_return q3, w3)
                         else run_bind (resolve_object env q3 rest w3) (\<lambda>(q4, w4). Done (qtree_return q4, w4))))"

definition tagsistant_querytree_new :: "'fs env \<Rightarrow> string \<Rightarrow> bool \<Rightarrow> bool \<Rightarrow> bool \<Rightarrow> 'fs world \<Rightarrow> (querytree \<times> 'fs world) run" where
  "tagsistant_querytree_new env path start_transaction provide_connection disable_reasoner w =
     (let q = new_querytree path
      in if provide_connection
         then resolve_path env (q\<lparr>q_dbi := True, q_transaction_started := start_transaction\<rparr>) disable_reasoner
                (tagsistant_db_connection start_transaction w)
         else resolve_path env q disable_reasoner w)"

definition tagsistant_querytree_destroy :: "'fs env \<Rightarrow> querytree \<Rightarrow> bool \<Rightarrow> 'fs world \<Rightarrow> 'fs world" where
  "tagsistant_querytree_destroy env q commit_transaction w =
     (let w1 = (if q_schedule_for_unlink q then w\<lparr>fs := snd (os_unlink (sys env) (q_full_archive_path q) (fs w))\<rparr> else w)
      in if q_dbi q
         then tagsistant_db_connection_release (q_transaction_started q)
                (if q_transaction_started q
                 then (if commit_transaction then tagsistant_commit_transaction w1 else tagsistant_rollback_transaction w1)
                 else w1)
         else w1)"

text \<open>Applying an operation to every tag of the tree, its related and negated tags left out.\<close>

definition traverse_node :: "(gchars \<Rightarrow> gchars \<Rightarrow> gchars \<Rightarrow> 'fs world \<Rightarrow> 'fs world) \<Rightarrow> and_data \<Rightarrow> 'fs world \<Rightarrow> 'fs world" where
  "traverse_node f a w =
     (if an_tag a \<noteq> None then f (an_tag a) None None w else f (an_namespace a) (an_key a) (an_value a) w)"

definition tagsistant_querytree_traverse ::
    "querytree \<Rightarrow> (dbi_conn \<Rightarrow> gchars \<Rightarrow> gchars \<Rightarrow> gchars \<Rightarrow> tagsistant_inode \<Rightarrow> 'fs world \<Rightarrow> 'fs world)
       \<Rightarrow> tagsistant_inode \<Rightarrow> 'fs world \<Rightarrow> 'fs world" where
  "tagsistant_querytree_traverse q f i w =
     fold (traverse_node (\<lambda>n k v. f (q_dbi q) n k v i)) (map and_data (concat (q_tree q))) w"

subsection \<open>What the guess computes\<close>

text \<open>The tag of a node that can be looked up exactly; the object's tags satisfy a node.\<close>

definition exact :: "and_data \<Rightarrow> bool" where
  "exact a \<longleftrightarrow> an_namespace a = None \<or> strlen (an_namespace a) = 0 \<or> an_operator a = TAGSISTANT_EQUAL_TO"

definition satisfied :: "database \<Rightarrow> int \<Rightarrow> qtree_and_node \<Rightarrow> bool" where
  "satisfied d i nd \<longleftrightarrow> (\<exists>a \<in> set (chain_data nd). sint (an_tag_id a) \<in> tags_of i d)"

definition only_object :: "database \<Rightarrow> string \<Rightarrow> tagsistant_inode \<Rightarrow> bool" where
  "only_object d name i \<longleftrightarrow> map ob_inode (filter (\<lambda>r. ob_name r = name) (objects d)) = [sint i] \<and> i \<noteq> 0"

lemma return_integer_single:
  assumes "row_order env"
  shows "tagsistant_return_integer env True [sint (i :: 32 word)] a = i" "tagsistant_return_integer env True [] a = a"
proof -
  have s: "set (order_ids env [sint i]) = {sint i}" using row_order_ids[OF assms, of "[sint i]"] by simp
  have ne: "order_ids env [sint i] \<noteq> []" using row_order_ids_Nil[OF assms, of "[sint i]"] by simp
  have l: "last (order_ids env [sint i]) = sint i" using last_in_set[OF ne] s by simp
  have "last_row a (map word_of_int (order_ids env [sint i])) = word_of_int (sint i)"
    using ne l by (simp add: last_row_def last_map del: of_int_sint)
  then show "tagsistant_return_integer env True [sint i] a = i" by (simp add: tagsistant_return_integer_def)
  show "tagsistant_return_integer env True [] a = a"
    using row_order_ids_Nil[OF assms, of "[]"] by (simp add: tagsistant_return_integer_def)
qed

lemma filter_pair_distinct: "distinct xs \<Longrightarrow> filter (\<lambda>p. p = x) xs = (if x \<in> set xs then [x] else [])"
  by (auto simp: filter_eq_single filter_empty_conv)

lemma select_only:
  assumes "db_ok d" "only_object d name i"
  shows "select_tagged_named name t d = (if t \<in> tags_of (sint i) d then [sint i] else [])"
proof -
  obtain r where r: "filter (\<lambda>r. ob_name r = name) (objects d) = [r]" "ob_inode r = sint i"
    using assms(2) by (auto simp: only_object_def)
  have "distinct (tagging d)" using assms(1) by (simp add: db_ok_def)
  then show ?thesis using r by (simp add: select_tagged_named_def filter_pair_distinct tags_of_def)
qed

lemma check_single_only:
  assumes "row_order env" "db_ok (db w)" "only_object (db w) name i" "exact a"
  shows "tagsistant_check_single_tagging env a True name w = (if sint (an_tag_id a) \<in> tags_of (sint i) (db w) then i else 0)"
proof -
  have "\<not> (an_namespace a \<noteq> None \<and> strlen (an_namespace a) \<noteq> 0 \<and> an_operator a \<noteq> TAGSISTANT_EQUAL_TO)"
    using assms(4) by (simp add: exact_def)
  then show ?thesis
    unfolding tagsistant_check_single_tagging_def select_only[OF assms(2,3)]
    by (simp only: if_False) (simp add: return_integer_single[OF assms(1)])
qed

lemma first_match_only:
  assumes "row_order env" "db_ok (db w)" "only_object (db w) name i" "\<forall>a \<in> set as. exact a"
  shows "first_match env True name w as = (if \<exists>a \<in> set as. sint (an_tag_id a) \<in> tags_of (sint i) (db w) then i else 0)"
proof -
  have "i \<noteq> 0" using assms(3) by (simp add: only_object_def)
  then show ?thesis using assms(4)
    by (induction as) (auto simp: check_single_only[OF assms(1-3)] Let_def)
qed

definition lookup_set :: "qtree_and_node list \<Rightarrow> bool" where
  "lookup_set nodes \<longleftrightarrow> nodes \<noteq> [] \<and>
     (\<forall>nd \<in> set nodes. an_tag (and_data nd) \<noteq> Some ''ALL'' \<and> \<not> an_negate (and_data nd) \<and> (\<forall>a \<in> set (chain_data nd). exact a)) \<and>
     (\<forall>ng. and_negated (hd nodes) = Some ng \<longrightarrow> (\<forall>a \<in> set (chain_data ng). exact a))"

lemma guess_walk_only:
  assumes "row_order env" "db_ok (db w)" "only_object (db w) name i"
    and "\<forall>nd \<in> set nodes. an_tag (and_data nd) \<noteq> Some ''ALL'' \<and> \<not> an_negate (and_data nd) \<and> (\<forall>a \<in> set (chain_data nd). exact a)"
    and "g = 0 \<or> g = i"
  shows "guess_walk env True name w g nodes =
     (if \<forall>nd \<in> set nodes. satisfied (db w) (sint i) nd then Inr (if nodes = [] then g else i) else Inl 0)"
  using assms(4,5)
proof (induction nodes arbitrary: g)
  case (Cons nd nodes)
  have i: "i \<noteq> 0" using assms(3) by (simp add: only_object_def)
  have fm: "first_match env True name w (chain_data nd) = (if satisfied (db w) (sint i) nd then i else 0)"
    using first_match_only[OF assms(1-3), of "chain_data nd"] Cons.prems(1) by (simp add: satisfied_def)
  show ?case using Cons i by (auto simp: fm Let_def)
qed simp

lemma guess_inode_facts:
  assumes "row_order env" "db_ok (db w)" "only_object (db w) name i" "lookup_set nodes"
  shows "tagsistant_guess_inode_from_and_set env nodes True name w = Done
    (if (\<forall>nd \<in> set nodes. satisfied (db w) (sint i) nd)
        \<and> (case and_negated (hd nodes) of None \<Rightarrow> True | Some ng \<Rightarrow> \<not> satisfied (db w) (sint i) ng)
     then i else 0)"
proof -
  have i: "i \<noteq> 0" using assms(3) by (simp add: only_object_def)
  obtain nd nds where nodes: "nodes = nd # nds" using assms(4) by (cases nodes) (auto simp: lookup_set_def)
  have walk: "guess_walk env True name w 0 nodes = (if \<forall>nd \<in> set nodes. satisfied (db w) (sint i) nd then Inr i else Inl 0)"
    using guess_walk_only[OF assms(1-3), of nodes 0] assms(4) nodes by (simp add: lookup_set_def)
  have fm: "first_match env True name w (chain_data ng) = (if satisfied (db w) (sint i) ng then i else 0)"
    if "and_negated nd = Some ng" for ng
    using first_match_only[OF assms(1-3), of "chain_data ng"] assms(4) that nodes by (simp add: lookup_set_def satisfied_def)
  show ?thesis using i fm walk unfolding tagsistant_guess_inode_from_and_set_def walk
    by (auto simp: nodes split: option.splits)
qed

text \<open>C7: The guess of an inode, for an object whose name no other object has, on an and-set
  without \<^verbatim>\<open>ALL\<close> and with exact tags: it is the object's inode exactly when every node of the set is
  satisfied, by its tag or by a related one, and the first negated node of the first node is not;
  it is 0 otherwise. No other negated node is looked at.\<close>

theorem guess_inode_spec:
  assumes "row_order env" "db_ok (db w)" "only_object (db w) name i" "lookup_set nodes"
  shows "tagsistant_guess_inode_from_and_set env nodes True name w = Done
    (if (\<forall>nd \<in> set nodes. satisfied (db w) (sint i) nd)
        \<and> (case and_negated (hd nodes) of None \<Rightarrow> True | Some ng \<Rightarrow> \<not> satisfied (db w) (sint i) ng)
     then i else 0)"
  by (rule guess_inode_facts[OF assms])

text \<open>The walk without any assumption on names: every node must lead to the same object.\<close>

lemma check_single_sound:
  assumes "row_order env" "db_ok (db w)" "objects_seq (db w) < 2 ^ 31" "exact a"
    and "tagsistant_check_single_tagging env a True name w = i" "i \<noteq> 0"
  shows "(\<exists>r \<in> set (objects (db w)). ob_name r = name \<and> ob_inode r = sint i) \<and> sint (an_tag_id a) \<in> tags_of (sint i) (db w)"
proof -
  let ?rows = "select_tagged_named name (sint (an_tag_id a)) (db w)"
  have "i = last_row 0 (map word_of_int (order_ids env ?rows))"
    using assms(4,5) by (simp add: tagsistant_check_single_tagging_def exact_def tagsistant_return_integer_def split: if_splits)
  then have "i \<in> word_of_int ` set ?rows"
    using last_row_cases[of 0 "map word_of_int (order_ids env ?rows) :: 32 word list"] assms(6) row_order_ids[OF assms(1)] by auto
  then obtain r where r: "r \<in> set (objects (db w))" "ob_name r = name" "(ob_inode r, sint (an_tag_id a)) \<in> set (tagging (db w))"
      "i = word_of_int (ob_inode r)"
    by (auto simp: select_tagged_named_def)
  have "sint i = ob_inode r" using r(1) assms(2,3) unfolding r(4) by (intro sint_word_of_int32) (auto simp: db_ok_def)
  then show ?thesis using r by (auto simp: tags_of_def)
qed

lemma first_match_sound:
  assumes "row_order env" "db_ok (db w)" "objects_seq (db w) < 2 ^ 31" "\<forall>a \<in> set as. exact a"
    and "first_match env True name w as = i" "i \<noteq> 0"
  shows "(\<exists>r \<in> set (objects (db w)). ob_name r = name \<and> ob_inode r = sint i) \<and>
     (\<exists>a \<in> set as. sint (an_tag_id a) \<in> tags_of (sint i) (db w))"
  using assms(4-6)
proof (induction as)
  case (Cons a as)
  show ?case
  proof (cases "tagsistant_check_single_tagging env a True name w = i")
    case True
    then show ?thesis using check_single_sound[OF assms(1-3), of a name i] Cons.prems by auto
  next
    case False
    then show ?thesis using Cons by (auto simp: Let_def split: if_splits)
  qed
qed simp

lemma guess_walk_Inl:
  assumes "guess_walk env conn name w g nodes = Inl i" "\<forall>nd \<in> set nodes. an_tag (and_data nd) \<noteq> Some ''ALL''"
  shows "i = 0"
  using assms by (induction nodes arbitrary: g) (auto simp: Let_def split: if_splits)

lemma guess_walk_Inr:
  assumes "guess_walk env conn name w g nodes = Inr i" "\<forall>nd \<in> set nodes. an_tag (and_data nd) \<noteq> Some ''ALL'' \<and> \<not> an_negate (and_data nd)"
  shows "i = g \<and> nodes = [] \<or> i \<noteq> 0 \<and> (g = 0 \<or> g = i) \<and> (\<forall>nd \<in> set nodes. first_match env conn name w (chain_data nd) = i)"
  using assms
proof (induction nodes arbitrary: g)
  case (Cons nd nodes)
  let ?m = "first_match env conn name w (chain_data nd)"
  have "?m \<noteq> 0" "g = 0 \<or> g = ?m" "guess_walk env conn name w ?m nodes = Inr i"
    using Cons.prems by (auto simp: Let_def split: if_splits)
  then show ?case using Cons.IH[of ?m] Cons.prems(2) by auto
qed simp


text \<open>An object is found under a query that excludes one of its tags. When a criterion excludes
  several tags, the object that has the wanted tags and not the first of the excluded ones is
  found, whichever of the others it has.\<close>

theorem later_exclusions_ignored:
  assumes "row_order env" "db_ok (db w)" "only_object (db w) name i"
    and c: "c = Criterion as (e # es)" "as \<noteq> []" "\<forall>a \<in> set (e # as). \<exists>n. a = Flat n \<and> n \<noteq> ''ALL''"
    and wanted: "\<exists>a \<in> set as. sint (an_tag_id (atom_data (db w) False a)) \<in> tags_of (sint i) (db w)"
    and first: "sint (an_tag_id (atom_data (db w) True e)) \<notin> tags_of (sint i) (db w)"
    and other: "x \<in> set es" "sint (an_tag_id (atom_data (db w) True x)) \<in> tags_of (sint i) (db w)"
  shows "tagsistant_guess_inode_from_and_set env [criterion_node (db w) c] True name w = Done i"
proof -
  have chain: "chain_data (And_node a (related_of bs) ng) = a # bs" for a bs ng
    by (induction bs arbitrary: a ng) simp_all
  have flat: "exact (atom_data (db w) neg a)" "an_tag (atom_data (db w) neg a) \<noteq> Some ''ALL''"
    if "a \<in> set (e # as)" for a neg
    using c(3) that by (auto simp: exact_def new_and_data_def)
  have neg: "\<not> an_negate (atom_data (db w) False a)" for a by (cases a) simp_all
  have as: "hd as # tl as = as" using c(2) by simp
  have cd: "chain_data (criterion_node (db w) c) = map (atom_data (db w) False) as"
    by (simp add: criterion_node_def c(1) chain flip: list.map(2)) (simp add: as)
  have ad: "and_data (criterion_node (db w) c) = atom_data (db w) False (hd as)" by (simp add: criterion_node_def c(1))
  have ng: "and_negated (criterion_node (db w) c) = Some (And_node (atom_data (db w) True e) None (negated_of (map (atom_data (db w) True) es)))"
    by (simp add: criterion_node_def c(1))
  have "lookup_set [criterion_node (db w) c]"
    using flat neg hd_in_set[OF c(2)] by (auto simp: lookup_set_def cd ad ng)
  from guess_inode_facts[OF assms(1-3) this] wanted first show ?thesis
    by (auto simp: ng satisfied_def cd)
qed

subsection \<open>Paths under archive/\<close>

text \<open>The path given to an object under \<^verbatim>\<open>archive/\<close> carries its inode, for inodes below \<open>2 ^ 31\<close>:
  reading the inode back from the name gives it, and stripping it gives the object's name. From
  \<open>2 ^ 31\<close> on, the name starts with a minus sign, and no inode is found in it.\<close>

theorem archive_name_roundtrip:
  assumes "q_inode q \<noteq> 0" "q_object_path q = Some name" "CHR ''/'' \<notin> set name"
    and "(q', w') = tagsistant_querytree_rebuild_paths env q w"
  shows "tagsistant_inode_extract_from_path (q_archive_path q') = (if sint (q_inode q) \<ge> 0 then q_inode q else 0)
    \<and> (sint (q_inode q) \<ge> 0 \<longrightarrow> inode_rx_1_strip (printf_s (q_archive_path q')) = name)"
proof -
  have a: "q_archive_path q' = Some (fmt_d (q_inode q) @ ''___'' @ name)"
    using assms by (simp add: tagsistant_querytree_rebuild_paths_def Let_def)
  show ?thesis
  proof (cases "sint (q_inode q) \<ge> 0")
    case True
    then have u: "nat (sint (q_inode q)) = unat (q_inode q)" by (rule sint_nonneg_unat)
    have f: "fmt_d (q_inode q) = dec (unat (q_inode q))" using True u by (simp add: fmt_d_def)
    have lt: "unat (q_inode q) < 2 ^ 32" using unsigned_less[of "q_inode q"] by simp
    have "strtoul32 (dec (unat (q_inode q))) = q_inode q" using strtoul32_dec[OF lt] by simp
    then show ?thesis using True rx_group_digits[OF dec_digits, of "unat (q_inode q)" name]
      by (simp add: a f tagsistant_inode_extract_from_path_def)
  next
    case False
    then have f: "fmt_d (q_inode q) @ ''___'' @ name = CHR ''-'' # dec (nat (- sint (q_inode q))) @ ''___'' @ name"
      by (simp add: fmt_d_def)
    have "CHR ''/'' \<notin> set (CHR ''-'' # dec (nat (- sint (q_inode q))) @ ''___'' @ name)"
      using assms(3) dec_digits[of "nat (- sint (q_inode q))"] by (auto simp: is_digit_def)
    then have "inode_rx_2 (fmt_d (q_inode q) @ ''___'' @ name) = None" unfolding f by (rule inode_rx_2_no_slash)
    moreover have "inode_rx_1 (fmt_d (q_inode q) @ ''___'' @ name) = None" unfolding f by (rule inode_rx_1_non_digit) simp
    ultimately show ?thesis using False by (simp add: a tagsistant_inode_extract_from_path_def)
  qed
qed

lemma archive_digits_inj:
  "concat (map (\<lambda>c. [CHR ''/'', c]) xs) = concat (map (\<lambda>c. [CHR ''/'', c]) ys) \<longleftrightarrow> xs = ys"
proof (induction xs arbitrary: ys)
  case Nil
  then show ?case by (cases ys) auto
next
  case (Cons x xs)
  then show ?case by (cases ys) auto
qed

text \<open>The directory an object's file goes to depends on the last three digits of its inode and on
  nothing else: two inodes share it exactly when they agree modulo 1000, and it is at most three
  levels below \<^verbatim>\<open>archive/\<close>.\<close>

theorem archive_directory_by_last_digits:
  shows "(archive_hierarchy env i = archive_hierarchy env j \<longleftrightarrow> i mod 1000 = j mod 1000)
    \<and> length (archive_hierarchy env i) \<le> length (archive env) + 6"
proof -
  have inj: "fmt_u x = fmt_u y \<longleftrightarrow> x = y" for x y by (simp add: fmt_u_def dec_inj word_unat_eq_iff)
  have "unat (i mod 1000) < 10 ^ 3" by (simp add: unat_mod)
  then have "length (dec (unat (i mod 1000))) \<le> 3" by (rule length_dec) simp
  then have l: "length (concat (map (\<lambda>c. [CHR ''/'', c]) (rev (fmt_u (i mod 1000))))) \<le> 6"
    by (simp add: fmt_u_def length_concat o_def sum_list_triv)
  show ?thesis using l by (simp add: archive_hierarchy_def TAGSISTANT_ARCHIVE_DEPTH_def archive_digits_inj inj)
qed

text \<open>An inode written in a \<^verbatim>\<open>store/\<close> path is accepted as it stands: whatever the tags of the
  query and of the object, and whether or not the object exists, the query tree gets that inode
  and the archive path made from it, and is marked valid.\<close>

theorem inode_in_path_not_checked:
  assumes "0 < n" "n < 2 ^ 32" "name \<noteq> ''''"
  shows "\<exists>q' w'. store_object env q [dec n @ ''___'' @ name] w = Done (q', w')
    \<and> q_inode q' = word_of_nat n \<and> q_object_path q' = Some name \<and> q_valid q' \<and> q_points_to_object q'
    \<and> q_full_archive_path q' = Some (archive_hierarchy env (word_of_nat n) @ ''/'' @ fmt_d (word_of_nat n) @ ''___'' @ name)"
proof -
  have nz: "(word_of_nat n :: 32 word) \<noteq> 0"
    using assms(1,2) by (rule word_of_nat_nonzero)
  have x: "tagsistant_inode_extract_from_path (Some (dec n @ ''___'' @ name)) = word_of_nat n"
    using rx_group_digits[OF dec_digits, of n name] strtoul32_dec[OF assms(2)]
    by (simp add: tagsistant_inode_extract_from_path_def)
  have s: "inode_rx_1_strip (dec n @ ''___'' @ name) = name" using rx_group_digits[OF dec_digits, of n name] by simp
  have "tagsistant_inode_extract_from_path (Some (g_strjoinv (CHR ''/'') [dec n @ ''___'' @ name])) = word_of_nat n"
    "inode_rx_1_strip (g_strjoinv (CHR ''/'') [dec n @ ''___'' @ name]) = name"
    using x s by (simp_all del: append_Cons)
  then show ?thesis using nz assms(3)
    by (simp add: store_object_def store_inode_def store_finish_def Let_def split_beta tagsistant_querytree_set_inode_def tagsistant_querytree_rebuild_paths_def del: append_Cons)
qed

subsection \<open>Concrete instances\<close>

text \<open>Three tags, and one object that has the first and the third.\<close>

definition tagged_file :: database where
  "tagged_file = insert_tagging 3 1 (insert_tagging 1 1 (snd (insert_object ''f''
     (insert_tag ''c'' '''' '''' (insert_tag ''b'' '''' '''' (insert_tag ''a'' '''' '''' empty_db))))))"

lemma tagged_file_simps [simp]:
  "db_ok tagged_file" "tagging tagged_file = [(1, 1), (1, 3)]" "only_object tagged_file ''f'' 1"
  "tag_id_of tagged_file (''a'', '''', '''') = 1" "tag_id_of tagged_file (''b'', '''', '''') = 2"
  "tag_id_of tagged_file (''c'', '''', '''') = 3" "tags_of 1 tagged_file = {1, 3}" "tags_plain tagged_file"
  "objects tagged_file = [\<lparr>ob_inode = 1, ob_name = ''f'', ob_checksum = '''', ob_symlink = ''''\<rparr>]"
proof -
  show "db_ok tagged_file" by (simp add: tagged_file_def db_ok_statements db_ok_empty)
  have t: "tags tagged_file = [\<lparr>tr_id = 1, tr_name = ''a'', tr_key = '''', tr_value = ''''\<rparr>,
      \<lparr>tr_id = 2, tr_name = ''b'', tr_key = '''', tr_value = ''''\<rparr>, \<lparr>tr_id = 3, tr_name = ''c'', tr_key = '''', tr_value = ''''\<rparr>]"
      "tagging tagged_file = [(1, 1), (1, 3)]" "tags_seq tagged_file = 3"
      "objects tagged_file = [\<lparr>ob_inode = 1, ob_name = ''f'', ob_checksum = '''', ob_symlink = ''''\<rparr>]"
    by (simp_all add: tagged_file_def empty_db_def insert_tag_def insert_object_def insert_tagging_def tag_triple_def)
  show "tagging tagged_file = [(1, 1), (1, 3)]" by (rule t)
  show "objects tagged_file = [\<lparr>ob_inode = 1, ob_name = ''f'', ob_checksum = '''', ob_symlink = ''''\<rparr>]" by (rule t)
  show "only_object tagged_file ''f'' 1" by (simp add: only_object_def t)
  show "tag_id_of tagged_file (''a'', '''', '''') = 1" "tag_id_of tagged_file (''b'', '''', '''') = 2"
    "tag_id_of tagged_file (''c'', '''', '''') = 3"
    by (simp_all add: tag_id_of_def t tag_triple_def)
  show "tags_of 1 tagged_file = {1, 3}" by (auto simp: tags_of_def t)
  show "tags_plain tagged_file" by (simp add: tags_plain_def t plain_def triple_token_eval)
qed

theorem guess_inode_spec_witness:
  "tagsistant_guess_inode_from_and_set sample_env [criterion_node tagged_file (Criterion [Flat ''b'', Flat ''a''] [Flat ''b''])] True ''f''
     (sample_world tagged_file []) = Done 1
   \<and> tagsistant_guess_inode_from_and_set sample_env [criterion_node tagged_file (Criterion [Flat ''b''] [])] True ''f''
     (sample_world tagged_file []) = Done 0"
  using guess_inode_spec[of sample_env "sample_world tagged_file []" "''f''" 1 "[criterion_node tagged_file (Criterion [Flat ''b'', Flat ''a''] [Flat ''b''])]"]
    guess_inode_spec[of sample_env "sample_world tagged_file []" "''f''" 1 "[criterion_node tagged_file (Criterion [Flat ''b''] [])]"]
  by (simp add: lookup_set_def criterion_node_def new_and_data_def exact_def satisfied_def)


theorem later_exclusions_ignored_witness:
  "tagsistant_guess_inode_from_and_set sample_env [criterion_node tagged_file (Criterion [Flat ''a''] [Flat ''b'', Flat ''c''])] True ''f''
     (sample_world tagged_file []) = Done 1"
  using later_exclusions_ignored[of sample_env "sample_world tagged_file []" "''f''" 1 "Criterion [Flat ''a''] [Flat ''b'', Flat ''c'']"
      "[Flat ''a'']" "Flat ''b''" "[Flat ''c'']" "Flat ''c''"]
  by (simp add: new_and_data_def)

theorem archive_name_roundtrip_witness:
  "tagsistant_inode_extract_from_path (q_archive_path (fst (tagsistant_querytree_rebuild_paths sample_env
     ((new_querytree ''/'')\<lparr>q_inode := 3987, q_object_path := Some ''f''\<rparr>) (sample_world empty_db [])))) = 3987"
  using archive_name_roundtrip[of "(new_querytree ''/'')\<lparr>q_inode := 3987, q_object_path := Some ''f''\<rparr>" "''f''" _ _ sample_env "sample_world empty_db []", OF _ _ _ prod.collapse]
  by simp

theorem inode_in_path_not_checked_witness:
  "\<exists>q' w'. store_object sample_env ((new_querytree ''/store/a/@/7___f'')\<lparr>q_dbi := True, q_tree := [[And_node new_and_data None None]]\<rparr>)
     [dec 7 @ ''___'' @ ''f''] (sample_world empty_db []) = Done (q', w') \<and> q_inode q' = 7"
  using inode_in_path_not_checked[of 7 "''f''"] by fastforce

end
