(* ===== verification/Alias_Expansion.thy ===== *)
theory Alias_Expansion
  imports Path_Resolution
begin

section \<open>When the expansion of aliases ends\<close>

text \<open>
  Facts about \<^verbatim>\<open>tagsistant_expand_path()\<close>: it ends if no alias mentions an alias, and
  runs forever on an alias that mentions itself.
\<close>

lemma alias_rx_split:
  "alias_rx s = Some p \<Longrightarrow> \<exists>u cs. s = u @ CHR ''='' # cs \<and> p = CHR ''='' # takeWhile (\<lambda>x. x \<noteq> CHR ''/'') cs
     \<and> takeWhile (\<lambda>x. x \<noteq> CHR ''/'') cs \<noteq> []"
proof (induction s)
  case (Cons c cs)
  show ?case
  proof (cases "c = CHR ''='' \<and> cs \<noteq> [] \<and> hd cs \<noteq> CHR ''/''")
    case True
    then show ?thesis using Cons.prems by (intro exI[of _ "[]"] exI[of _ cs]) (cases cs, auto)
  next
    case False
    then have "alias_rx cs = Some p" using Cons.prems by (simp split: if_splits)
    from Cons.IH[OF this] show ?thesis by (metis append_Cons)
  qed
qed simp

lemma replace_count:
  assumes "p = CHR ''='' # a" "CHR ''='' \<notin> set q" "CHR ''='' \<notin> set a"
  shows "count_list (replace_literal p q s) (CHR ''='') \<le> count_list s (CHR ''='')
    \<and> (strstr p s \<longrightarrow> count_list (replace_literal p q s) (CHR ''='') < count_list s (CHR ''=''))"
  using assms
proof (induction p q s rule: replace_literal.induct)
  case (2 p r c cs)
  show ?case
  proof (cases "p \<noteq> [] \<and> prefix p (c # cs)")
    case True
    then obtain v where v: "c # cs = p @ v" by (auto simp: prefix_def)
    have "drop (length p) (c # cs) = v" using v by simp
    moreover have "count_list (c # cs) (CHR ''='') = Suc (count_list v (CHR ''=''))"
      using 2(3,5) unfolding v by (simp add: count_list_0_iff)
    ultimately show ?thesis using 2(1)[OF True] 2(3-5) True by (simp add: count_list_0_iff)
  next
    case False
    then show ?thesis using 2(2)[OF False] 2(3-5) by auto
  qed
qed simp

lemma replace_split:
  "CHR ''='' \<notin> set q \<Longrightarrow> replace_literal p q s = u' @ CHR ''='' # v' \<Longrightarrow>
     \<exists>u v. s = u @ CHR ''='' # v \<and> v' = replace_literal p q v"
proof (induction p q s arbitrary: u' rule: replace_literal.induct)
  case (2 p r c cs)
  show ?case
  proof (cases "p \<noteq> [] \<and> prefix p (c # cs)")
    case True
    then have e: "r @ replace_literal p r (drop (length p) (c # cs)) = u' @ CHR ''='' # v'" using 2(4) by simp
    have "\<exists>u''. replace_literal p r (drop (length p) (c # cs)) = u'' @ CHR ''='' # v'"
      using e 2(3) by (auto simp: append_eq_append_conv2 Cons_eq_append_conv append_eq_Cons_conv)
    then obtain u'' where "replace_literal p r (drop (length p) (c # cs)) = u'' @ CHR ''='' # v'" by blast
    from 2(1)[OF True 2(3) this] obtain u v where uv: "drop (length p) (c # cs) = u @ CHR ''='' # v" "v' = replace_literal p r v"
      by blast
    have "c # cs = take (length p) (c # cs) @ u @ CHR ''='' # v" using uv(1) by (metis append_take_drop_id)
    then have "c # cs = (take (length p) (c # cs) @ u) @ CHR ''='' # v" by simp
    then show ?thesis using uv(2) by blast
  next
    case False
    then have e: "c # replace_literal p r cs = u' @ CHR ''='' # v'" using 2(4) by auto
    show ?thesis
    proof (cases u')
      case Nil
      with e have "c # cs = [] @ CHR ''='' # cs" "v' = replace_literal p r cs" by auto
      then show ?thesis by blast
    next
      case (Cons x xs)
      with e have "replace_literal p r cs = xs @ CHR ''='' # v'" by simp
      from 2(2)[OF False 2(3) this] show ?thesis by (metis append_Cons)
    qed
  qed
qed simp

text \<open>A path whose aliases, the text from an equals sign to the next slash, are plain words.\<close>

definition plain_aliases :: "string \<Rightarrow> bool" where
  "plain_aliases s \<longleftrightarrow> (\<forall>u v. s = u @ CHR ''='' # v \<longrightarrow>
     rx_plain (takeWhile (\<lambda>x. x \<noteq> CHR ''/'') v) \<and> CHR ''='' \<notin> set (takeWhile (\<lambda>x. x \<noteq> CHR ''/'') v))"

lemma replace_segment:
  "CHR ''='' \<notin> set (takeWhile (\<lambda>x. x \<noteq> CHR ''/'') v) \<Longrightarrow> hd p = CHR ''='' \<Longrightarrow> p \<noteq> [] \<Longrightarrow>
     takeWhile (\<lambda>x. x \<noteq> CHR ''/'') (replace_literal p q v) = takeWhile (\<lambda>x. x \<noteq> CHR ''/'') v"
proof (induction v)
  case (Cons c cs)
  have "\<not> prefix p (c # cs)" using Cons.prems by (cases p) (auto split: if_splits)
  then show ?case using Cons by (auto split: if_splits)
qed simp

lemma plain_aliases_replace:
  assumes "plain_aliases s" "hd p = CHR ''=''" "p \<noteq> []" "CHR ''='' \<notin> set q"
  shows "plain_aliases (replace_literal p q s)"
  unfolding plain_aliases_def
proof (intro allI impI)
  fix u' v' assume "replace_literal p q s = u' @ CHR ''='' # v'"
  then obtain u v where uv: "s = u @ CHR ''='' # v" "v' = replace_literal p q v"
    using replace_split[OF assms(4)] by blast
  then have pv: "rx_plain (takeWhile (\<lambda>x. x \<noteq> CHR ''/'') v)" "CHR ''='' \<notin> set (takeWhile (\<lambda>x. x \<noteq> CHR ''/'') v)"
    using assms(1) by (auto simp: plain_aliases_def)
  then show "rx_plain (takeWhile (\<lambda>x. x \<noteq> CHR ''/'') v') \<and> CHR ''='' \<notin> set (takeWhile (\<lambda>x. x \<noteq> CHR ''/'') v')"
    using replace_segment[OF pv(2) assms(2,3)] uv(2) by simp
qed

lemma callback_no_equals:
  assumes "\<forall>p \<in> set (aliases (db w)). CHR ''='' \<notin> set (snd p)"
  shows "CHR ''='' \<notin> set (tagsistant_expand_path_callback conn w m)"
proof (cases "map_of (aliases (db w)) (tl m)")
  case None
  then show ?thesis by (simp add: tagsistant_expand_path_callback_def tagsistant_sql_alias_get_def)
next
  case (Some q)
  then have "CHR ''='' \<notin> set q" using assms map_of_SomeD[OF Some] by fastforce
  then show ?thesis using Some by (simp add: tagsistant_expand_path_callback_def tagsistant_sql_alias_get_def)
qed

lemma expand_loop_ends:
  assumes "\<forall>p \<in> set (aliases (db w)). CHR ''='' \<notin> set (snd p)" "plain_aliases s"
  shows "\<exists>t. expand_loop env conn w s = Some (Some t) \<and> alias_rx t = None"
  using assms(2)
proof (induction "count_list s (CHR ''='')" arbitrary: s rule: less_induct)
  case less
  show ?case
  proof (cases "alias_rx s")
    case None
    then show ?thesis by (subst expand_loop.simps) simp
  next
    case (Some p)
    then obtain u cs where p: "s = u @ CHR ''='' # cs" "p = CHR ''='' # takeWhile (\<lambda>x. x \<noteq> CHR ''/'') cs"
      using alias_rx_split by blast
    then have pl: "rx_plain p" "CHR ''='' \<notin> set (takeWhile (\<lambda>x. x \<noteq> CHR ''/'') cs)"
      using less.prems by (auto simp: plain_aliases_def rx_plain_def)
    have "s = u @ p @ dropWhile (\<lambda>x. x \<noteq> CHR ''/'') cs" using p by simp
    then have st: "strstr p s" by (auto simp: strstr_iff)
    let ?q = "tagsistant_expand_path_callback conn w p"
    let ?t = "replace_literal p ?q s"
    note q = callback_no_equals[OF assms(1), of conn p]
    have "count_list ?t (CHR ''='') < count_list s (CHR ''='')"
      using replace_count[OF p(2) q pl(2), of s] st by blast
    moreover have "plain_aliases ?t" using plain_aliases_replace[OF less.prems _ _ q] p(2) by simp
    ultimately have IH: "\<exists>t. expand_loop env conn w ?t = Some (Some t) \<and> alias_rx t = None" using less.hyps by blast
    have "expand_loop env conn w s = expand_loop env conn w ?t"
      using Some pl(1) by (subst expand_loop.simps) (simp add: expand_once_def)
    then show ?thesis using IH by simp
  qed
qed

lemma compress_Cons: "\<exists>r. compress_slashes (d # s) = d # r"
  by (induction "d # s" arbitrary: d s rule: compress_slashes.induct) auto

lemma alias_rx_compress: "alias_rx s = None \<Longrightarrow> alias_rx (compress_slashes s) = None"
proof (induction s rule: compress_slashes.induct)
  case (1 c d s)
  have rec: "alias_rx (d # s) = None" using "1.prems" by (auto split: if_splits)
  obtain r where r: "compress_slashes (d # s) = d # r" using compress_Cons by blast
  show ?case
  proof (cases "c = CHR ''/'' \<and> d = CHR ''/''")
    case True
    then show ?thesis using 1(1)[OF True rec] by simp
  next
    case False
    then show ?thesis using 1(2)[OF False rec] "1.prems" r by (auto split: if_splits)
  qed
qed auto

text \<open>C38: If no alias bookmarks a path that mentions an alias, and the aliases in the path are plain
  words, the expansion of the path ends, and what it returns mentions no alias.\<close>

theorem alias_expansion_ends:
  assumes "\<forall>p \<in> set (aliases (db w)). CHR ''='' \<notin> set (snd p)" "plain_aliases path"
  shows "\<exists>s. tagsistant_expand_path env conn w path = Done s \<and> alias_rx s = None"
  using expand_loop_ends[OF assms, of env conn] alias_rx_compress
  by (auto simp: tagsistant_expand_path_def)

text \<open>The shape a path with one alias has, and keeps.\<close>

definition one_alias :: "string \<Rightarrow> string \<Rightarrow> bool" where
  "one_alias a s \<longleftrightarrow> (\<exists>u v. s = u @ (CHR ''='' # a) @ v \<and> CHR ''='' \<notin> set u \<and> CHR ''='' \<notin> set v \<and> (v = [] \<or> hd v = CHR ''/''))"

lemma replace_skip: "hd p \<notin> set u \<Longrightarrow> p \<noteq> [] \<Longrightarrow> replace_literal p q (u @ x) = u @ replace_literal p q x"
proof (induction u)
  case (Cons c u)
  then have "\<not> prefix p (c # u @ x)" by (cases p) auto
  then show ?case using Cons by simp
qed simp

lemma replace_here: "p \<noteq> [] \<Longrightarrow> replace_literal p q (p @ x) = q @ replace_literal p q x"
  by (cases p) auto

lemma alias_rx_one:
  assumes "CHR ''='' \<notin> set u" "a \<noteq> []" "CHR ''/'' \<notin> set a" "v = [] \<or> hd v = CHR ''/''"
  shows "alias_rx (u @ (CHR ''='' # a) @ v) = Some (CHR ''='' # a)"
  using assms(1)
proof (induction u)
  case Nil
  have "takeWhile (\<lambda>x. x \<noteq> CHR ''/'') (a @ v) = a" using assms(3,4) by (cases v) (auto simp: takeWhile_append2 takeWhile_append)
  moreover have "hd (a @ v) \<noteq> CHR ''/''" using assms(2,3) by (cases a) auto
  ultimately show ?case using assms(2) by simp
qed auto

lemma self_alias_step:
  assumes "a \<noteq> []" "CHR ''/'' \<notin> set a" "CHR ''='' \<notin> set a" "rx_plain a"
    and "tagsistant_sql_alias_get conn (Some a) w = Some q" "one_alias a q" "one_alias a s"
  shows "\<exists>t. alias_rx s = Some (CHR ''='' # a) \<and> expand_once env conn w (CHR ''='' # a) s = Some t \<and> one_alias a t"
proof -
  let ?p = "CHR ''='' # a"
  obtain u v where s: "s = u @ ?p @ v" "CHR ''='' \<notin> set u" "CHR ''='' \<notin> set v" "v = [] \<or> hd v = CHR ''/''"
    using assms(7) unfolding one_alias_def by blast
  obtain x y where q: "q = x @ ?p @ y" "CHR ''='' \<notin> set x" "CHR ''='' \<notin> set y" "y = [] \<or> hd y = CHR ''/''"
    using assms(6) unfolding one_alias_def by blast
  have cb: "tagsistant_expand_path_callback conn w ?p = q" using assms(5) by (simp add: tagsistant_expand_path_callback_def)
  have "replace_literal ?p q s = u @ q @ replace_literal ?p q v"
    unfolding s(1) using replace_skip[of ?p u q "?p @ v"] replace_here[of ?p q v] s(2) by simp
  also have "replace_literal ?p q v = v" using replace_skip[of ?p v q "[]"] s(3) by simp
  finally have r: "replace_literal ?p q s = (u @ x) @ ?p @ (y @ v)" by (simp add: q(1))
  have "one_alias a (replace_literal ?p q s)"
    unfolding one_alias_def r using s q by (intro exI[of _ "u @ x"] exI[of _ "y @ v"]) (cases y, auto)
  moreover have "rx_plain ?p" using assms(4) by (simp add: rx_plain_def)
  ultimately show ?thesis
    using alias_rx_one[OF s(2) assms(1,2) s(4)] by (simp add: expand_once_def cb s(1))
qed

lemma no_result:
  assumes "a \<noteq> []" "CHR ''/'' \<notin> set a" "CHR ''='' \<notin> set a" "rx_plain a" "one_alias a q"
    and "expand_loop env conn w s = Some r"
  shows "tagsistant_sql_alias_get conn (Some a) w = Some q \<longrightarrow> \<not> one_alias a s"
proof (rule expand_loop.raw_induct[OF _ assms(6)])
  fix loop :: "'a env \<Rightarrow> bool \<Rightarrow> 'a world \<Rightarrow> string \<Rightarrow> string option option" and env conn w s r
  assume IH: "\<And>env conn w s r. loop env conn w s = Some r \<Longrightarrow>
      tagsistant_sql_alias_get conn (Some a) w = Some q \<longrightarrow> \<not> one_alias a s"
    and body: "(case alias_rx s of None \<Rightarrow> Some (Some s)
        | Some p \<Rightarrow> case expand_once env conn w p s of None \<Rightarrow> Some None | Some t \<Rightarrow> loop env conn w t) = Some r"
  show "tagsistant_sql_alias_get conn (Some a) w = Some q \<longrightarrow> \<not> one_alias a s"
  proof (intro impI notI)
    assume g: "tagsistant_sql_alias_get conn (Some a) w = Some q" and one: "one_alias a s"
    obtain t where t: "alias_rx s = Some (CHR ''='' # a)" "expand_once env conn w (CHR ''='' # a) s = Some t" "one_alias a t"
      using self_alias_step[OF assms(1-4) g assms(5) one] by blast
    then have "loop env conn w t = Some r" using body by simp
    then show False using IH g t(3) by blast
  qed
qed

text \<open>An alias whose own query mentions it makes the daemon loop forever: building the query tree
  of a complete path that uses the alias never returns.\<close>

theorem self_alias_never_returns:
  assumes "a \<noteq> []" "CHR ''/'' \<notin> set a" "CHR ''='' \<notin> set a" "rx_plain a"
    and "map_of (aliases (db w)) a = Some q" "one_alias a q" "one_alias a path" "strstr ''/@'' path"
  shows "tagsistant_querytree_new env path start_transaction True disable_reasoner w = Hang"
proof -
  let ?w = "tagsistant_db_connection start_transaction w"
  have "db ?w = db w" by (simp add: tagsistant_db_connection_def log_lock_def Let_def)
  then have get: "tagsistant_sql_alias_get True (Some a) ?w = Some q" using assms(5) by (simp add: tagsistant_sql_alias_get_def)
  have no: "\<not> one_alias a s" if "expand_loop env True ?w s = Some r" for s r
    using no_result[OF assms(1-4,6) that] get by blast
  then have "expand_loop env True ?w path = None" using assms(7) by (cases "expand_loop env True ?w path") auto
  then show ?thesis using assms(8)
    by (simp add: tagsistant_querytree_new_def resolve_path_def Let_def tagsistant_expand_path_def new_querytree_def)
qed

definition alias_db :: "string \<Rightarrow> database" where
  "alias_db q = update_alias_query ''x'' q (insert_alias ''x'' empty_db)"

lemma aliases_alias_db [simp]: "aliases (alias_db q) = [(''x'', q)]"
  by (simp add: alias_db_def update_alias_query_def insert_alias_def empty_db_def)

theorem alias_expansion_ends_witness:
  "\<exists>s. tagsistant_expand_path sample_env True (sample_world (alias_db ''a/b'') []) ''/store/=x'' = Done s \<and> alias_rx s = None"
proof (rule alias_expansion_ends)
  show "plain_aliases ''/store/=x''"
    by (auto simp: plain_aliases_def Cons_eq_append_conv rx_plain_def)
qed simp

theorem self_alias_never_returns_witness:
  "tagsistant_querytree_new sample_env ''/store/=x/@/f'' False True False (sample_world (alias_db ''a/=x'') []) = Hang"
proof (rule self_alias_never_returns[of "''x''" _ "''a/=x''"])
  show "one_alias ''x'' ''a/=x''" unfolding one_alias_def by (intro exI[of _ "''a/''"] exI[of _ "[]"]) simp
  show "one_alias ''x'' ''/store/=x/@/f''" unfolding one_alias_def by (intro exI[of _ "''/store/''"] exI[of _ "''/@/f''"]) simp
qed (simp_all add: rx_plain_def)

end
