(* ===== verification/Object_Utils.thy ===== *)
theory Object_Utils
  imports Path_Resolution
begin

section \<open>Creating and tagging objects\<close>

text \<open>
  The part of \<^verbatim>\<open>src/src/utils.c\<close> the file system operations share: creating an object
  and tagging it with every tag of a query, and the names of the files that list the tags of an
  object.
\<close>

subsection \<open>The code\<close>

text \<open>
  The value returned is an \<^verbatim>\<open>int\<close>: the inode, or -1 with the error number. The row
  inserted last is the one inserted here.
\<close>

definition tagsistant_inner_create_and_tag_object ::
    "'fs env \<Rightarrow> querytree \<Rightarrow> bool \<Rightarrow> 'fs world \<Rightarrow> (int \<times> errno option) \<times> querytree \<times> 'fs world" where
  "tagsistant_inner_create_and_tag_object env q force_create w =
     (let name = printf_s (q_object_path q);
          found = (if force_create then 0
             else tagsistant_return_first env (q_dbi q) (select_inodes (\<lambda>r. ob_name r = name) (db w)) 0);
          (inode, w1) = (if force_create \<or> found = 0
             then (if q_dbi q then word_of_int (fst (insert_object name (db w))) else 0,
                   sql_exec (q_dbi q) (\<lambda>d. snd (insert_object name d)) w)
             else (found, w))
      in if inode = 0 then ((-1, Some EIO), q, w1)
         else let (q2, w2) = tagsistant_querytree_set_inode env q inode w1
              in ((sint inode, None), q2, tagsistant_querytree_traverse q2 (tagsistant_sql_tag_object env) inode w2))"

text \<open>The pattern \<^verbatim>\<open>@/[^/]*SUFFIX$\<close>, and the removal of the suffix.\<close>

definition tagsistant_is_tags_list_file :: "'fs env \<Rightarrow> querytree \<Rightarrow> bool" where
  "tagsistant_is_tags_list_file env q \<longleftrightarrow>
     suffix (tags_suffix env) (q_full_path q) \<and>
     prefix ''/@'' (dropWhile (\<lambda>c. c \<noteq> CHR ''/'') (drop (length (tags_suffix env)) (rev (q_full_path q))))"

definition tagsistant_string_tags_list_suffix :: "'fs env \<Rightarrow> querytree \<Rightarrow> string" where
  "tagsistant_string_tags_list_suffix env q =
     (if suffix (tags_suffix env) (q_full_path q)
      then take (length (q_full_path q) - length (tags_suffix env)) (q_full_path q) else q_full_path q)"

subsection \<open>Tagging with every tag of a query\<close>

text \<open>The name of a node's tag in the tags table, and the names all of them can be told apart by.\<close>

definition node_key :: "and_data \<Rightarrow> string \<times> string \<times> string" where
  "node_key a = (case an_tag a of Some n \<Rightarrow> (n, '''', '''')
     | None \<Rightarrow> (safe_string (an_namespace a), safe_string (an_key a), safe_string (an_value a)))"

definition named :: "and_data \<Rightarrow> bool" where
  "named a \<longleftrightarrow> (an_tag a \<noteq> None \<or> an_namespace a \<noteq> None) \<and> plain_key (node_key a)"

lemma tag_object_safe: "tagsistant_sql_tag_object env conn n (Some (safe_string k)) (Some (safe_string v)) i w = tagsistant_sql_tag_object env conn n k v i w"
  by (simp add: tagsistant_sql_tag_object_def)

lemma untag_object_safe: "tagsistant_sql_untag_object env conn n (Some (safe_string k)) (Some (safe_string v)) i w = tagsistant_sql_untag_object env conn n k v i w"
  by (simp add: tagsistant_sql_untag_object_def)

lemma traverse_node_tag:
  assumes "named a"
  shows "traverse_node (\<lambda>n k v. tagsistant_sql_tag_object env True n k v i) a w
     = (case node_key a of (n, k, v) \<Rightarrow> tagsistant_sql_tag_object env True (Some n) (Some k) (Some v) i w)"
proof (cases "an_tag a")
  case (Some n)
  then show ?thesis using tag_object_safe[of env True "Some n" None None i w] by (simp add: traverse_node_def node_key_def)
next
  case None
  then obtain n where "an_namespace a = Some n" using assms by (auto simp: named_def)
  with None show ?thesis by (simp add: traverse_node_def node_key_def tag_object_safe)
qed

lemma traverse_node_untag:
  assumes "named a"
  shows "traverse_node (\<lambda>n k v. tagsistant_sql_untag_object env True n k v i) a w
     = (case node_key a of (n, k, v) \<Rightarrow> tagsistant_sql_untag_object env True (Some n) (Some k) (Some v) i w)"
proof (cases "an_tag a")
  case (Some n)
  then show ?thesis using untag_object_safe[of env True "Some n" None None i w] by (simp add: traverse_node_def node_key_def)
next
  case None
  then obtain n where "an_namespace a = Some n" using assms by (auto simp: named_def)
  with None show ?thesis by (simp add: traverse_node_def node_key_def untag_object_safe)
qed

lemma seq_create_tag: "tags_seq (db (tagsistant_sql_create_tag conn n k v w)) \<le> tags_seq (db w) + 1"
  by (simp add: tagsistant_sql_create_tag_def insert_tag_def split: option.splits)

lemma seq_tag_object: "tags_seq (db (tagsistant_sql_tag_object env conn n k v i w)) \<le> tags_seq (db w) + 1"
proof -
  let ?g = "tagsistant_sql_get_tag_id env conn n (Some (safe_string k)) (Some (safe_string v))"
  let ?c = "tagsistant_sql_create_tag conn n (Some (safe_string k)) (Some (safe_string v)) (snd (?g w))"
  have "tags_seq (insert_tagging t j d) = tags_seq d" for t j d by (simp add: insert_tagging_def)
  moreover have "tags_seq (db ?c) \<le> tags_seq (db w) + 1" using seq_create_tag[of conn n _ _ "snd (?g w)"] by simp
  ultimately show ?thesis by (cases conn) (simp_all add: tagsistant_sql_tag_object_def Let_def split_beta)
qed

lemma tag_all:
  assumes "store_inv env w" "\<forall>a \<in> set as. named a" "tags_seq (db w) + int (length as) < 2 ^ 31 - 1"
    and w': "w' = fold (traverse_node (\<lambda>n k v. tagsistant_sql_tag_object env True n k v i)) as w"
  shows "store_inv env w'
    \<and> tags_of (sint i) (db w') = tags_of (sint i) (db w) \<union> (\<lambda>a. sint (tag_id_of (db w') (node_key a))) ` set as
    \<and> (\<forall>j. j \<noteq> sint i \<longrightarrow> tags_of j (db w') = tags_of j (db w))
    \<and> (\<forall>t. tag_id_of (db w) t \<noteq> 0 \<longrightarrow> tag_id_of (db w') t = tag_id_of (db w) t)
    \<and> (\<forall>a \<in> set as. tag_id_of (db w') (node_key a) \<noteq> 0)
    \<and> (\<forall>t. t \<notin> node_key ` set as \<longrightarrow> tag_id_of (db w') t = tag_id_of (db w) t)"
  using assms
proof (induction as arbitrary: w)
  case (Cons a as)
  obtain n k v where key: "node_key a = (n, k, v)" by (metis prod_cases3)
  let ?w1 = "tagsistant_sql_tag_object env True (Some n) (Some k) (Some v) i w"
  have pk: "plain_key (n, k, v)" and nm: "named a" using Cons.prems(2) key by (auto simp: named_def)
  have room: "store_room w" using Cons.prems(3) by (simp add: store_room_def)
  have w1: "traverse_node (\<lambda>n k v. tagsistant_sql_tag_object env True n k v i) a w = ?w1"
    using traverse_node_tag[OF nm] key by simp
  note T = tag_object_facts[OF Cons.prems(1) pk room refl, of i]
  have old: "tag_id_of (db ?w1) t = tag_id_of (db w) t" if "tag_id_of (db w) t \<noteq> 0" for t
  proof (cases "t = (n, k, v)")
    case True
    then show ?thesis
      using that ensure(5)[OF Cons.prems(1) pk] ensure(2)[OF Cons.prems(1) pk] by (simp add: tag_object_ensure)
  qed (use T in blast)
  have "tags_seq (db ?w1) + int (length as) < 2 ^ 31 - 1"
    using Cons.prems(3) seq_tag_object[of env True "Some n" "Some k" "Some v" i w] by simp
  moreover have "w' = fold (traverse_node (\<lambda>n k v. tagsistant_sql_tag_object env True n k v i)) as ?w1"
    using Cons.prems(4) w1 by simp
  ultimately have IH: "store_inv env w'"
      "tags_of (sint i) (db w') = tags_of (sint i) (db ?w1) \<union> (\<lambda>a. sint (tag_id_of (db w') (node_key a))) ` set as"
      "\<forall>j. j \<noteq> sint i \<longrightarrow> tags_of j (db w') = tags_of j (db ?w1)"
      "\<forall>t. tag_id_of (db ?w1) t \<noteq> 0 \<longrightarrow> tag_id_of (db w') t = tag_id_of (db ?w1) t"
      "\<forall>a \<in> set as. tag_id_of (db w') (node_key a) \<noteq> 0"
      "\<forall>t. t \<notin> node_key ` set as \<longrightarrow> tag_id_of (db w') t = tag_id_of (db ?w1) t"
    using Cons.IH[of ?w1] T Cons.prems(2) by auto
  have "tag_id_of (db w') (node_key a) = tag_id_of (db ?w1) (n, k, v)" using IH(4) T key by simp
  then show ?case using IH T old key by (auto simp: image_iff)
qed simp

text \<open>A new object: what creating one leaves alone.\<close>

lemma tag_id_of_objects [simp]: "tag_id_of (snd (insert_object n d)) t = tag_id_of d t"
  by (simp add: tag_id_of_def insert_object_def)

lemma tags_seq_insert_object [simp]: "tags_seq (snd (insert_object n d)) = tags_seq d"
  by (simp add: insert_object_def)

lemma set_inode_world [simp]:
  "db (snd (tagsistant_querytree_set_inode env q i w)) = db w"
  "tag_cache (snd (tagsistant_querytree_set_inode env q i w)) = tag_cache w"
  "snapshot (snd (tagsistant_querytree_set_inode env q i w)) = snapshot w"
  "lock_log (snd (tagsistant_querytree_set_inode env q i w)) = lock_log w"
  "pool (snd (tagsistant_querytree_set_inode env q i w)) = pool w"
  "connections (snd (tagsistant_querytree_set_inode env q i w)) = connections w"
  "autotag_queue (snd (tagsistant_querytree_set_inode env q i w)) = autotag_queue w"
  by (simp_all add: tagsistant_querytree_set_inode_def tagsistant_querytree_rebuild_paths_def Let_def)

lemma set_inode_qtree [simp]:
  "q_tree (fst (tagsistant_querytree_set_inode env q i w)) = q_tree q"
  "q_dbi (fst (tagsistant_querytree_set_inode env q i w)) = q_dbi q"
  "q_transaction_started (fst (tagsistant_querytree_set_inode env q i w)) = q_transaction_started q"
  "q_schedule_for_unlink (fst (tagsistant_querytree_set_inode env q i w)) = q_schedule_for_unlink q"
  "i \<noteq> 0 \<Longrightarrow> q_inode (fst (tagsistant_querytree_set_inode env q i w)) = i"
  "q_full_path (fst (tagsistant_querytree_set_inode env q i w)) = q_full_path q"
  by (simp_all add: tagsistant_querytree_set_inode_def tagsistant_querytree_rebuild_paths_def Let_def)

lemma store_inv_set_inode: "store_inv env w \<Longrightarrow> store_inv env (snd (tagsistant_querytree_set_inode env q i w))"
  by (simp add: store_inv_def cache_coherent_def)

lemma create_facts:
  assumes "store_inv env w" "q_dbi q" "\<forall>a \<in> set (map and_data (concat (q_tree q))). named a"
    and "tags_seq (db w) + int (length (concat (q_tree q))) < 2 ^ 31 - 1" "objects_seq (db w) < 2 ^ 31 - 1"
    and fresh: "tags_of (objects_seq (db w) + 1) (db w) = {}"
    and r: "(r, q', w') = tagsistant_inner_create_and_tag_object env q True w"
  shows "r = (objects_seq (db w) + 1, None) \<and> sint (q_inode q') = objects_seq (db w) + 1
    \<and> objects_seq (db w) + 1 \<notin> ob_inode ` set (objects (db w))
    \<and> tags_of (objects_seq (db w) + 1) (db w')
        = (\<lambda>a. sint (tag_id_of (db w') (node_key a))) ` set (map and_data (concat (q_tree q)))
    \<and> (\<forall>j. j \<noteq> objects_seq (db w) + 1 \<longrightarrow> tags_of j (db w') = tags_of j (db w))
    \<and> (\<forall>t. tag_id_of (db w) t \<noteq> 0 \<longrightarrow> tag_id_of (db w') t = tag_id_of (db w) t)
    \<and> store_inv env w'
    \<and> (\<forall>a \<in> set (map and_data (concat (q_tree q))). tag_id_of (db w') (node_key a) \<noteq> 0)
    \<and> (\<forall>t. t \<notin> node_key ` set (map and_data (concat (q_tree q))) \<longrightarrow> tag_id_of (db w') t = tag_id_of (db w) t)"
proof -
  let ?n = "objects_seq (db w) + 1" and ?name = "printf_s (q_object_path q)"
  let ?i = "word_of_int ?n :: 32 word"
  have ok: "db_ok (db w)" using assms(1) by (simp add: store_inv_def)
  then have pos: "1 \<le> ?n" "?n < 2 ^ 31" using assms(5) by (auto simp: db_ok_def)
  then have si: "sint ?i = ?n" by (intro sint_word_of_int32) simp_all
  then have nz: "?i \<noteq> 0" using pos by (metis not_one_le_zero signed_0)
  let ?w1 = "sql_exec True (\<lambda>d. snd (insert_object ?name d)) w"
  let ?s = "tagsistant_querytree_set_inode env q ?i ?w1"
  have inv1: "store_inv env ?w1"
    using assms(1) by (rule store_inv_exec) (simp_all add: db_ok_statements)
  have res: "r = (sint ?i, None)" "q' = fst ?s" "w' = tagsistant_querytree_traverse (fst ?s) (tagsistant_sql_tag_object env) ?i (snd ?s)"
    using r assms(2) nz by (simp_all add: tagsistant_inner_create_and_tag_object_def Let_def split_beta insert_object_def)
  have w': "w' = fold (traverse_node (\<lambda>n k v. tagsistant_sql_tag_object env True n k v ?i)) (map and_data (concat (q_tree q))) (snd ?s)"
    using assms(2) by (simp add: res(3) tagsistant_querytree_traverse_def)
  have "tags_seq (db (snd ?s)) + int (length (map and_data (concat (q_tree q)))) < 2 ^ 31 - 1" using assms(4) by simp
  note T = tag_all[OF store_inv_set_inode[OF inv1] assms(3) this w']
  have "?n \<notin> ob_inode ` set (objects (db w))" using ok by (auto simp: db_ok_def)
  then show ?thesis using T res si nz fresh by simp
qed

text \<open>C11: A forced creation makes one new object, with an inode no object had, and tags it with exactly
  the tags of all the and-sets of the query, creating those that do not exist; the taggings of the
  other objects and the ids of the existing tags are unchanged, and the inode is recorded in the
  query tree and returned.\<close>

theorem create_tags_with_whole_query:
  assumes "store_inv env w" "q_dbi q" "\<forall>a \<in> set (map and_data (concat (q_tree q))). named a"
    and "tags_seq (db w) + int (length (concat (q_tree q))) < 2 ^ 31 - 1" "objects_seq (db w) < 2 ^ 31 - 1"
    and fresh: "tags_of (objects_seq (db w) + 1) (db w) = {}"
    and r: "(r, q', w') = tagsistant_inner_create_and_tag_object env q True w"
  shows "r = (objects_seq (db w) + 1, None) \<and> sint (q_inode q') = objects_seq (db w) + 1
    \<and> objects_seq (db w) + 1 \<notin> ob_inode ` set (objects (db w))
    \<and> tags_of (objects_seq (db w) + 1) (db w')
        = (\<lambda>a. sint (tag_id_of (db w') (node_key a))) ` set (map and_data (concat (q_tree q)))
    \<and> (\<forall>j. j \<noteq> objects_seq (db w) + 1 \<longrightarrow> tags_of j (db w') = tags_of j (db w))
    \<and> (\<forall>t. tag_id_of (db w) t \<noteq> 0 \<longrightarrow> tag_id_of (db w') t = tag_id_of (db w) t)
    \<and> store_inv env w'"
  using create_facts[OF assms] by blast

theorem create_tags_with_whole_query_witness:
  "let q = (new_querytree ''/store/a/+/b/@/g'')\<lparr>q_dbi := True, q_object_path := Some ''g'',
        q_tree := [[And_node (atom_data tagged_file False (Flat ''a'')) None None], [And_node (atom_data tagged_file False (Flat ''b'')) None None]]\<rparr>;
      (r, q', w') = tagsistant_inner_create_and_tag_object sample_env q True (sample_world tagged_file [])
   in r = (2, None) \<and> tags_of 2 (db w') = {1, 2} \<and> tags_of 1 (db w') = {1, 3}"
proof -
  let ?q = "(new_querytree ''/store/a/+/b/@/g'')\<lparr>q_dbi := True, q_object_path := Some ''g'',
        q_tree := [[And_node (atom_data tagged_file False (Flat ''a'')) None None], [And_node (atom_data tagged_file False (Flat ''b'')) None None]]\<rparr>"
  have s: "tags_seq tagged_file = 3" "objects_seq tagged_file = 1"
    by (simp_all add: tagged_file_def empty_db_def insert_tag_def insert_object_def insert_tagging_def tag_triple_def)
  obtain r q' w' where r: "(r, q', w') = tagsistant_inner_create_and_tag_object sample_env ?q True (sample_world tagged_file [])"
    by (metis prod_cases3)
  have 1: "store_inv sample_env (sample_world tagged_file [])" "q_dbi ?q"
    "\<forall>a \<in> set (map and_data (concat (q_tree ?q))). named a"
    "tags_seq (db (sample_world tagged_file [])) + int (length (concat (q_tree ?q))) < 2 ^ 31 - 1"
    "objects_seq (db (sample_world tagged_file [])) < 2 ^ 31 - 1"
    "tags_of (objects_seq (db (sample_world tagged_file [])) + 1) (db (sample_world tagged_file [])) = {}"
    by (simp_all add: s named_def node_key_def new_and_data_def plain_key_def plain_def tags_of_def)
  note T = create_tags_with_whole_query[OF 1 r]
  have "node_key (new_and_data\<lparr>an_tag := Some n, an_tag_id := i, an_negate := b\<rparr>) = (n, '''', '''')" for n i b
    by (simp add: node_key_def)
  then show ?thesis using T unfolding r[symmetric] Let_def by (simp add: s)
qed

end
