(* ===== verification/Operation.thy ===== *)
theory Operation
  imports Object_Utils
begin

section \<open>The frame every file system operation runs in\<close>

text \<open>
  An operation of \<^verbatim>\<open>src/src/fuse_operations\<close> builds the query tree of its path, runs its
  body, and leaves through the label \<^verbatim>\<open>TAGSISTANT_EXIT_OPERATION\<close>, where the query tree
  is destroyed with a commit or a rollback. The frame is a definition with the body as a
  parameter; the locale \<open>operation\<close> states what it asks of a body, and what it gives for it: a
  failed operation leaves the database as it was, the lock taken is released, the connection
  goes back to the pool. Each operation that opens a transaction is an interpretation.
\<close>

subsection \<open>The code\<close>

text \<open>
  How a body leaves: \<open>res\<close> is not -1, or it is and the error number is that of the argument
  (\<open>None\<close> for 0). A system call leaves with -1 and \<^verbatim>\<open>errno\<close>, or with 0.
\<close>

datatype exit_status = Exit_ok | Exit_failed "errno option"

definition sys_exit :: "errno option \<Rightarrow> exit_status" where
  "sys_exit e = (case e of None \<Rightarrow> Exit_ok | Some n \<Rightarrow> Exit_failed (Some n))"

definition abort_operation :: "errno \<Rightarrow> exit_status" where
  "abort_operation e = Exit_failed (Some e)"

text \<open>What the operation returns: \<open>None\<close> for 0, \<open>Some e\<close> for \<open>-e\<close>.\<close>

definition exit_operation :: "'fs env \<Rightarrow> querytree \<Rightarrow> exit_status \<Rightarrow> 'fs world \<Rightarrow> errno option \<times> 'fs world" where
  "exit_operation env q s w =
     (case s of Exit_ok \<Rightarrow> (None, tagsistant_querytree_destroy env q True w)
      | Exit_failed e \<Rightarrow> (e, tagsistant_querytree_destroy env q False w))"

type_synonym 'fs body = "'fs env \<Rightarrow> querytree \<Rightarrow> 'fs world \<Rightarrow> (exit_status \<times> querytree \<times> 'fs world) run"

definition run_operation :: "'fs env \<Rightarrow> bool \<Rightarrow> bool \<Rightarrow> 'fs body \<Rightarrow> string \<Rightarrow> 'fs world \<Rightarrow> (errno option \<times> 'fs world) run" where
  "run_operation env start_transaction disable_reasoner body path w =
     run_bind (tagsistant_querytree_new env path start_transaction True disable_reasoner w)
       (\<lambda>(q, w1). run_bind (body env q w1) (\<lambda>(s, q2, w2). Done (exit_operation env q2 s w2)))"

subsection \<open>Building a query tree changes nothing but the cache\<close>

definition quiet :: "'fs world \<Rightarrow> 'fs world \<Rightarrow> bool" where
  "quiet w w' \<longleftrightarrow> db w' = db w \<and> snapshot w' = snapshot w \<and> lock_log w' = lock_log w \<and> pool w' = pool w \<and>
     connections w' = connections w \<and> autotag_queue w' = autotag_queue w"

definition same_handle :: "querytree \<Rightarrow> querytree \<Rightarrow> bool" where
  "same_handle q q' \<longleftrightarrow> q_dbi q' = q_dbi q \<and> q_transaction_started q' = q_transaction_started q \<and>
     q_schedule_for_unlink q' = q_schedule_for_unlink q \<and> q_full_path q' = q_full_path q"

lemma quiet_refl [simp]: "quiet w w"
  by (simp add: quiet_def)

lemma quiet_trans [trans]: "quiet a b \<Longrightarrow> quiet b c \<Longrightarrow> quiet a c"
  by (simp add: quiet_def)

lemma same_handle_refl [simp]: "same_handle q q"
  by (simp add: same_handle_def)

lemma same_handle_trans [trans]: "same_handle a b \<Longrightarrow> same_handle b c \<Longrightarrow> same_handle a c"
  by (simp add: same_handle_def)

lemma quiet_get_tag_id [simp]: "quiet w (snd (tagsistant_sql_get_tag_id env conn n k v w))"
  using same_frame_get_tag_id[of w env conn n k v] by (simp add: quiet_def same_frame_def)

lemma quiet_node_tag_id [simp]: "quiet w (snd (node_tag_id env conn a w))"
  by (simp add: node_tag_id_def)

lemma quiet_reasoner_inner: "quiet w (snd (tagsistant_reasoner_inner env R w))"
proof (induction env R w rule: tagsistant_reasoner_inner.induct)
  case (1 env R w)
  obtain R1 w1 where v: "(R1, w1) = reasoner_visit env R w" by (metis surj_pair)
  then have w1: "w1 = snd (reasoner_visit env R w)" by (metis snd_conv)
  then have q1: "quiet w w1" by (simp add: reasoner_visit_def Let_def split_beta)
  show ?case
  proof (cases "rs_depth R < length (related_chain (rs_start R))")
    case True
    have unf: "tagsistant_reasoner_inner env R w = (if Suc (rs_depth R1) < length (related_chain (rs_start R1))
        then tagsistant_reasoner_inner env (R1\<lparr>rs_depth := Suc (rs_depth R1)\<rparr>) w1 else (R1, w1))"
      by (subst tagsistant_reasoner_inner.simps) (simp only: v[symmetric] True if_True Let_def split_conv prod.case)
    show ?thesis
    proof (cases "Suc (rs_depth R1) < length (related_chain (rs_start R1))")
      case True2: True
      show ?thesis using "1.IH"[OF True v refl True2] q1 quiet_trans unfolding unf if_P[OF True2] by blast
    qed (use q1 unf in simp)
  next
    case False
    then show ?thesis by (subst tagsistant_reasoner_inner.simps) simp
  qed
qed

lemma quiet_reasoner [simp]: "quiet w (snd (tagsistant_reasoner env conn nd w))"
  using quiet_reasoner_inner[of w env] by (simp add: tagsistant_reasoner_def Let_def split_beta)

lemma quiet_store_reason [simp]: "quiet w (snd (store_reason env q a w))"
  by (simp add: store_reason_def)

lemma store_triple_handle: "same_handle q (fst (snd (store_triple t ts q)))"
  by (simp add: store_triple_def store_operator_def Let_def split_beta same_handle_def split: list.splits option.splits)

lemma store_tag_quiet: "quiet w (snd (store_tag env t ts q w))" "same_handle q (fst (snd (fst (store_tag env t ts q w))))"
  using store_triple_handle[of q t ts] by (simp_all add: store_tag_def Let_def split_beta)

definition state_of :: "(string \<times> parse_state) + parse_state \<Rightarrow> parse_state" where
  "state_of r = (case r of Inl p \<Rightarrow> snd p | Inr s \<Rightarrow> s)"

lemma store_place_quiet:
  assumes "store_place env a s w = Done (r, w')"
  shows "quiet w w'" "same_handle (ps_qtree s) (ps_qtree (state_of r))"
proof -
  have "quiet w w' \<and> same_handle (ps_qtree s) (ps_qtree (state_of r))"
  proof (cases "q_negate_next_tag (ps_qtree s)")
    case True
    then show ?thesis using assms
      by (auto simp: store_place_def Let_def split_beta state_of_def same_handle_def split: if_splits)
  next
    case False
    then show ?thesis using assms
      by (auto simp: store_place_def Let_def split_beta state_of_def split: if_splits)
  qed
  then show "quiet w w'" "same_handle (ps_qtree s) (ps_qtree (state_of r))" by simp_all
qed

definition token_state :: "(string \<times> parse_state) + parse_state \<times> string list \<Rightarrow> parse_state" where
  "token_state r = (case r of Inl p \<Rightarrow> snd p | Inr p \<Rightarrow> fst p)"

lemma token_state_map: "token_state (map_sum id (\<lambda>s. (s, rest)) r) = state_of r"
  by (cases r) (simp_all add: token_state_def state_of_def)

lemma store_token_quiet:
  assumes "store_token env t ts s w = Done (r, w')"
  shows "quiet w w' \<and> same_handle (ps_qtree s) (ps_qtree (token_state r))"
proof (cases "t \<in> {'''', ''-'', ''+'', ''{'', ''}''}")
  case True
  then show ?thesis using assms
    by (auto simp: store_token_def Let_def token_state_def same_handle_def split: if_splits)
next
  case False
  obtain a q1 rest w1 where st: "store_tag env t ts (ps_qtree s) w = ((a, q1, rest), w1)" by (metis prod_cases3 surj_pair)
  then obtain p where p: "store_place env a (s\<lparr>ps_qtree := q1\<rparr>) w1 = Done (p, w')" "r = map_sum id (\<lambda>s2. (s2, rest)) p"
    using assms False by (auto simp: store_token_def run_bind_Done_iff)
  have "quiet w w1" "same_handle (ps_qtree s) q1" using store_tag_quiet(1)[where env = env and t = t and ts = ts and q = "ps_qtree s" and w = w]
      store_tag_quiet(2)[where env = env and t = t and ts = ts and q = "ps_qtree s" and w = w] st by simp_all
  moreover have "quiet w1 w'" "same_handle q1 (ps_qtree (token_state r))"
    using store_place_quiet[OF p(1)] by (simp_all add: p(2) token_state_map)
  ultimately show ?thesis using quiet_trans same_handle_trans by blast
qed

lemma same_handle_finish [simp]:
  "same_handle q (finish_store s) = same_handle q (ps_qtree s)"
  "same_handle q ((finish_store s)\<lparr>q_error_message := m\<rparr>) = same_handle q (ps_qtree s)"
  "same_handle (r\<lparr>q_last_tag := t\<rparr>) q = same_handle r q"
  by (simp_all add: same_handle_def finish_store_def)

lemma loop_quiet:
  "parse_store_loop env tokens s w = Done ((ok, q, rest), w') \<Longrightarrow> quiet w w' \<and> same_handle (ps_qtree s) q"
proof (induction env tokens s w rule: parse_store_loop.induct)
  case (1 env tokens s w)
  show ?case
  proof (cases tokens)
    case Nil
    then show ?thesis using "1.prems" by (subst (asm) parse_store_loop.simps) auto
  next
    case (Cons t ts)
    show ?thesis
    proof (cases "t \<noteq> '''' \<and> hd t = CHR ''@''")
      case True
      then show ?thesis using "1.prems" Cons by (subst (asm) parse_store_loop.simps) auto
    next
      case False
      have u: "parse_store_loop env tokens s w = (case store_token env t ts s w of
            Segv \<Rightarrow> Segv | Hang \<Rightarrow> Hang
          | Done (Inl (e, s1), w1) \<Rightarrow> Done ((False, (finish_store s1)\<lparr>q_error_message := Some e\<rparr>, t # ts), w1)
          | Done (Inr (s1, r), w1) \<Rightarrow> parse_store_loop env (tl r) (s1\<lparr>ps_qtree := (ps_qtree s1)\<lparr>q_last_tag := Some (hd r)\<rparr>\<rparr>) w1)"
        using False by (subst parse_store_loop.simps) (auto simp: Cons)
      from "1.prems" consider e s1 w1 where "store_token env t ts s w = Done (Inl (e, s1), w1)" "w1 = w'"
            "q = (finish_store s1)\<lparr>q_error_message := Some e\<rparr>"
        | s1 r w1 where "store_token env t ts s w = Done (Inr (s1, r), w1)"
            "parse_store_loop env (tl r) (s1\<lparr>ps_qtree := (ps_qtree s1)\<lparr>q_last_tag := Some (hd r)\<rparr>\<rparr>) w1 = Done ((ok, q, rest), w')"
        unfolding u by (auto split: run.splits sum.splits prod.splits)
      then show ?thesis
      proof cases
        case 1
        then show ?thesis using store_token_quiet[OF 1(1)] by (simp add: token_state_def)
      next
        case 2
        have "quiet w1 w' \<and> same_handle (ps_qtree (s1\<lparr>ps_qtree := (ps_qtree s1)\<lparr>q_last_tag := Some (hd r)\<rparr>\<rparr>)) q"
          using "1.IH"[OF Cons False 2(1) refl refl refl 2(2)] .
        then show ?thesis using store_token_quiet[OF 2(1)] quiet_trans same_handle_trans by (auto simp: token_state_def)
      qed
    qed
  qed
qed

lemma parse_store_quiet:
  "tagsistant_querytree_parse_store env q path tokens dr w = Done ((ok, q', rest), w') \<Longrightarrow> quiet w w' \<and> same_handle q q'"
  unfolding tagsistant_querytree_parse_store_def Let_def by (drule loop_quiet) (simp add: same_handle_def split: if_splits)

lemma parse_tags_handle: "same_handle q (fst (tagsistant_querytree_parse_tags q ts))"
  by (simp add: tagsistant_querytree_parse_tags_def Let_def same_handle_def split: list.splits)

lemma consume_triple_handle: "same_handle q (fst (tagsistant_querytree_parse_relations_consume_triple q t ts b))"
  by (simp add: tagsistant_querytree_parse_relations_consume_triple_def Let_def same_handle_def split: list.splits)

lemma right_tag_handle: "same_handle q (fst (parse_right_tag q ts))"
proof (cases ts)
  case (Cons t us)
  show ?thesis using consume_triple_handle[of q t us True]
    by (auto simp: Cons parse_right_tag_def Let_def split_beta same_handle_def)
qed (simp add: parse_right_tag_def)

lemma relation_and_right_handle: "same_handle q (fst (snd (parse_relation_and_right q ts)))"
proof (cases ts)
  case (Cons r us)
  have "same_handle q (q\<lparr>q_relation := Some r\<rparr>)" by (simp add: same_handle_def)
  then have "same_handle q (fst (parse_right_tag (q\<lparr>q_relation := Some r\<rparr>) us))"
    using right_tag_handle same_handle_trans by blast
  then show ?thesis by (simp add: Cons parse_relation_and_right_def Let_def split_beta)
qed (simp add: parse_relation_and_right_def)

lemma parse_relations_handle: "same_handle q (fst (snd (tagsistant_querytree_parse_relations q ts)))"
proof (cases ts)
  case (Cons t us)
  let ?l = "if is_triple_token t then tagsistant_querytree_parse_relations_consume_triple q t us False
      else (q\<lparr>q_first_tag := Some t\<rparr>, t # us)"
  have "same_handle q (q\<lparr>q_first_tag := Some t\<rparr>)" by (simp add: same_handle_def)
  then have "same_handle q (fst ?l)" using consume_triple_handle by simp
  then have "same_handle q (fst (snd (parse_relation_and_right (fst ?l) (tl (snd ?l)))))"
    using relation_and_right_handle same_handle_trans by blast
  then show ?thesis by (simp add: Cons tagsistant_querytree_parse_relations_def Let_def split_beta)
qed (simp add: tagsistant_querytree_parse_relations_def)

lemma parse_tokens_quiet:
  assumes "parse_tokens env q tokens dr w = Done ((ok, q', rest), w')"
  shows "quiet w w' \<and> same_handle q q'"
proof (cases "q_type q")
  case QTYPE_STORE
  then show ?thesis using assms parse_store_quiet by (simp add: parse_tokens_def)
next
  case QTYPE_TAGS
  then show ?thesis using assms parse_tags_handle[of q tokens] by (auto simp: parse_tokens_def Let_def split_beta)
next
  case QTYPE_RELATIONS
  then show ?thesis using assms parse_relations_handle[of q tokens] by (auto simp: parse_tokens_def Let_def split_beta)
next
  case QTYPE_STATS
  then show ?thesis using assms by (auto simp: parse_tokens_def tagsistant_querytree_parse_stats_def same_handle_def split: list.splits)
next
  case QTYPE_ALIAS
  then show ?thesis using assms by (auto simp: parse_tokens_def tagsistant_querytree_parse_alias_def same_handle_def Let_def
      split: list.splits if_splits)
qed (use assms in \<open>simp_all add: parse_tokens_def\<close>)

lemma set_inode_quiet: "quiet w (snd (tagsistant_querytree_set_inode env q i w))"
  by (simp add: quiet_def)

lemma set_inode_handle: "same_handle q (fst (tagsistant_querytree_set_inode env q i w))"
  by (simp add: same_handle_def)

lemma archive_object_quiet:
  "quiet w (snd (archive_object env q ts w))" "same_handle q (fst (archive_object env q ts w))"
  by (simp_all add: archive_object_def Let_def split_beta quiet_def same_handle_def)

lemma store_inode_handle: "store_inode env q ts w = Done q' \<Longrightarrow> same_handle q q'"
  by (auto simp: store_inode_def Let_def run_bind_Done_iff same_handle_def split: if_splits)

lemma store_finish_quiet: "quiet w (snd (store_finish env q w))" "same_handle q (fst (store_finish env q w))"
  by (simp_all add: store_finish_def Let_def split_beta quiet_def same_handle_def)

lemma store_object_quiet:
  assumes "store_object env q ts w = Done (q', w')"
  shows "quiet w w' \<and> same_handle q q'"
proof -
  obtain q1 where 1: "store_inode env q ts w = Done q1" "(q', w') = store_finish env q1 w"
    using assms by (auto simp: store_object_def run_bind_Done_iff)
  have "q' = fst (store_finish env q1 w)" "w' = snd (store_finish env q1 w)" using 1(2) by (metis fst_conv, metis snd_conv)
  then show ?thesis using store_inode_handle[OF 1(1)] store_finish_quiet same_handle_trans by blast
qed

lemma resolve_object_quiet:
  assumes "resolve_object env q ts w = Done (q', w')"
  shows "quiet w w' \<and> same_handle q q'"
proof -
  obtain q1 where q1: "(if q_type q = QTYPE_ARCHIVE then Done (archive_object env q ts w)
               else if q_type q = QTYPE_STORE \<and> q_complete q then store_object env q ts w
               else Done (q, w)) = Done (q1, w')" "q' = q1\<lparr>q_points_to_object := points_to_object q1\<rparr>"
    using assms by (auto simp: resolve_object_def run_bind_Done_iff)
  have "quiet w w' \<and> same_handle q q1"
    using q1(1) archive_object_quiet(1)[where env = env and q = q and ts = ts and w = w]
      archive_object_quiet(2)[where env = env and q = q and ts = ts and w = w]
      store_object_quiet[of env q ts w q1 w'] by (auto split: if_splits)
  then show ?thesis by (simp add: q1(2) same_handle_def)
qed

lemma return_handle [simp]: "same_handle q (qtree_return r) = same_handle q r"
  by (simp add: qtree_return_def same_handle_def)

lemma resolve_path_quiet:
  assumes "resolve_path env q dr w = Done (q', w')"
  shows "quiet w w' \<and> same_handle q q'"
proof -
  obtain x where x: "(if strstr ''/@'' (q_full_path q) then tagsistant_expand_path env (q_dbi q) w (q_full_path q)
               else Done (q_full_path q)) = Done x"
    using assms unfolding resolve_path_def run_bind_Done_iff by blast
  have r: "(case tl (g_strsplit (CHR ''/'') 512 x) of
               [] \<Rightarrow> Segv
             | t # ts \<Rightarrow>
                 let q2 = q\<lparr>q_expanded_full_path := x, q_type := guess_type t\<rparr>
                 in if q_type q2 = QTYPE_MALFORMED then Done (qtree_return q2, w)
                    else run_bind (parse_tokens env q2 ts dr w)
                      (\<lambda>((ok, q3, rest), w3).
                         if \<not> ok then Done (qtree_return q3, w3)
                         else run_bind (resolve_object env q3 rest w3) (\<lambda>(q4, w4). Done (qtree_return q4, w4)))) = Done (q', w')"
    using assms unfolding resolve_path_def x run_bind_simps Let_def .
  then obtain t ts where tk: "tl (g_strsplit (CHR ''/'') 512 x) = t # ts" by (auto split: list.splits)
  let ?q2 = "q\<lparr>q_expanded_full_path := x, q_type := guess_type t\<rparr>"
  have q2: "same_handle q ?q2" by (simp add: same_handle_def)
  show ?thesis
  proof (cases "guess_type t = QTYPE_MALFORMED")
    case True
    then show ?thesis using r q2 by (auto simp: tk Let_def)
  next
    case False
    then obtain ok q3 rest w3 where p: "parse_tokens env ?q2 ts dr w = Done ((ok, q3, rest), w3)"
        "(if \<not> ok then Done (qtree_return q3, w3)
          else run_bind (resolve_object env q3 rest w3) (\<lambda>(q4, w4). Done (qtree_return q4, w4))) = Done (q', w')"
      using r by (auto simp: tk Let_def run_bind_Done_iff)
    have "quiet w3 w' \<and> same_handle q3 q'"
      using p(2) resolve_object_quiet by (fastforce simp: run_bind_Done_iff split: if_splits)
    then show ?thesis using parse_tokens_quiet[OF p(1)] q2 quiet_trans same_handle_trans by blast
  qed
qed

subsection \<open>The contract of a body, and what the frame gives for it\<close>

text \<open>What a body leaves alone, and the invariant it keeps.\<close>

definition body_frame :: "querytree \<Rightarrow> 'fs world \<Rightarrow> querytree \<Rightarrow> 'fs world \<Rightarrow> bool" where
  "body_frame q w q' w' \<longleftrightarrow> q_dbi q' = q_dbi q \<and> q_transaction_started q' = q_transaction_started q \<and>
     snapshot w' = snapshot w \<and> lock_log w' = lock_log w \<and> pool w' = pool w \<and> connections w' = connections w \<and>
     (db_ok (db w) \<longrightarrow> db_ok (db w'))"

lemma body_frame_refl [simp]: "body_frame q w q w"
  by (simp add: body_frame_def)

lemma body_frame_trans [trans]: "body_frame q w q1 w1 \<Longrightarrow> body_frame q1 w1 q2 w2 \<Longrightarrow> body_frame q w q2 w2"
  by (simp add: body_frame_def)

lemma quiet_body_frame: "quiet w w' \<Longrightarrow> same_handle q q' \<Longrightarrow> body_frame q w q' w'"
  by (simp add: quiet_def same_handle_def body_frame_def)

lemma frame_body_frame: "same_frame w w' \<Longrightarrow> (db_ok (db w) \<Longrightarrow> db_ok (db w')) \<Longrightarrow> body_frame q w q w'"
  by (simp add: same_frame_def body_frame_def)

lemma connection_simps [simp]:
  "db (tagsistant_db_connection b w) = db w"
  "snapshot (tagsistant_db_connection b w) = (if b then Some (db w) else snapshot w)"
  "lock_log (tagsistant_db_connection b w) = lock_log w @ [if b then Writer_lock else Reader_lock]"
  "pool (tagsistant_db_connection b w) = pool w - 1"
  "connections (tagsistant_db_connection b w) = (if 0 < pool w then connections w else connections w + 1)"
  "tag_cache (tagsistant_db_connection b w) = tag_cache w"
  "fs (tagsistant_db_connection b w) = fs w"
  by (simp_all add: tagsistant_db_connection_def log_lock_def Let_def)

lemma querytree_new_facts:
  assumes "tagsistant_querytree_new env path st True dr w = Done (q, w1)"
  shows "q_dbi q" "q_transaction_started q = st" "\<not> q_schedule_for_unlink q" "quiet (tagsistant_db_connection st w) w1"
    "q_full_path q = path"
  using resolve_path_quiet[of env "(new_querytree path)\<lparr>q_dbi := True, q_transaction_started := st\<rparr>" dr
      "tagsistant_db_connection st w" q w1] assms
  by (simp_all add: tagsistant_querytree_new_def Let_def same_handle_def new_querytree_def)

lemma destroy_world:
  assumes "q_dbi q" "q_transaction_started q = st"
  shows "lock_log (tagsistant_querytree_destroy env q c w) = lock_log w @ [if st then Writer_unlock else Reader_unlock]"
    "pool (tagsistant_querytree_destroy env q c w) = pool w + 1"
    "connections (tagsistant_querytree_destroy env q c w) = connections w"
    "db (tagsistant_querytree_destroy env q c w) = (if st \<and> \<not> c then case snapshot w of None \<Rightarrow> db w | Some d \<Rightarrow> d else db w)"
    "snapshot (tagsistant_querytree_destroy env q c w) = (if st then None else snapshot w)"
  using assms by (auto simp: tagsistant_querytree_destroy_def Let_def tagsistant_db_connection_release_def log_lock_def
      tagsistant_commit_transaction_def tagsistant_rollback_transaction_def split: option.splits)

locale operation =
  fixes body :: "'fs body"
  assumes body_ok: "q_dbi q \<Longrightarrow> body env q w = Done (s, q', w') \<Longrightarrow> body_frame q w q' w'"
begin

lemma run_facts:
  assumes "run_operation env st dr body path w = Done (r, w')"
  shows "lock_log w' = lock_log w @ (if st then [Writer_lock, Writer_unlock] else [Reader_lock, Reader_unlock])"
    and "pool w' = max 1 (pool w)" and "connections w' = (if 0 < pool w then connections w else connections w + 1)"
    and "db_ok (db w) \<Longrightarrow> db_ok (db w')"
    and "st \<Longrightarrow> r \<noteq> None \<Longrightarrow> db w' = db w"
    and "snapshot w' = (if st then None else snapshot w)"
proof -
  obtain q w1 s q2 w2 where 1: "tagsistant_querytree_new env path st True dr w = Done (q, w1)"
      "body env q w1 = Done (s, q2, w2)" "(r, w') = exit_operation env q2 s w2"
    using assms by (auto simp: run_operation_def run_bind_Done_iff)
  note N = querytree_new_facts[OF 1(1)]
  note B = body_ok[OF N(1) 1(2)]
  define c where "c = (s = Exit_ok)"
  have w': "w' = tagsistant_querytree_destroy env q2 c w2" and rs: "r \<noteq> None \<Longrightarrow> \<not> c"
    using 1(3) by (auto simp: exit_operation_def c_def split: exit_status.splits)
  have h: "q_dbi q2" "q_transaction_started q2 = st" using N B by (simp_all add: body_frame_def)
  note D = destroy_world[OF h, of env c w2, folded w']
  have sn: "snapshot w2 = (if st then Some (db w) else snapshot w)" using B N(4) by (simp add: body_frame_def quiet_def)
  show "lock_log w' = lock_log w @ (if st then [Writer_lock, Writer_unlock] else [Reader_lock, Reader_unlock])"
    using D(1) B N(4) by (simp add: body_frame_def quiet_def)
  show "pool w' = max 1 (pool w)" using D(2) B N(4) by (simp add: body_frame_def quiet_def)
  show "connections w' = (if 0 < pool w then connections w else connections w + 1)"
    using D(3) B N(4) by (simp add: body_frame_def quiet_def)
  have "db_ok (db w2)" if "db_ok (db w)" using B N(4) that by (simp add: body_frame_def quiet_def)
  then show "db_ok (db w')" if "db_ok (db w)" using D(4) sn that by (cases st) auto
  show "db w' = db w" if "st" "r \<noteq> None" using D(4) sn rs that by simp
  show "snapshot w' = (if st then None else snapshot w)" using D(5) sn by simp
qed

end

text \<open>A body that touches the file system under \<^verbatim>\<open>archive/\<close> only.\<close>

locale pure_operation = operation +
  assumes body_pure: "body env q w = Done (s, q', w') \<Longrightarrow> db w' = db w"
begin

lemma run_pure:
  assumes "run_operation env False dr body path w = Done (r, w')"
  shows "db w' = db w"
proof -
  obtain q w1 s q2 w2 where 1: "tagsistant_querytree_new env path False True dr w = Done (q, w1)"
      "body env q w1 = Done (s, q2, w2)" "(r, w') = exit_operation env q2 s w2"
    using assms by (auto simp: run_operation_def run_bind_Done_iff)
  note N = querytree_new_facts[OF 1(1)]
  have h: "q_dbi q2" "q_transaction_started q2 = False" using N body_ok[OF N(1) 1(2)] by (simp_all add: body_frame_def)
  have "db w' = db w2" using 1(3) destroy_world(4)[OF h] by (auto simp: exit_operation_def split: exit_status.splits)
  then show ?thesis using body_pure[OF 1(2)] N(4) by (simp add: quiet_def)
qed

end

subsection \<open>Query trees of paths given by their components\<close>

text \<open>The path with the given components.\<close>

definition path_of :: "string list \<Rightarrow> string" where
  "path_of ts = concat (map (\<lambda>t. CHR ''/'' # t) ts)"

lemma path_of_simps [simp]: "path_of [] = []" "path_of (t # ts) = CHR ''/'' # t @ path_of ts"
  by (simp_all add: path_of_def)

lemma path_of_joinv: "ts \<noteq> [] \<Longrightarrow> path_of ts = CHR ''/'' # g_strjoinv (CHR ''/'') ts"
proof (induction ts)
  case (Cons t ts)
  then show ?case by (cases ts) simp_all
qed simp

definition components_ok :: "string list \<Rightarrow> bool" where
  "components_ok ts \<longleftrightarrow> length ts \<le> 511 \<and> (\<forall>t \<in> set ts. CHR ''/'' \<notin> set t \<and> \<not> prefix ''@'' t)"

lemma path_tokens:
  assumes "ts \<noteq> []" "components_ok ts"
  shows "tl (g_strsplit (CHR ''/'') 512 (path_of ts)) = ts"
proof -
  have "g_strjoinv (CHR ''/'') ([] # ts) = path_of ts" using assms(1) by (simp add: g_strjoinv_Cons path_of_joinv)
  then have "split_upto 511 (CHR ''/'') (path_of ts) = [] # ts"
    using split_joinv[of "[] # ts" "CHR ''/''" 511] assms by (auto simp: components_ok_def)
  then show ?thesis using assms(1) by (cases ts) (simp_all add: g_strsplit_def)
qed

lemma strstr_skip: "CHR ''/'' \<notin> set t \<Longrightarrow> strstr (CHR ''/'' # p) (t @ s) = strstr (CHR ''/'' # p) s"
  by (induction t) auto

lemma no_query_delimiter: "\<forall>t \<in> set ts. CHR ''/'' \<notin> set t \<and> \<not> prefix ''@'' t \<Longrightarrow> \<not> strstr ''/@'' (path_of ts)"
proof (induction ts)
  case (Cons t ts)
  have "\<not> prefix ''@'' (t @ path_of ts)" using Cons.prems by (cases t; cases ts) auto
  then show ?case using Cons by (simp add: strstr_skip)
qed simp

lemma querytree_new_eval:
  assumes "components_ok (t # ts)"
  shows "tagsistant_querytree_new env (path_of (t # ts)) st True dr w =
    (let q = (new_querytree (path_of (t # ts)))\<lparr>q_dbi := True, q_transaction_started := st, q_type := guess_type t\<rparr>;
         w1 = tagsistant_db_connection st w
     in if q_type q = QTYPE_MALFORMED then Done (qtree_return q, w1)
        else run_bind (parse_tokens env q ts dr w1)
          (\<lambda>((ok, q3, rest), w3). if \<not> ok then Done (qtree_return q3, w3)
             else run_bind (resolve_object env q3 rest w3) (\<lambda>(q4, w4). Done (qtree_return q4, w4))))"
proof -
  have s: "\<not> strstr ''/@'' (path_of (t # ts))" using assms by (intro no_query_delimiter) (simp add: components_ok_def)
  note p = path_tokens[OF list.distinct(2) assms]
  show ?thesis using s unfolding tagsistant_querytree_new_def resolve_path_def Let_def
    by (simp add: p new_querytree_def Let_def del: path_of_simps strstr.simps)
qed

end
