(* ===== verification/Fuse_Directories.thy ===== *)
theory Fuse_Directories
  imports Operation
begin

section \<open>mkdir, rmdir\<close>

text \<open>
  The bodies of \<^verbatim>\<open>src/src/fuse_operations/mkdir.c\<close> and \<^verbatim>\<open>rmdir.c\<close>, branch by
  branch, and their interpretation in the frame of an operation. Directories are tags under
  \<^verbatim>\<open>store/\<close> and \<^verbatim>\<open>tags/\<close>, relations under \<^verbatim>\<open>relations/\<close>, and real directories under
  \<^verbatim>\<open>archive/\<close> and after the delimiter of a query.
\<close>

subsection \<open>mkdir\<close>

definition IS_VALID_RELATION :: "gchars \<Rightarrow> bool" where
  "IS_VALID_RELATION r \<longleftrightarrow> r \<in> {Some ''is_equivalent'', Some ''includes'', Some ''excludes''}"

text \<open>A call of the creation whose result is -1 leaves with its error number.\<close>

definition create_failed :: "int \<times> errno option \<Rightarrow> bool" where
  "create_failed r \<longleftrightarrow> fst r = -1"

definition mkdir_object :: "nat \<Rightarrow> 'fs body" where
  "mkdir_object mode env q w =
     run_bind (tagsistant_querytree_check_tagging_consistency env q w)
       (\<lambda>(_, q1).
          let (r, q2, w2) = (if q_is_taggable q1 then tagsistant_inner_create_and_tag_object env q1 True w else ((0, None), q1, w))
          in if create_failed r then Done (Exit_failed (snd r), q2, w2)
             else let (e, fs2) = os_mkdir (sys env) (q_full_archive_path q2) mode (fs w2)
                  in Done (sys_exit e, q2, w2\<lparr>fs := fs2\<rparr>))"

definition mkdir_tags :: "'fs body" where
  "mkdir_tags env q w =
     (if q_first_tag q \<noteq> None then
        if q_second_tag q \<noteq> None then Done (abort_operation EROFS, q, w)
        else Done (Exit_ok, q, tagsistant_sql_create_tag (q_dbi q) (q_first_tag q) None None w)
      else if q_namespace q \<noteq> None
      then Done (Exit_ok, q, tagsistant_sql_create_tag (q_dbi q) (q_namespace q) (q_key q) (q_value q) w)
      else Done (Exit_ok, q, w))"

definition mkdir_store :: "'fs body" where
  "mkdir_store env q w =
     (if q_namespace q \<noteq> None
      then Done (Exit_ok, q, tagsistant_sql_create_tag (q_dbi q) (q_namespace q) (q_key q) (q_value q) w)
      else if q_last_tag q \<noteq> None
      then Done (Exit_ok, q, tagsistant_sql_create_tag (q_dbi q) (q_last_tag q) None None w)
      else Done (Exit_ok, q, w))"

text \<open>The id of a tag, created if it is not there.\<close>

definition get_or_create :: "'fs env \<Rightarrow> dbi_conn \<Rightarrow> gchars \<Rightarrow> gchars \<Rightarrow> gchars \<Rightarrow> 'fs world \<Rightarrow> tagsistant_tag_id \<times> 'fs world" where
  "get_or_create env conn n k v w =
     (let (i, w1) = tagsistant_sql_get_tag_id env conn n k v w
      in if i = 0 then tagsistant_sql_get_tag_id env conn n k v (tagsistant_sql_create_tag conn n k v w1) else (i, w1))"

definition mkdir_relations :: "'fs body" where
  "mkdir_relations env q w =
     (if q_second_tag q \<noteq> None \<or> q_related_namespace q \<noteq> None then
        let (tag1_id, w1) = (if q_first_tag q \<noteq> None
               then tagsistant_sql_get_tag_id env (q_dbi q) (q_first_tag q) None None w
               else tagsistant_sql_get_tag_id env (q_dbi q) (q_namespace q) (q_key q) (q_value q) w);
            (tag2_id, w2) = (if q_second_tag q \<noteq> None
               then get_or_create env (q_dbi q) (q_second_tag q) None None w1
               else get_or_create env (q_dbi q) (q_related_namespace q) (q_related_key q) (q_related_value q) w1)
        in if \<not> (tag1_id \<noteq> 0 \<and> tag2_id \<noteq> 0 \<and> IS_VALID_RELATION (q_relation q)) then Done (abort_operation EFAULT, q, w2)
           else if q_second_tag q \<noteq> None \<or>
               q_related_namespace q \<noteq> None \<and> q_related_key q \<noteq> None \<and> q_related_value q \<noteq> None
           then Done (Exit_ok, q, sql_exec (q_dbi q) (insert_relation (sint tag1_id) (sint tag2_id) (printf_s (q_relation q))) w2)
           else Done (Exit_ok, q, w2)
      else Done (abort_operation EROFS, q, w))"

definition mkdir_body :: "nat \<Rightarrow> 'fs body" where
  "mkdir_body mode env q w =
     (if q_type q = QTYPE_MALFORMED then Done (abort_operation EROFS, q, w)
      else if q_points_to_object q then mkdir_object mode env q w
      else if q_type q = QTYPE_TAGS then mkdir_tags env q w
      else if q_type q = QTYPE_STORE then mkdir_store env q w
      else if q_type q = QTYPE_RELATIONS then mkdir_relations env q w
      else Done (abort_operation EROFS, q, w))"

definition tagsistant_mkdir :: "'fs env \<Rightarrow> string \<Rightarrow> nat \<Rightarrow> 'fs world \<Rightarrow> (errno option \<times> 'fs world) run" where
  "tagsistant_mkdir env path mode w = run_operation env True False (mkdir_body mode) path w"

subsection \<open>rmdir\<close>

definition tagsistant_sql_delete_tag_proxy ::
    "'fs env \<Rightarrow> dbi_conn \<Rightarrow> gchars \<Rightarrow> gchars \<Rightarrow> gchars \<Rightarrow> tagsistant_inode \<Rightarrow> 'fs world \<Rightarrow> 'fs world" where
  "tagsistant_sql_delete_tag_proxy env conn namespace key value unused w =
     tagsistant_sql_delete_tag env conn namespace key value w"

text \<open>
  Untagging an object from all the tags of the query, and forgetting it if no tag is left: the
  flag says that it is to be removed from the disk. \<^verbatim>\<open>rmdir()\<close> and \<^verbatim>\<open>unlink()\<close> share it.
\<close>

definition untag_and_forget :: "'fs env \<Rightarrow> querytree \<Rightarrow> 'fs world \<Rightarrow> bool \<times> 'fs world" where
  "untag_and_forget env q w =
     (let w1 = tagsistant_querytree_traverse q (tagsistant_sql_untag_object env) (q_inode q) w
      in if \<not> tagsistant_object_is_tagged env (q_dbi q) (q_inode q) w1
         then (True, sql_exec (q_dbi q) (delete_object (sint (q_inode q))) w1)
         else (False, w1))"

definition rmdir_store :: "'fs body" where
  "rmdir_store env q w =
     run_bind (tagsistant_querytree_check_tagging_consistency env q w)
       (\<lambda>(_, q1).
          let (do_rmdir, w1) =
            (if \<not> q_complete q1 then (False, tagsistant_querytree_traverse q1 (tagsistant_sql_delete_tag_proxy env) 0 w)
             else if q_is_taggable q1 then untag_and_forget env q1 w
             else (True, w))
          in if do_rmdir
             then let (e, fs1) = os_rmdir (sys env) (q_full_archive_path q1) (fs w1) in Done (sys_exit e, q1, w1\<lparr>fs := fs1\<rparr>)
             else Done (Exit_ok, q1, w1))"

definition rmdir_relations :: "'fs body" where
  "rmdir_relations env q w =
     (if q_second_tag q \<noteq> None then
        let (tag1_id, w1) = tagsistant_sql_get_tag_id env (q_dbi q) (q_first_tag q) None None w;
            (tag2_id, w2) = tagsistant_sql_get_tag_id env (q_dbi q) (q_second_tag q) None None w1
        in if tag1_id \<noteq> 0 \<and> tag2_id \<noteq> 0 \<and> IS_VALID_RELATION (q_relation q)
           then Done (Exit_ok, q, sql_exec (q_dbi q) (delete_relation (sint tag1_id) (sint tag2_id) (printf_s (q_relation q))) w2)
           else Done (abort_operation EFAULT, q, w2)
      else Done (abort_operation EROFS, q, w))"

definition rmdir_tags :: "'fs body" where
  "rmdir_tags env q w =
     (if q_first_tag q = None \<and> q_namespace q = None then Done (abort_operation EROFS, q, w)
      else if q_first_tag q \<noteq> None
      then Done (Exit_ok, q, tagsistant_sql_delete_tag env (q_dbi q) (q_first_tag q) None None w)
      else Done (Exit_ok, q, tagsistant_sql_delete_tag env (q_dbi q) (q_namespace q) (q_key q) (q_value q) w))"

definition rmdir_body :: "'fs body" where
  "rmdir_body env q w =
     (if q_type q = QTYPE_MALFORMED then Done (abort_operation ENOENT, q, w)
      else if q_type q = QTYPE_STORE then rmdir_store env q w
      else if q_type q = QTYPE_RELATIONS then rmdir_relations env q w
      else if q_type q = QTYPE_TAGS then rmdir_tags env q w
      else Done (abort_operation EROFS, q, w))"

definition tagsistant_rmdir :: "'fs env \<Rightarrow> string \<Rightarrow> 'fs world \<Rightarrow> (errno option \<times> 'fs world) run" where
  "tagsistant_rmdir env path w = run_operation env True False rmdir_body path w"

subsection \<open>Frames\<close>

lemma check_consistency_handle:
  "tagsistant_querytree_check_tagging_consistency env q w = Done (b, q') \<Longrightarrow> same_handle q q'"
  by (auto simp: tagsistant_querytree_check_tagging_consistency_def run_bind_Done_iff same_handle_def Let_def
      split: option.splits if_splits)

lemma body_frame_fs [simp]: "body_frame q w q' (w'\<lparr>fs := f\<rparr>) = body_frame q w q' w'"
  by (simp add: body_frame_def)

lemma traverse_frame:
  assumes "\<And>n k v w. body_frame q w q (f (q_dbi q) n k v i w)"
  shows "body_frame q w q (tagsistant_querytree_traverse q f i w)"
proof -
  have "body_frame q w q (fold (traverse_node (\<lambda>n k v. f (q_dbi q) n k v i)) as w)" for as w
  proof (induction as arbitrary: w)
    case (Cons a as)
    have "body_frame q w q (traverse_node (\<lambda>n k v. f (q_dbi q) n k v i) a w)"
      using assms by (simp add: traverse_node_def)
    then show ?case using Cons[of "traverse_node (\<lambda>n k v. f (q_dbi q) n k v i) a w"] body_frame_trans by simp
  qed simp
  then show ?thesis by (simp add: tagsistant_querytree_traverse_def)
qed

lemma sql_frames [simp]:
  "body_frame q w q (tagsistant_sql_tag_object env c n k v i w)"
  "body_frame q w q (tagsistant_sql_untag_object env c n k v i w)"
  "body_frame q w q (tagsistant_sql_delete_tag env c n k v w)"
  "body_frame q w q (tagsistant_sql_create_tag c n k v w)"
  "body_frame q w q (snd (tagsistant_sql_get_tag_id env c n k v w))"
  by (auto intro!: frame_body_frame)

lemma sql_exec_frame: "(\<And>d. db_ok d \<Longrightarrow> db_ok (f d)) \<Longrightarrow> body_frame q w q (sql_exec c f w)"
  by (rule frame_body_frame) simp_all

lemma body_frame_other: "body_frame q w q w' \<Longrightarrow> q_dbi r = q_dbi q \<Longrightarrow> q_transaction_started r = q_transaction_started q \<Longrightarrow> body_frame r w r w'"
  by (simp add: body_frame_def)

lemma create_frame:
  assumes "(r, q', w') = tagsistant_inner_create_and_tag_object env q b w"
  shows "body_frame q w q' w'"
proof -
  define name where "name = printf_s (q_object_path q)"
  define found where "found = (if b then 0 else tagsistant_return_first env (q_dbi q) (select_inodes (\<lambda>r. ob_name r = name) (db w)) 0)"
  define p where "p = (if b \<or> found = 0 then (if q_dbi q then word_of_int (fst (insert_object name (db w))) else 0,
                   sql_exec (q_dbi q) (\<lambda>d. snd (insert_object name d)) w) else (found, w))"
  let ?s = "tagsistant_querytree_set_inode env q (fst p) (snd p)"
  have p: "body_frame q w q (snd p)" by (simp add: p_def sql_exec_frame db_ok_statements)
  have e: "(r, q', w') = (if fst p = 0 then ((-1, Some EIO), q, snd p)
      else ((sint (fst p), None), fst ?s, tagsistant_querytree_traverse (fst ?s) (tagsistant_sql_tag_object env) (fst p) (snd ?s)))"
    unfolding assms tagsistant_inner_create_and_tag_object_def Let_def by (simp add: p_def found_def name_def split_beta)
  have s: "body_frame q (snd p) (fst ?s) (snd ?s)" by (rule quiet_body_frame[OF set_inode_quiet set_inode_handle])
  have "body_frame (fst ?s) (snd ?s) (fst ?s) (tagsistant_querytree_traverse (fst ?s) (tagsistant_sql_tag_object env) (fst p) (snd ?s))"
    by (rule traverse_frame) simp
  note t = body_frame_trans[OF body_frame_trans[OF p s] this]
  show ?thesis using p t e by (cases "fst p = 0") simp_all
qed

lemma untag_and_forget_frame: "body_frame q w q (snd (untag_and_forget env q w))"
proof -
  let ?w1 = "tagsistant_querytree_traverse q (tagsistant_sql_untag_object env) (q_inode q) w"
  have 1: "body_frame q w q ?w1" by (rule traverse_frame) simp
  have "body_frame q ?w1 q (sql_exec (q_dbi q) (delete_object (sint (q_inode q))) ?w1)"
    by (rule sql_exec_frame) (simp add: db_ok_statements)
  with 1 show ?thesis by (simp add: untag_and_forget_def Let_def body_frame_trans[OF 1])
qed

lemma get_or_create_frame: "body_frame q w q (snd (get_or_create env c n k v w))"
proof -
  let ?g = "tagsistant_sql_get_tag_id env c n k v"
  have "body_frame q w q (snd (?g (tagsistant_sql_create_tag c n k v (snd (?g w)))))"
    by (meson body_frame_trans sql_frames)
  then show ?thesis by (simp add: get_or_create_def Let_def split_beta)
qed

lemma check_then_frame:
  assumes "run_bind (tagsistant_querytree_check_tagging_consistency env q w) f = Done (s, q', w')"
    and "\<And>b q1. same_handle q q1 \<Longrightarrow> f (b, q1) = Done (s, q', w') \<Longrightarrow> body_frame q1 w q' w'"
  shows "body_frame q w q' w'"
proof -
  obtain b q1 where 1: "tagsistant_querytree_check_tagging_consistency env q w = Done (b, q1)" "f (b, q1) = Done (s, q', w')"
    using assms(1) by (auto simp: run_bind_Done_iff)
  have h: "same_handle q q1" by (rule check_consistency_handle[OF 1(1)])
  from assms(2)[OF h 1(2)] h show ?thesis by (simp add: body_frame_def same_handle_def)
qed

lemma mkdir_object_frame:
  assumes "mkdir_object mode env q w = Done (s, q', w')"
  shows "body_frame q w q' w'"
  using assms unfolding mkdir_object_def
proof (rule check_then_frame)
  fix b q1
  let ?c = "if q_is_taggable q1 then tagsistant_inner_create_and_tag_object env q1 True w else ((0, None), q1, w)"
  obtain r q2 w2 where c: "?c = (r, q2, w2)" by (metis prod_cases3)
  have f: "body_frame q1 w q2 w2"
    using c create_frame[of r q2 w2 env q1 True w] by (cases "q_is_taggable q1") simp_all
  assume "(\<lambda>(_, q1). let (r, q2, w2) = (if q_is_taggable q1 then tagsistant_inner_create_and_tag_object env q1 True w else ((0, None), q1, w))
          in if create_failed r then Done (Exit_failed (snd r), q2, w2)
             else let (e, fs2) = os_mkdir (sys env) (q_full_archive_path q2) mode (fs w2)
                  in Done (sys_exit e, q2, w2\<lparr>fs := fs2\<rparr>)) (b, q1) = Done (s, q', w')"
  then show "body_frame q1 w q' w'" unfolding prod.case c Let_def using f by (auto split: if_splits prod.splits)
qed

lemma mkdir_relations_frame: "mkdir_relations env q w = Done (s, q', w') \<Longrightarrow> body_frame q w q' w'"
proof -
  assume a: "mkdir_relations env q w = Done (s, q', w')"
  define p1 where "p1 = (if q_first_tag q \<noteq> None
               then tagsistant_sql_get_tag_id env (q_dbi q) (q_first_tag q) None None w
               else tagsistant_sql_get_tag_id env (q_dbi q) (q_namespace q) (q_key q) (q_value q) w)"
  define p2 where "p2 = (if q_second_tag q \<noteq> None
               then get_or_create env (q_dbi q) (q_second_tag q) None None (snd p1)
               else get_or_create env (q_dbi q) (q_related_namespace q) (q_related_key q) (q_related_value q) (snd p1))"
  have 1: "body_frame q w q (snd p1)" by (simp add: p1_def)
  have 2: "body_frame q (snd p1) q (snd p2)" by (simp add: p2_def get_or_create_frame)
  have 3: "body_frame q (snd p2) q (sql_exec (q_dbi q) (insert_relation a b c) (snd p2))" for a b c
    by (rule sql_exec_frame) (simp add: db_ok_statements)
  note 12 = body_frame_trans[OF 1 2]
  show ?thesis using a 12 body_frame_trans[OF 12 3]
    unfolding mkdir_relations_def p1_def[symmetric] Let_def split_beta p2_def[symmetric]
    by (auto split: if_splits)
qed

interpretation mkdir: operation "mkdir_body mode" for mode
proof
  fix q :: querytree and env :: "'a env" and w w' :: "'a world" and s q'
  assume "mkdir_body mode env q w = Done (s, q', w')"
  then show "body_frame q w q' w'"
    using mkdir_object_frame[of mode env q w s q' w'] mkdir_relations_frame[of env q w s q' w']
    by (auto simp: mkdir_body_def mkdir_tags_def mkdir_store_def split: if_splits)
qed

lemma delete_proxy_frame: "body_frame q w q (tagsistant_sql_delete_tag_proxy env c n k v i w)"
  by (simp add: tagsistant_sql_delete_tag_proxy_def)

lemma rmdir_store_frame:
  assumes "rmdir_store env q w = Done (s, q', w')"
  shows "body_frame q w q' w'"
  using assms unfolding rmdir_store_def
proof (rule check_then_frame)
  fix b q1
  let ?c = "if \<not> q_complete q1 then (False, tagsistant_querytree_traverse q1 (tagsistant_sql_delete_tag_proxy env) 0 w)
             else if q_is_taggable q1 then untag_and_forget env q1 w
             else (True, w)"
  have f: "body_frame q1 w q1 (snd ?c)"
    using traverse_frame[of q1 "tagsistant_sql_delete_tag_proxy env" 0 w, OF delete_proxy_frame] untag_and_forget_frame[of q1 w env]
    by simp
  assume "(\<lambda>(_, q1). let (do_rmdir, w1) =
            (if \<not> q_complete q1 then (False, tagsistant_querytree_traverse q1 (tagsistant_sql_delete_tag_proxy env) 0 w)
             else if q_is_taggable q1 then untag_and_forget env q1 w
             else (True, w))
          in if do_rmdir
             then let (e, fs1) = os_rmdir (sys env) (q_full_archive_path q1) (fs w1) in Done (sys_exit e, q1, w1\<lparr>fs := fs1\<rparr>)
             else Done (Exit_ok, q1, w1)) (b, q1) = Done (s, q', w')"
  then show "body_frame q1 w q' w'" unfolding prod.case Let_def split_beta using f by (auto split: if_splits)
qed

lemma rmdir_relations_frame: "rmdir_relations env q w = Done (s, q', w') \<Longrightarrow> body_frame q w q' w'"
proof -
  assume a: "rmdir_relations env q w = Done (s, q', w')"
  let ?p1 = "tagsistant_sql_get_tag_id env (q_dbi q) (q_first_tag q) None None w"
  let ?p2 = "tagsistant_sql_get_tag_id env (q_dbi q) (q_second_tag q) None None (snd ?p1)"
  have 12: "body_frame q w q (snd ?p2)" by (meson body_frame_trans sql_frames)
  have 3: "body_frame q (snd ?p2) q (sql_exec (q_dbi q) (delete_relation a b c) (snd ?p2))" for a b c
    by (rule sql_exec_frame) (simp add: db_ok_statements)
  show ?thesis using a 12 body_frame_trans[OF 12 3]
    unfolding rmdir_relations_def Let_def split_beta by (auto split: if_splits)
qed

interpretation rmdir: operation rmdir_body
proof
  fix q :: querytree and env :: "'a env" and w w' :: "'a world" and s q'
  assume "rmdir_body env q w = Done (s, q', w')"
  then show "body_frame q w q' w'"
    using rmdir_store_frame[of env q w s q' w'] rmdir_relations_frame[of env q w s q' w']
    by (auto simp: rmdir_body_def rmdir_tags_def split: if_splits)
qed

end
