(* ===== verification/Fuse_Objects.thy ===== *)
theory Fuse_Objects
  imports Fuse_Directories
begin

section \<open>mknod, unlink, symlink, link, rename\<close>

text \<open>
  The operations of \<^verbatim>\<open>src/src/fuse_operations\<close> that create, remove and rename objects.
  An object has a row in the table of objects, taggings, and a file under \<^verbatim>\<open>archive/\<close>.
\<close>

subsection \<open>mknod\<close>

definition mknod_object :: "nat \<Rightarrow> nat \<Rightarrow> 'fs body" where
  "mknod_object mode rdev env q w =
     (if is_all_path (q_full_path q) then Done (abort_operation EFAULT, q, w)
      else run_bind (tagsistant_querytree_check_tagging_consistency env q w)
        (\<lambda>(_, q1).
           let (r, q2, w2) = (if q_is_taggable q1 then tagsistant_inner_create_and_tag_object env q1 True w else ((0, None), q1, w))
           in if q_inode q2 \<noteq> 0
              then let (e, fs2) = os_mknod (sys env) (q_full_archive_path q2) mode rdev (fs w2)
                   in Done (sys_exit e, q2, w2\<lparr>fs := fs2\<rparr>)
              else Done (if create_failed r then Exit_failed (snd r) else Exit_ok, q2, w2)))"

definition mknod_body :: "nat \<Rightarrow> nat \<Rightarrow> 'fs body" where
  "mknod_body mode rdev env q w =
     (if q_type q = QTYPE_MALFORMED then Done (abort_operation EFAULT, q, w)
      else if q_type q = QTYPE_ARCHIVE then Done (abort_operation EROFS, q, w)
      else if q_points_to_object q then mknod_object mode rdev env q w
      else if q_type q = QTYPE_ALIAS then Done (Exit_ok, q, tagsistant_sql_alias_create (q_dbi q) (q_alias q) w)
      else Done (abort_operation EROFS, q, w))"

text \<open>The mode is passed on with the owner's write permission added.\<close>

definition tagsistant_mknod :: "'fs env \<Rightarrow> string \<Rightarrow> nat \<Rightarrow> nat \<Rightarrow> 'fs world \<Rightarrow> (errno option \<times> 'fs world) run" where
  "tagsistant_mknod env path mode rdev w = run_operation env True False (mknod_body (or mode 128) rdev) path w"

subsection \<open>unlink\<close>

definition unlink_taggable :: "'fs env \<Rightarrow> querytree \<Rightarrow> 'fs world \<Rightarrow> bool \<times> 'fs world" where
  "unlink_taggable env q w =
     (if is_all_path (q_full_path q)
      then (True, sql_exec (q_dbi q) (delete_tagging_of_object (sint (q_inode q)))
              (sql_exec (q_dbi q) (delete_object (sint (q_inode q))) w))
      else untag_and_forget env q w)"

definition unlink_store :: "'fs body" where
  "unlink_store env q w =
     run_bind (tagsistant_querytree_check_tagging_consistency env q w)
       (\<lambda>(_, q1).
          let (do_unlink, w1) = (if q_is_taggable q1 then unlink_taggable env q1 w else (True, w))
          in if do_unlink
             then let (e, fs1) = os_unlink (sys env) (q_full_archive_path q1) (fs w1) in Done (sys_exit e, q1, w1\<lparr>fs := fs1\<rparr>)
             else Done (Exit_ok, q1, w1))"

definition unlink_body :: "'fs body" where
  "unlink_body env q w =
     (if q_type q = QTYPE_MALFORMED then Done (abort_operation ENOENT, q, w)
      else if q_type q = QTYPE_STORE then unlink_store env q w
      else if q_type q = QTYPE_ALIAS then Done (Exit_ok, q, tagsistant_sql_alias_delete (q_dbi q) (q_alias q) w)
      else Done (abort_operation EROFS, q, w))"

definition tagsistant_unlink :: "'fs env \<Rightarrow> string \<Rightarrow> 'fs world \<Rightarrow> (errno option \<times> 'fs world) run" where
  "tagsistant_unlink env path w = run_operation env True False unlink_body path w"

subsection \<open>symlink and link\<close>

text \<open>Both take the name of the new object from the old path, if the new path has none.\<close>

definition borrow_object_path :: "'fs env \<Rightarrow> string \<Rightarrow> querytree \<Rightarrow> 'fs world \<Rightarrow> querytree \<times> 'fs world" where
  "borrow_object_path env from q w =
     (if strlen (q_object_path q) = 0
      then tagsistant_querytree_set_object_path env q (Some (g_path_get_basename from)) w else (q, w))"

definition symlink_real :: "string \<Rightarrow> 'fs body" where
  "symlink_real from env q w =
     (let (e, fs1) = os_symlink (sys env) from (q_full_archive_path q) (fs w) in Done (sys_exit e, q, w\<lparr>fs := fs1\<rparr>))"

definition symlink_taggable :: "string \<Rightarrow> 'fs body" where
  "symlink_taggable from env q w =
     (let check_inode = tagsistant_return_integer env (q_dbi q) (select_inodes (\<lambda>r. ob_symlink r = from) (db w)) 0
      in if check_inode \<noteq> 0
         then Done (Exit_ok, q, tagsistant_querytree_traverse q (tagsistant_sql_tag_object env) check_inode w)
         else let (r, q1, w1) = tagsistant_inner_create_and_tag_object env q True w
              in if create_failed r then Done (Exit_failed (snd r), q1, w1)
                 else symlink_real from env q1
                        (sql_exec (q_dbi q1) (update_object (sint (q_inode q1)) (\<lambda>r. r\<lparr>ob_symlink := from\<rparr>)) w1))"

definition takes_object :: "querytree \<Rightarrow> bool" where
  "takes_object q \<longleftrightarrow> q_points_to_object q \<or> q_type q = QTYPE_STORE \<and> q_complete q"

definition symlink_body :: "string \<Rightarrow> 'fs body" where
  "symlink_body from env q w =
     (if q_type q = QTYPE_MALFORMED then Done (abort_operation ENOENT, q, w)
      else if takes_object q then
        let (q1, w1) = borrow_object_path env from q w
        in run_bind (tagsistant_querytree_check_tagging_consistency env q1 w1)
             (\<lambda>(_, q2). if q_is_taggable q2 then symlink_taggable from env q2 w1 else symlink_real from env q2 w1)
      else Done (abort_operation EINVAL, q, w))"

definition tagsistant_symlink :: "'fs env \<Rightarrow> string \<Rightarrow> string \<Rightarrow> 'fs world \<Rightarrow> (errno option \<times> 'fs world) run" where
  "tagsistant_symlink env from to w = run_operation env True False (symlink_body from) to w"

text \<open>The query tree of the old path has no connection, that of the new one no transaction.\<close>

definition link_object :: "querytree \<Rightarrow> 'fs body" where
  "link_object from_q env q w =
     (let (r, q1, w1) = (if q_is_taggable q then tagsistant_inner_create_and_tag_object env q True w else ((0, None), q, w))
      in if create_failed r then Done (Exit_failed (snd r), q1, w1)
         else let (e, fs1) = os_link (sys env) (q_full_archive_path from_q) (q_full_archive_path q1) (fs w1)
              in Done (sys_exit e, q1, w1\<lparr>fs := fs1\<rparr>))"

definition link_body :: "string \<Rightarrow> querytree \<Rightarrow> 'fs body" where
  "link_body from from_q env q w =
     (if q_type from_q = QTYPE_MALFORMED \<or> q_type q = QTYPE_MALFORMED then Done (abort_operation ENOENT, q, w)
      else if takes_object q then
        let (q1, w1) = borrow_object_path env from q w
        in run_bind (tagsistant_querytree_check_tagging_consistency env q1 w1) (\<lambda>(_, q2). link_object from_q env q2 w1)
      else Done (abort_operation EINVAL, q, w))"

definition TAGSISTANT_PATH_IS_EXTERNAL :: "'fs env \<Rightarrow> string \<Rightarrow> bool" where
  "TAGSISTANT_PATH_IS_EXTERNAL env path \<longleftrightarrow> \<not> prefix (mountpoint env) path"

definition tagsistant_link :: "'fs env \<Rightarrow> string \<Rightarrow> string \<Rightarrow> 'fs world \<Rightarrow> (errno option \<times> 'fs world) run" where
  "tagsistant_link env from to w =
     (let from' = (if TAGSISTANT_PATH_IS_EXTERNAL env from then from else drop (length (mountpoint env)) from)
      in run_bind (tagsistant_querytree_new env from' True False False w)
           (\<lambda>(from_q, w1). run_operation env False False (link_body from from_q) to w1))"

subsection \<open>rename\<close>

definition rename_object :: "'fs env \<Rightarrow> querytree \<Rightarrow> querytree \<Rightarrow> 'fs world \<Rightarrow> (exit_status \<times> querytree \<times> 'fs world) run" where
  "rename_object env from to w =
     (if \<not> (q_is_taggable from \<and> q_is_taggable to) then Done (abort_operation EXDEV, from, w)
      else if q_inode from = q_inode to then Done (Exit_ok, from, w)
      else
        let (to1, w1) = tagsistant_querytree_set_inode env to (q_inode from) w;
            w2 = sql_exec (q_dbi from)
                   (update_object (sint (q_inode from)) (\<lambda>r. r\<lparr>ob_name := printf_s (q_object_path to1)\<rparr>)) w1;
            w3 = tagsistant_querytree_traverse from (tagsistant_sql_untag_object env) (q_inode from) w2;
            w4 = tagsistant_querytree_traverse to1 (tagsistant_sql_tag_object env) (q_inode from) w3;
            (e, fs5) = os_rename (sys env) (q_full_archive_path from) (q_full_archive_path to1) (fs w4)
        in Done (sys_exit e, from, w4\<lparr>fs := fs5\<rparr>))"

text \<open>Renaming a tag, for paths under \<^verbatim>\<open>store/\<close> and under \<^verbatim>\<open>tags/\<close> alike.\<close>

definition rename_tag :: "querytree \<Rightarrow> querytree \<Rightarrow> 'fs world \<Rightarrow> 'fs world" where
  "rename_tag from to w =
     (let w1 = sql_exec (q_dbi from) (update_tagname (printf_s (q_last_tag to)) (printf_s (q_last_tag from))) w
      in if q_value from \<noteq> None
         then tagsistant_remove_tag_from_cache (q_namespace from) (q_key from) (q_value from) w1
         else tagsistant_remove_tag_from_cache (q_last_tag from) None None w1)"

definition rename_dispatch :: "'fs env \<Rightarrow> querytree \<Rightarrow> querytree \<Rightarrow> 'fs world \<Rightarrow> (exit_status \<times> querytree \<times> 'fs world) run" where
  "rename_dispatch env from to w =
     (if q_type from = QTYPE_MALFORMED then Done (abort_operation ENOENT, from, w)
      else if \<not> (q_type from = q_type to \<and> q_complete from = q_complete to) then Done (abort_operation EINVAL, from, w)
      else if q_type from \<in> {QTYPE_STATS, QTYPE_RELATIONS} \<or> q_type to \<in> {QTYPE_STATS, QTYPE_RELATIONS}
      then Done (abort_operation EINVAL, from, w)
      else if q_points_to_object from then rename_object env from to w
      else if q_type from = QTYPE_ROOT then Done (abort_operation EPERM, from, w)
      else if q_type from = QTYPE_STORE then
        (if q_complete from then Done (abort_operation EPERM, from, w) else Done (Exit_ok, from, rename_tag from to w))
      else if q_type from = QTYPE_TAGS then Done (Exit_ok, from, rename_tag from to w)
      else if q_type from = QTYPE_ALIAS
      then Done (Exit_ok, from, sql_exec (q_dbi from) (update_alias_name (printf_s (q_alias to)) (printf_s (q_alias from))) w)
      else Done (Exit_ok, from, w))"

text \<open>
  The query tree of the new path has no connection of its own; it borrows the one of the old
  path until the end, and destroying it does nothing.
\<close>

definition rename_body :: "string \<Rightarrow> 'fs body" where
  "rename_body to env from_q w =
     run_bind (tagsistant_querytree_check_tagging_consistency env from_q w)
       (\<lambda>(_, from1). run_bind (tagsistant_querytree_new env to False False False w)
          (\<lambda>(to_q, w1). run_bind (tagsistant_querytree_check_tagging_consistency env to_q w1)
             (\<lambda>(_, to1). rename_dispatch env from1 (to1\<lparr>q_dbi := q_dbi from1\<rparr>) w1)))"

definition tagsistant_rename :: "'fs env \<Rightarrow> string \<Rightarrow> string \<Rightarrow> 'fs world \<Rightarrow> (errno option \<times> 'fs world) run" where
  "tagsistant_rename env from to w = run_operation env True False (rename_body to) from w"

subsection \<open>Frames\<close>

lemma create_if_taggable_frame:
  assumes "(if q_is_taggable q then tagsistant_inner_create_and_tag_object env q True w else ((0, None), q, w)) = (r, q2, w2)"
  shows "body_frame q w q2 w2"
  using assms create_frame[of r q2 w2 env q True w] by (cases "q_is_taggable q") simp_all

lemma alias_frames:
  "body_frame q w q (tagsistant_sql_alias_create c a w)" "body_frame q w q (tagsistant_sql_alias_delete c a w)"
  by (auto simp: tagsistant_sql_alias_create_def tagsistant_sql_alias_delete_def db_ok_statements intro!: sql_exec_frame)

interpretation mknod: operation "mknod_body mode rdev" for mode rdev
proof
  fix q :: querytree and env :: "'a env" and w w' :: "'a world" and s q'
  assume a: "mknod_body mode rdev env q w = Done (s, q', w')"
  have obj: "body_frame q w q' w'" if "mknod_object mode rdev env q w = Done (s, q', w')"
  proof (cases "is_all_path (q_full_path q)")
    case True
    then show ?thesis using that by (simp add: mknod_object_def)
  next
    case False
    from that[unfolded mknod_object_def if_not_P[OF False]] show ?thesis
    proof (rule check_then_frame)
      fix b q1
      obtain r q2 w2 where c: "(if q_is_taggable q1 then tagsistant_inner_create_and_tag_object env q1 True w else ((0, None), q1, w)) = (r, q2, w2)"
        by (metis prod_cases3)
      assume "(case (b, q1) of (_, q1) \<Rightarrow>
           let (r, q2, w2) = (if q_is_taggable q1 then tagsistant_inner_create_and_tag_object env q1 True w else ((0, None), q1, w))
           in if q_inode q2 \<noteq> 0
              then let (e, fs2) = os_mknod (sys env) (q_full_archive_path q2) mode rdev (fs w2)
                   in Done (sys_exit e, q2, w2\<lparr>fs := fs2\<rparr>)
              else Done (if create_failed r then Exit_failed (snd r) else Exit_ok, q2, w2)) = Done (s, q', w')"
      then show "body_frame q1 w q' w'"
        unfolding prod.case c Let_def using create_if_taggable_frame[OF c] by (auto split: if_splits prod.splits)
    qed
  qed
  show "body_frame q w q' w'" using a obj alias_frames(1)[of q w "q_dbi q" "q_alias q"]
    by (auto simp: mknod_body_def split: if_splits)
qed

lemma unlink_taggable_frame: "body_frame q w q (snd (unlink_taggable env q w))"
proof -
  let ?w1 = "sql_exec (q_dbi q) (delete_object (sint (q_inode q))) w"
  have 1: "body_frame q w q ?w1" by (rule sql_exec_frame) (simp add: db_ok_statements)
  have 2: "body_frame q ?w1 q (sql_exec (q_dbi q) (delete_tagging_of_object (sint (q_inode q))) ?w1)"
    by (rule sql_exec_frame) (simp add: db_ok_statements)
  show ?thesis using untag_and_forget_frame[of q w env] body_frame_trans[OF 1 2] by (simp add: unlink_taggable_def)
qed

interpretation unlink: operation unlink_body
proof
  fix q :: querytree and env :: "'a env" and w w' :: "'a world" and s q'
  assume a: "unlink_body env q w = Done (s, q', w')"
  have st: "body_frame q w q' w'" if "unlink_store env q w = Done (s, q', w')"
    using that unfolding unlink_store_def
  proof (rule check_then_frame)
    fix b q1
    assume "(case (b, q1) of (_, q1) \<Rightarrow>
          let (do_unlink, w1) = (if q_is_taggable q1 then unlink_taggable env q1 w else (True, w))
          in if do_unlink
             then let (e, fs1) = os_unlink (sys env) (q_full_archive_path q1) (fs w1) in Done (sys_exit e, q1, w1\<lparr>fs := fs1\<rparr>)
             else Done (Exit_ok, q1, w1)) = Done (s, q', w')"
    then show "body_frame q1 w q' w'" using unlink_taggable_frame[of q1 w env]
      by (auto simp: Let_def split: if_splits prod.splits)
  qed
  show "body_frame q w q' w'" using a st alias_frames(2)[of q w "q_dbi q" "q_alias q"]
    by (auto simp: unlink_body_def split: if_splits)
qed

lemma borrow_frame: "body_frame q w (fst (borrow_object_path env from q w)) (snd (borrow_object_path env from q w))"
  by (simp add: borrow_object_path_def tagsistant_querytree_set_object_path_def tagsistant_querytree_rebuild_paths_def Let_def split_beta body_frame_def)

lemma symlink_real_frame: "symlink_real from env q w = Done (s, q', w') \<Longrightarrow> body_frame q w q' w'"
  by (auto simp: symlink_real_def Let_def split: prod.splits)

lemma symlink_taggable_frame:
  assumes "symlink_taggable from env q w = Done (s, q', w')"
  shows "body_frame q w q' w'"
proof -
  define i where "i = tagsistant_return_integer env (q_dbi q) (select_inodes (\<lambda>r. ob_symlink r = from) (db w)) 0"
  obtain r q1 w1 where c: "tagsistant_inner_create_and_tag_object env q True w = (r, q1, w1)" by (metis prod_cases3)
  have 1: "body_frame q w q1 w1" using create_frame[OF c[symmetric]] .
  have 2: "body_frame q1 w1 q1 (sql_exec (q_dbi q1) (update_object j (\<lambda>r. r\<lparr>ob_symlink := from\<rparr>)) w1)" for j
    by (rule sql_exec_frame) (simp add: db_ok_update_object)
  have t: "body_frame q w q (tagsistant_querytree_traverse q (tagsistant_sql_tag_object env) i w)" by (rule traverse_frame) simp
  show ?thesis
  proof (cases "i = 0")
    case False
    then show ?thesis using assms t by (auto simp: symlink_taggable_def Let_def simp flip: i_def)
  next
    case True
    show ?thesis
    proof (cases "create_failed r")
      case True
      then show ?thesis using assms 1 \<open>i = 0\<close> by (simp add: symlink_taggable_def Let_def c flip: i_def)
    next
      case False
      then show ?thesis using assms \<open>i = 0\<close> symlink_real_frame body_frame_trans[OF body_frame_trans[OF 1 2]]
        by (fastforce simp: symlink_taggable_def Let_def c simp flip: i_def)
    qed
  qed
qed

interpretation symlink: operation "symlink_body source" for source
proof
  fix q :: querytree and env :: "'a env" and w w' :: "'a world" and s q'
  assume a: "symlink_body source env q w = Done (s, q', w')"
  obtain q1 w1 where b: "borrow_object_path env source q w = (q1, w1)" by (metis surj_pair)
  have 1: "body_frame q w q1 w1" using borrow_frame[of q w env source] by (simp add: b)
  have 2: "body_frame q1 w1 q' w'"
    if "run_bind (tagsistant_querytree_check_tagging_consistency env q1 w1)
          (\<lambda>(_, q2). if q_is_taggable q2 then symlink_taggable source env q2 w1 else symlink_real source env q2 w1) = Done (s, q', w')"
    using that by (rule check_then_frame) (auto intro: symlink_taggable_frame symlink_real_frame split: if_splits)
  show "body_frame q w q' w'"
    using a 2 body_frame_trans[OF 1] by (auto simp: symlink_body_def b split: if_splits)
qed

lemma link_object_frame:
  assumes "link_object from_q env q w = Done (s, q', w')"
  shows "body_frame q w q' w'"
proof -
  obtain r q2 w2 where c: "(if q_is_taggable q then tagsistant_inner_create_and_tag_object env q True w else ((0, None), q, w)) = (r, q2, w2)"
    by (metis prod_cases3)
  show ?thesis using assms create_if_taggable_frame[OF c] unfolding link_object_def c Let_def prod.case
    by (auto split: if_splits prod.splits)
qed

interpretation link: operation "link_body source from_q" for source from_q
proof
  fix q :: querytree and env :: "'a env" and w w' :: "'a world" and s q'
  assume a: "link_body source from_q env q w = Done (s, q', w')"
  obtain q1 w1 where b: "borrow_object_path env source q w = (q1, w1)" by (metis surj_pair)
  have 1: "body_frame q w q1 w1" using borrow_frame[of q w env source] by (simp add: b)
  have 2: "body_frame q1 w1 q' w'"
    if "run_bind (tagsistant_querytree_check_tagging_consistency env q1 w1) (\<lambda>(_, q2). link_object from_q env q2 w1) = Done (s, q', w')"
    using that by (rule check_then_frame) (auto intro: link_object_frame)
  show "body_frame q w q' w'"
    using a 2 body_frame_trans[OF 1] by (auto simp: link_body_def b split: if_splits)
qed

text \<open>
  In rename the query tree of the old path holds the connection and the transaction; the
  statements run on it whichever tree's nodes are walked.
\<close>

lemma rename_object_frame:
  assumes c: "q_dbi to = q_dbi from" and a: "rename_object env from to w = Done (s, q', w')"
  shows "body_frame from w q' w'"
proof (cases "q_is_taggable from \<and> q_is_taggable to \<and> q_inode from \<noteq> q_inode to")
  case False
  then show ?thesis using a by (auto simp: rename_object_def split: if_splits)
next
  case True
  let ?p1 = "tagsistant_querytree_set_inode env to (q_inode from) w"
  let ?to1 = "fst ?p1"
  define w2 where "w2 = sql_exec (q_dbi from)
      (update_object (sint (q_inode from)) (\<lambda>r. r\<lparr>ob_name := printf_s (q_object_path ?to1)\<rparr>)) (snd ?p1)"
  define w3 where "w3 = tagsistant_querytree_traverse from (tagsistant_sql_untag_object env) (q_inode from) w2"
  define w4 where "w4 = tagsistant_querytree_traverse ?to1 (tagsistant_sql_tag_object env) (q_inode from) w3"
  have 1: "body_frame from w from (snd ?p1)"
    using body_frame_other[OF quiet_body_frame[OF set_inode_quiet[where q = to] same_handle_refl]]
    by (metis body_frame_def quiet_def set_inode_quiet)
  have 2: "body_frame from (snd ?p1) from w2"
    unfolding w2_def by (rule sql_exec_frame) (simp add: db_ok_update_object)
  have 3: "body_frame from w2 from w3" unfolding w3_def by (rule traverse_frame) simp
  have "body_frame ?to1 w3 ?to1 w4" unfolding w4_def by (rule traverse_frame) simp
  then have 4: "body_frame from w3 from w4" by (simp add: body_frame_def)
  note t = body_frame_trans[OF body_frame_trans[OF body_frame_trans[OF 1 2] 3] 4]
  show ?thesis using a True t
    by (auto simp: rename_object_def Let_def split_beta simp flip: w2_def w3_def w4_def)
qed

lemma rename_tag_frame: "body_frame from w from (rename_tag from to w)"
proof -
  have "body_frame from w from (sql_exec (q_dbi from) (update_tagname a b) w)" for a b
    by (rule sql_exec_frame) (simp add: db_ok_statements)
  then show ?thesis by (simp add: rename_tag_def Let_def tagsistant_remove_tag_from_cache_def body_frame_def)
qed

lemma rename_dispatch_frame:
  assumes c: "q_dbi to = q_dbi from" and a: "rename_dispatch env from to w = Done (s, q', w')"
  shows "body_frame from w q' w'"
proof -
  have al: "body_frame from w from (sql_exec (q_dbi from) (update_alias_name x y) w)" for x y
    by (rule sql_exec_frame) (simp add: db_ok_statements)
  show ?thesis using a rename_object_frame[OF c] rename_tag_frame[of "from" w to] al
    by (auto simp: rename_dispatch_def split: if_splits)
qed

lemma querytree_new_unconnected:
  assumes "tagsistant_querytree_new env path st False dr w = Done (q, w1)"
  shows "quiet w w1" "\<not> q_dbi q"
  using resolve_path_quiet assms
  by (fastforce simp: tagsistant_querytree_new_def Let_def same_handle_def new_querytree_def)+

interpretation rename: operation "rename_body to" for to
proof
  fix q :: querytree and env :: "'a env" and w w' :: "'a world" and s q'
  assume a: "rename_body to env q w = Done (s, q', w')"
  from a[unfolded rename_body_def] show "body_frame q w q' w'"
  proof (rule check_then_frame)
    fix b from1
    assume "(case (b, from1) of (_, from1) \<Rightarrow> run_bind (tagsistant_querytree_new env to False False False w)
          (\<lambda>(to_q, w1). run_bind (tagsistant_querytree_check_tagging_consistency env to_q w1)
             (\<lambda>(_, to1). rename_dispatch env from1 (to1\<lparr>q_dbi := q_dbi from1\<rparr>) w1))) = Done (s, q', w')"
    then obtain to_q w1 to1 where 1: "tagsistant_querytree_new env to False False False w = Done (to_q, w1)"
        "rename_dispatch env from1 (to1\<lparr>q_dbi := q_dbi from1\<rparr>) w1 = Done (s, q', w')"
      by (auto simp: run_bind_Done_iff)
    have "body_frame from1 w from1 w1" using querytree_new_unconnected(1)[OF 1(1)] by (simp add: quiet_body_frame)
    moreover have "body_frame from1 w1 q' w'" by (rule rename_dispatch_frame[OF _ 1(2)]) simp
    ultimately show "body_frame from1 w q' w'" by (rule body_frame_trans)
  qed
qed

end
