(* ===== verification/Fuse_Attributes.thy ===== *)
theory Fuse_Attributes
  imports Fuse_Objects
begin

section \<open>getattr, access, readlink, chmod, chown, utime, statvfs\<close>

text \<open>
  The operations of \<^verbatim>\<open>src/src/fuse_operations\<close> that read or change the attributes of a
  path. They take the reader lock and open no transaction. Those that give something back
  besides the return value run in \<open>run_reader\<close>; the locale \<open>reader\<close> is the contract of their
  bodies, a sublocale of \<open>operation\<close>, and \<open>pure_reader\<close> adds that the database is only read.
\<close>

subsection \<open>Operations that fill a buffer\<close>

type_synonym ('o, 'fs) reading = "'fs env \<Rightarrow> querytree \<Rightarrow> 'fs world \<Rightarrow> ((exit_status \<times> 'o) \<times> querytree \<times> 'fs world) run"

definition leave_reader :: "'fs env \<Rightarrow> (exit_status \<times> 'o) \<times> querytree \<times> 'fs world \<Rightarrow> ((errno option \<times> 'o) \<times> 'fs world) run" where
  "leave_reader env r = (case r of ((s, x), q, w) \<Rightarrow> let (e, w1) = exit_operation env q s w in Done ((e, x), w1))"

definition run_reader :: "'fs env \<Rightarrow> bool \<Rightarrow> ('o, 'fs) reading \<Rightarrow> string \<Rightarrow> 'fs world \<Rightarrow> ((errno option \<times> 'o) \<times> 'fs world) run" where
  "run_reader env disable_reasoner body path w =
     run_bind (tagsistant_querytree_new env path False True disable_reasoner w)
       (\<lambda>(q, w1). run_bind (body env q w1) (leave_reader env))"

definition forget_output :: "('o, 'fs) reading \<Rightarrow> 'fs body" where
  "forget_output body env q w = run_bind (body env q w) (\<lambda>((s, x), q', w'). Done (s, q', w'))"

lemma run_reader_Done:
  assumes "run_reader env dr body path w = Done ((r, x), w')"
  obtains q w1 s q2 w2 where "tagsistant_querytree_new env path False True dr w = Done (q, w1)"
    "body env q w1 = Done ((s, x), q2, w2)" "exit_operation env q2 s w2 = (r, w')"
proof -
  obtain q w1 where 1: "tagsistant_querytree_new env path False True dr w = Done (q, w1)"
      "run_bind (body env q w1) (leave_reader env) = Done ((r, x), w')"
    using assms unfolding run_reader_def run_bind_Done_iff[of "tagsistant_querytree_new _ _ _ _ _ _"] by auto
  then obtain s x' q2 w2 where 2: "body env q w1 = Done ((s, x'), q2, w2)"
    by (cases "body env q w1") auto
  show thesis using 1 2 that by (simp add: leave_reader_def Let_def split_beta) (metis prod.collapse)
qed

lemma run_reader_forget:
  assumes "run_reader env dr body path w = Done ((r, x), w')"
  shows "run_operation env False dr (forget_output body) path w = Done (r, w')"
  using assms by (rule run_reader_Done) (simp add: run_operation_def forget_output_def)

locale reader =
  fixes body :: "('o, 'fs) reading"
  assumes reader_ok: "q_dbi q \<Longrightarrow> body env q w = Done ((s, x), q', w') \<Longrightarrow> body_frame q w q' w'"

sublocale reader \<subseteq> op: operation "forget_output body"
  by unfold_locales (auto simp: forget_output_def run_bind_Done_iff dest: reader_ok)

locale pure_reader = reader body for body :: "('o, 'fs) reading" +
  assumes reader_pure: "body env q w = Done ((s, x), q', w') \<Longrightarrow> db w' = db w"
begin

lemma reads_only:
  assumes "run_reader env dr body path w = Done ((r, x), w')"
  shows "db w' = db w" and "lock_log w' = lock_log w @ [Reader_lock, Reader_unlock]"
    and "pool w' = max 1 (pool w)"
proof -
  obtain q w1 s q2 w2 where 1: "tagsistant_querytree_new env path False True dr w = Done (q, w1)"
      "body env q w1 = Done ((s, x), q2, w2)" "exit_operation env q2 s w2 = (r, w')"
    using assms by (rule run_reader_Done)
  note N = querytree_new_facts[OF 1(1)]
  have B: "body_frame q w1 q2 w2" by (rule reader_ok[OF N(1) 1(2)])
  have w': "w' = tagsistant_querytree_destroy env q2 (s = Exit_ok) w2"
    using 1(3) by (auto simp: exit_operation_def split: exit_status.splits)
  have "db w' = db w2" unfolding w' using B N by (subst destroy_world(4)[of q2 False]) (simp_all add: body_frame_def)
  also have "\<dots> = db w" using reader_pure[OF 1(2)] N(4) by (simp add: quiet_def)
  finally show "db w' = db w" .
  show "lock_log w' = lock_log w @ [Reader_lock, Reader_unlock]" "pool w' = max 1 (pool w)"
    using op.run_facts(1,2)[OF run_reader_forget[OF assms]] by simp_all
qed

end

subsection \<open>getattr\<close>

text \<open>The two disjuncts of the condition on \<^verbatim>\<open>is_equivalent\<close> get the same arguments.\<close>

definition tagsistant_valid_relation :: "querytree \<Rightarrow> tagsistant_inode \<Rightarrow> tagsistant_inode \<Rightarrow> 'fs world \<Rightarrow> bool" where
  "tagsistant_valid_relation q tag_id related_tag_id w =
     (if q_relation q = Some ''is_equivalent''
      then q_dbi q \<and> (has_relation (sint tag_id) ''is_equivalent'' (sint related_tag_id) (db w)
                    \<or> has_relation (sint tag_id) ''is_equivalent'' (sint related_tag_id) (db w))
      else if q_relation q = Some ''includes'' \<or> q_relation q = Some ''excludes''
      then q_dbi q \<and> has_relation (sint tag_id) (printf_s (q_relation q)) (sint related_tag_id) (db w)
      else False)"

definition existing_tag ::
    "'fs env \<Rightarrow> dbi_conn \<Rightarrow> gchars \<Rightarrow> gchars \<Rightarrow> gchars \<Rightarrow> 'fs world \<Rightarrow> (errno + tagsistant_inode) \<times> 'fs world" where
  "existing_tag env conn n k v w =
     (let (i, w1) = tagsistant_sql_get_tag_id env conn n k v w in (if i = 0 then Inl ENOENT else Inr i, w1))"

text \<open>The right side of a relation: the two branches of the code test its two forms in opposite order.\<close>

definition related_tag :: "'fs env \<Rightarrow> querytree \<Rightarrow> bool \<Rightarrow> 'fs world \<Rightarrow> (errno + tagsistant_inode) \<times> 'fs world" where
  "related_tag env q triple_first w =
     (if triple_first \<and> q_related_namespace q \<noteq> None
      then existing_tag env (q_dbi q) (q_related_namespace q) (q_related_key q) (q_related_value q) w
      else if q_second_tag q \<noteq> None then existing_tag env (q_dbi q) (q_second_tag q) None None w
      else if q_related_namespace q \<noteq> None
      then existing_tag env (q_dbi q) (q_related_namespace q) (q_related_key q) (q_related_value q) w
      else (Inr 0, w))"

definition check_relation :: "'fs env \<Rightarrow> querytree \<Rightarrow> (errno + tagsistant_inode) \<times> 'fs world \<Rightarrow> (errno + gchars) \<times> 'fs world" where
  "check_relation env q r =
     (case r of
        (Inl e, w1) \<Rightarrow> (Inl e, w1)
      | (Inr tag_id, w1) \<Rightarrow>
          (case related_tag env q (q_namespace q \<noteq> None) w1 of
             (Inl e, w2) \<Rightarrow> (Inl e, w2)
           | (Inr related, w2) \<Rightarrow>
               if related \<noteq> 0 \<and> (q_second_tag q \<noteq> None \<or> q_related_value q \<noteq> None)
                  \<and> \<not> tagsistant_valid_relation q tag_id related w2
               then (Inl ENOENT, w2) else (Inr (Some (archive env)), w2)))"

definition getattr_relations :: "'fs env \<Rightarrow> querytree \<Rightarrow> 'fs world \<Rightarrow> (errno + gchars) \<times> 'fs world" where
  "getattr_relations env q w =
     (if q_namespace q \<noteq> None
      then check_relation env q (existing_tag env (q_dbi q) (q_namespace q) (q_key q) (q_value q) w)
      else if q_first_tag q \<noteq> None
      then check_relation env q (existing_tag env (q_dbi q) (q_first_tag q) None None w)
      else (Inr (Some (archive env)), w))"

definition getattr_archive :: "'fs env \<Rightarrow> querytree \<Rightarrow> errno + gchars" where
  "getattr_archive env q =
     (if \<not> (case q_object_path q of None \<Rightarrow> False | Some s \<Rightarrow> strstr ''___'' s) then Inr (Some (archive env))
      else if q_full_archive_path q \<noteq> None then Inr (q_full_archive_path q) else Inl ENOENT)"

definition getattr_object :: "'fs env \<Rightarrow> querytree \<Rightarrow> 'fs world \<Rightarrow> ((errno + gchars) \<times> querytree) run" where
  "getattr_object env q w =
     (if is_all_path (q_full_path q) then Done (Inr (q_full_archive_path q), q)
      else if tagsistant_is_tags_list_file env q then Done (Inr (Some (tags_file env)), q)
      else run_bind (tagsistant_querytree_check_tagging_consistency env q w)
             (\<lambda>(_, q1). Done (if q_full_archive_path q1 \<noteq> None \<and> q_exists q1
                              then Inr (q_full_archive_path q1) else Inl ENOENT, q1)))"

definition getattr_alias :: "'fs env \<Rightarrow> querytree \<Rightarrow> 'fs world \<Rightarrow> errno + gchars" where
  "getattr_alias env q w =
     (if q_alias q = None then Inr (Some (archive env))
      else if tagsistant_sql_alias_exists (q_dbi q) (q_alias q) w then Inr (Some (tags_file env)) else Inl ENOENT)"

definition stats_files :: "string list" where
  "stats_files = [''connections'', ''cached_queries'', ''configuration'', ''objects'', ''relations'', ''tags'']"

definition getattr_stats :: "'fs env \<Rightarrow> string \<Rightarrow> errno + gchars" where
  "getattr_stats env path =
     (if \<exists>f \<in> set stats_files. eq_dollar (''/stats/'' @ f) path then Inr (Some (tags_file env))
      else if eq_dollar ''/stats'' path then Inr (Some (archive env)) else Inl ENOENT)"

text \<open>Which file stands for the path.\<close>

definition getattr_path :: "string \<Rightarrow> 'fs env \<Rightarrow> querytree \<Rightarrow> 'fs world \<Rightarrow> ((errno + gchars) \<times> querytree \<times> 'fs world) run" where
  "getattr_path path env q w =
     (if q_type q = QTYPE_MALFORMED then Done (Inl ENOENT, q, w)
      else if q_error_message q \<noteq> None \<and> ends_dollar ''@/error'' path then Done (Inr (Some (tags_file env)), q, w)
      else if q_type q = QTYPE_ARCHIVE then Done (getattr_archive env q, q, w)
      else if q_points_to_object q then run_bind (getattr_object env q w) (\<lambda>(r, q1). Done (r, q1, w))
      else if q_type q = QTYPE_ALIAS then Done (getattr_alias env q w, q, w)
      else if q_type q = QTYPE_RELATIONS then (let (r, w1) = getattr_relations env q w in Done (r, q, w1))
      else if q_type q = QTYPE_STATS then Done (getattr_stats env path, q, w)
      else Done (Inr (Some (archive env)), q, w))"

text \<open>What is written over the result of \<^verbatim>\<open>lstat()\<close>. The mode is that of a directory, \<^verbatim>\<open>0555\<close>.\<close>

definition mangle_dir :: "64 word \<Rightarrow> nat \<Rightarrow> stat \<Rightarrow> stat" where
  "mangle_dir i n st = st\<lparr>st_ino := st_ino st + i, st_mode := 16749, st_nlink := n\<rparr>"

definition tag_inode :: "tagsistant_inode \<Rightarrow> 64 word" where
  "tag_inode tag_id = ucast (tag_id * 3)"

definition post_store_tag :: "'fs env \<Rightarrow> querytree \<Rightarrow> stat \<Rightarrow> 'fs world \<Rightarrow> (errno + stat) \<times> 'fs world" where
  "post_store_tag env q st w =
     (let (tag_id, w1) =
        (if q_namespace q \<noteq> None
         then tagsistant_sql_get_tag_id env (q_dbi q) (q_namespace q) (q_key q) (q_value q) w
         else tagsistant_sql_get_tag_id env (q_dbi q) (q_last_tag q) None None w)
      in if tag_id \<noteq> 0
            \<or> q_namespace q \<noteq> None \<and> q_operator q \<in> {TAGSISTANT_GREATER_THAN, TAGSISTANT_SMALLER_THAN, TAGSISTANT_CONTAINS}
         then (Inr (st\<lparr>st_ino := tag_inode tag_id\<rparr>), w1) else (Inl ENOENT, w1))"

definition post_store :: "'fs env \<Rightarrow> querytree \<Rightarrow> stat \<Rightarrow> 'fs world \<Rightarrow> (errno + stat) \<times> 'fs world" where
  "post_store env q st w =
     (if q_error_message q \<noteq> None then (Inr st, w)
      else if q_points_to_object q
      then (Inr (if tagsistant_is_tags_list_file env q then st\<lparr>st_size := 1048576\<rparr> else st), w)
      else case q_last_tag q of
        None \<Rightarrow> (Inr st, w)
      | Some t \<Rightarrow>
          if t = ''ALL'' then (Inr st, w)
          else if t \<in> {''+'', ''-''} then (Inr (mangle_dir 1 1 st), w)
          else if t \<in> {''@'', ''@@''} then (Inr (mangle_dir 2 1 st), w)
          else if t \<in> {''{'', ''}''} then (Inr (mangle_dir 3 3 st), w)
          else if prefix ''='' t
          then (if tagsistant_sql_alias_exists (q_dbi q) (Some (tl t)) w then Inr st else Inl ENOENT, w)
          else post_store_tag env q st w)"

definition post_tags :: "'fs env \<Rightarrow> querytree \<Rightarrow> stat \<Rightarrow> 'fs world \<Rightarrow> (errno + stat) \<times> 'fs world" where
  "post_tags env q st w =
     (let tagname = (if q_first_tag q \<noteq> None then q_first_tag q else q_namespace q)
      in if tagname = None then (Inr st, w)
         else if q_second_tag q \<noteq> None then (Inl ENOENT, w)
         else let (tag_id, w1) = tagsistant_sql_get_tag_id env (q_dbi q) tagname (q_key q) (q_value q) w
              in (if tag_id \<noteq> 0 then Inr (st\<lparr>st_ino := tag_inode tag_id\<rparr>) else Inl ENOENT, w1))"

definition getattr_post :: "'fs env \<Rightarrow> querytree \<Rightarrow> stat \<Rightarrow> 'fs world \<Rightarrow> (errno + stat) \<times> 'fs world" where
  "getattr_post env q st w =
     (if q_type q = QTYPE_STORE then post_store env q st w
      else if q_type q = QTYPE_ALIAS \<and> q_alias q \<noteq> None
      then (Inr (st\<lparr>st_size := tagsistant_sql_alias_get_length (q_dbi q) (q_alias q) w\<rparr>), w)
      else if q_type q = QTYPE_STATS then (Inr (st\<lparr>st_size := 2048\<rparr>), w)
      else if q_type q = QTYPE_TAGS then post_tags env q st w
      else (Inr st, w))"

text \<open>The buffer is changed even when \<^verbatim>\<open>lstat()\<close> has failed, and a later error replaces its \<^verbatim>\<open>errno\<close>.\<close>

definition getattr_body :: "string \<Rightarrow> stat \<Rightarrow> (stat, 'fs) reading" where
  "getattr_body path stbuf env q w =
     run_bind (getattr_path path env q w)
       (\<lambda>(r, q1, w1). case r of
          Inl e \<Rightarrow> Done ((abort_operation e, stbuf), q1, w1)
        | Inr p \<Rightarrow>
            let (s, st) = (case os_lstat (sys env) p (fs w1) of Inl e \<Rightarrow> (Exit_failed (Some e), stbuf) | Inr st \<Rightarrow> (Exit_ok, st));
                (post, w2) = getattr_post env q1 st w1
            in Done (case post of Inl e \<Rightarrow> (abort_operation e, st) | Inr st2 \<Rightarrow> (s, st2), q1, w2))"

definition tagsistant_getattr :: "'fs env \<Rightarrow> string \<Rightarrow> stat \<Rightarrow> 'fs world \<Rightarrow> ((errno option \<times> stat) \<times> 'fs world) run" where
  "tagsistant_getattr env path stbuf w = run_reader env False (getattr_body path stbuf) path w"

text \<open>The buffer of access is a local variable.\<close>

definition tagsistant_access :: "'fs env \<Rightarrow> string \<Rightarrow> stat \<Rightarrow> 'fs world \<Rightarrow> (errno option \<times> 'fs world) run" where
  "tagsistant_access env path st w =
     run_bind (tagsistant_getattr env path st w)
       (\<lambda>((r, _), w1). Done (if r = None then None else Some EACCES, w1))"


subsection \<open>readlink\<close>

text \<open>
  A result as long as the buffer leaves no room for the final NUL, which is then written past
  its end.
\<close>

definition readlink_body :: "nat \<Rightarrow> (string, 'fs) reading" where
  "readlink_body bufsize env q w =
     (if q_type q = QTYPE_MALFORMED then Done ((abort_operation ENOENT, ''''), q, w)
      else if q_type q = QTYPE_STORE \<and> q_complete q \<or> q_type q = QTYPE_ARCHIVE then
        (case os_readlink (sys env) (q_full_archive_path q) bufsize (fs w) of
           Inl e \<Rightarrow> Done ((Exit_failed (Some e), ''''), q, w)
         | Inr s \<Rightarrow> if s \<noteq> [] \<and> bufsize \<le> length s then Segv else Done ((Exit_ok, s), q, w))
      else Done ((abort_operation EINVAL, ''''), q, w))"

definition tagsistant_readlink :: "'fs env \<Rightarrow> string \<Rightarrow> nat \<Rightarrow> 'fs world \<Rightarrow> ((errno option \<times> string) \<times> 'fs world) run" where
  "tagsistant_readlink env path bufsize w = run_reader env True (readlink_body bufsize) path w"

subsection \<open>chmod, chown, utime, statvfs\<close>

text \<open>A system call on the file of the object.\<close>

definition call_on_object :: "('fs env \<Rightarrow> gchars \<Rightarrow> 'fs \<Rightarrow> errno option \<times> 'fs) \<Rightarrow> 'fs body" where
  "call_on_object call env q w =
     (let (e, fs1) = call env (q_full_archive_path q) (fs w) in Done (sys_exit e, q, w\<lparr>fs := fs1\<rparr>))"

definition chmod_body :: "nat \<Rightarrow> 'fs body" where
  "chmod_body mode env q w =
     (if q_type q = QTYPE_MALFORMED then Done (abort_operation ENOENT, q, w)
      else if q_points_to_object q then call_on_object (\<lambda>env p. os_chmod (sys env) p mode) env q w
      else Done (abort_operation EROFS, q, w))"

definition chown_body :: "nat \<Rightarrow> nat \<Rightarrow> 'fs body" where
  "chown_body uid gid env q w =
     (if q_type q = QTYPE_MALFORMED then Done (abort_operation ENOENT, q, w)
      else if q_points_to_object q then call_on_object (\<lambda>env p. os_chown (sys env) p uid gid) env q w
      else Done (abort_operation EROFS, q, w))"

text \<open>For anything that is not an object utime changes the times of \<^verbatim>\<open>archive/\<close>.\<close>

definition utime_body :: "nat \<Rightarrow> nat \<Rightarrow> 'fs body" where
  "utime_body actime modtime env q w =
     (if q_type q = QTYPE_MALFORMED then Done (abort_operation ENOENT, q, w)
      else call_on_object (\<lambda>env p. os_utime (sys env) (if q_points_to_object q then p else Some (archive env)) actime modtime) env q w)"

definition tagsistant_chmod :: "'fs env \<Rightarrow> string \<Rightarrow> nat \<Rightarrow> 'fs world \<Rightarrow> (errno option \<times> 'fs world) run" where
  "tagsistant_chmod env path mode w = run_operation env False True (chmod_body mode) path w"

definition tagsistant_chown :: "'fs env \<Rightarrow> string \<Rightarrow> nat \<Rightarrow> nat \<Rightarrow> 'fs world \<Rightarrow> (errno option \<times> 'fs world) run" where
  "tagsistant_chown env path uid gid w = run_operation env False True (chown_body uid gid) path w"

definition tagsistant_utime :: "'fs env \<Rightarrow> string \<Rightarrow> nat \<Rightarrow> nat \<Rightarrow> 'fs world \<Rightarrow> (errno option \<times> 'fs world) run" where
  "tagsistant_utime env path actime modtime w = run_operation env False True (utime_body actime modtime) path w"

definition tagsistant_statvfs :: "'fs env \<Rightarrow> string \<Rightarrow> 'fs world \<Rightarrow> errno + nat" where
  "tagsistant_statvfs env path w = os_statvfs (sys env) (repository env) (fs w)"

subsection \<open>Contracts\<close>

lemma get_tag_id_frame: "tagsistant_sql_get_tag_id env c n k v w = (i, w') \<Longrightarrow> body_frame q w q w' \<and> db w' = db w"
  using sql_frames(5)[of q w env c n k v] get_tag_id_db[of env c n k v w] by simp

lemma existing_tag_frame: "body_frame q w q (snd (existing_tag env c n k v w)) \<and> db (snd (existing_tag env c n k v w)) = db w"
  by (simp add: existing_tag_def Let_def split_beta)

lemma related_tag_frame: "body_frame q w q (snd (related_tag env r b w)) \<and> db (snd (related_tag env r b w)) = db w"
  by (simp add: related_tag_def existing_tag_frame)

lemma check_relation_frame:
  "body_frame q (snd r) q (snd (check_relation env p r)) \<and> db (snd (check_relation env p r)) = db (snd r)"
  using related_tag_frame[of q "snd r" env p "q_namespace p \<noteq> None"]
  by (auto simp: check_relation_def split: sum.splits prod.splits)

lemma getattr_relations_frame:
  "body_frame q w q (snd (getattr_relations env p w)) \<and> db (snd (getattr_relations env p w)) = db w"
  unfolding getattr_relations_def
  using check_relation_frame existing_tag_frame body_frame_trans by (smt (verit) body_frame_refl snd_conv)

lemma getattr_object_handle: "getattr_object env q w = Done (r, q1) \<Longrightarrow> same_handle q q1"
  by (auto simp: getattr_object_def run_bind_Done_iff split: if_splits dest: check_consistency_handle)

lemma getattr_path_frame:
  assumes "getattr_path path env q w = Done (r, q1, w1)"
  shows "body_frame q w q1 w1 \<and> db w1 = db w"
  using assms getattr_relations_frame[of q w env q] unfolding getattr_path_def
  by (auto simp: run_bind_Done_iff Let_def split_beta quiet_body_frame dest!: getattr_object_handle split: if_splits)

lemma getattr_post_frame: "body_frame q w q (snd (getattr_post env p st w)) \<and> db (snd (getattr_post env p st w)) = db w"
  by (auto simp: getattr_post_def post_store_def post_store_tag_def post_tags_def Let_def split_beta split: option.splits)

lemma getattr_body_facts:
  assumes "getattr_body path stbuf env q w = Done ((s, st), q', w')"
  shows "body_frame q w q' w' \<and> db w' = db w"
proof -
  obtain r q1 w1 where 1: "getattr_path path env q w = Done (r, q1, w1)"
    using assms by (cases "getattr_path path env q w") (auto simp: getattr_body_def)
  have "q' = q1 \<and> (w' = w1 \<or> (\<exists>st. w' = snd (getattr_post env q1 st w1)))"
  proof (cases r)
    case (Inr p)
    then show ?thesis using assms 1 by (auto simp: getattr_body_def Let_def split_beta)
  qed (use assms 1 in \<open>auto simp: getattr_body_def\<close>)
  then have "body_frame q1 w1 q' w' \<and> db w' = db w1" by (auto simp: getattr_post_frame)
  with getattr_path_frame[OF 1] show ?thesis using body_frame_trans[of q w q1 w1 q' w'] by simp
qed

interpretation getattr: pure_reader "getattr_body path stbuf" for path stbuf
  by unfold_locales (simp_all add: getattr_body_facts)

interpretation readlink: pure_reader "readlink_body bufsize" for bufsize
  by unfold_locales (auto simp: readlink_body_def split: if_splits sum.splits)

lemma call_on_object_frame:
  "call_on_object call env q w = Done (s, q', w') \<Longrightarrow> body_frame q w q' w' \<and> db w' = db w"
  by (auto simp: call_on_object_def Let_def split: prod.splits)

interpretation chmod: pure_operation "chmod_body mode" for mode
  by unfold_locales (auto simp: chmod_body_def dest: call_on_object_frame split: if_splits)

interpretation chown: pure_operation "chown_body uid gid" for uid gid
  by unfold_locales (auto simp: chown_body_def dest: call_on_object_frame split: if_splits)

interpretation utime: pure_operation "utime_body actime modtime" for actime modtime
  by unfold_locales (auto simp: utime_body_def dest: call_on_object_frame split: if_splits)

subsection \<open>Relations as paths\<close>

lemma flat_get:
  assumes "store_inv env w" "tags_plain (db w)" "plain n" "\<not> is_triple_token n"
  shows "fst (tagsistant_sql_get_tag_id env True (Some n) None None w) = tag_id_of (db w) (n, '''', '''')"
    "store_inv env (snd (tagsistant_sql_get_tag_id env True (Some n) None None w))"
proof -
  have "\<forall>r \<in> set (tags (db w)). tr_name r = n \<longrightarrow> tr_key r = '''' \<and> tr_value r = ''''"
    using assms(2,4) unfolding tags_plain_def by blast
  note f = flat_lookup[OF this]
  have "plain_key (n, '''', '''')" using assms(3) by (simp add: plain_key_def plain_def)
  from get_exact[OF assms(1) this] assms(1)
  show "fst (tagsistant_sql_get_tag_id env True (Some n) None None w) = tag_id_of (db w) (n, '''', '''')"
    "store_inv env (snd (tagsistant_sql_get_tag_id env True (Some n) None None w))"
    unfolding f by (simp_all add: store_inv_def)
qed

lemma valid_relation_eq:
  assumes "q_relation q = Some rel" "q_dbi q" "rel \<in> {''includes'', ''excludes'', ''is_equivalent''}"
  shows "tagsistant_valid_relation q i j w \<longleftrightarrow> has_relation (sint i) rel (sint j) (db w)"
  using assms(3) unfolding insert_iff empty_iff
  by (elim disjE) (simp_all add: tagsistant_valid_relation_def assms(1,2))

definition relation_tree :: "string list \<Rightarrow> string \<Rightarrow> string \<Rightarrow> string \<Rightarrow> querytree" where
  "relation_tree ts a rel b = (new_querytree (path_of ts))\<lparr>q_dbi := True, q_type := QTYPE_RELATIONS,
     q_first_tag := Some a, q_relation := Some rel, q_second_tag := Some b, q_complete := True\<rparr>"

lemma relation_tree_new:
  assumes "components_ok [''relations'', a, rel, b]" "\<not> is_triple_token a" "\<not> is_triple_token b"
    "rel \<in> {''includes'', ''excludes'', ''is_equivalent''}"
  shows "tagsistant_querytree_new env (path_of [''relations'', a, rel, b]) False True dr w
    = Done (relation_tree [''relations'', a, rel, b] a rel b, tagsistant_db_connection False w)"
proof -
  have r: "relation_pattern rel" using assms(4) by (auto simp: relation_pattern_def ends_dollar_def suffix_to_prefix newline_def)
  show ?thesis unfolding querytree_new_eval[OF assms(1)]
    using assms(2,3) r
    by (simp add: Let_def guess_type_def parse_tokens_def tagsistant_querytree_parse_relations_def parse_relation_and_right_def
        parse_right_tag_def resolve_object_def points_to_object_def qtree_return_def relation_tree_def new_querytree_def
        del: path_of_simps)
qed

text \<open>C15: The path of a relation between two tags, \<^verbatim>\<open>relations/a/rel/b\<close>, exists exactly when both
  tags exist and the table has the relation from the first to the second: for
  \<^verbatim>\<open>is_equivalent\<close> too, in that direction only, although its query is written to look in both.\<close>

theorem relation_path_exists:
  assumes "store_inv env w" "tags_plain (db w)" "plain a" "plain b"
    and p: "components_ok [''relations'', a, rel, b]" "\<not> is_triple_token a" "\<not> is_triple_token b"
      "rel \<in> {''includes'', ''excludes'', ''is_equivalent''}"
    and l: "os_lstat (sys env) (Some (archive env)) (fs w) = Inr st"
  shows "\<exists>out w'. tagsistant_getattr env (path_of [''relations'', a, rel, b]) stbuf w = Done
    ((if tag_id_of (db w) (a, '''', '''') \<noteq> 0 \<and> tag_id_of (db w) (b, '''', '''') \<noteq> 0
         \<and> has_relation (sint (tag_id_of (db w) (a, '''', ''''))) rel (sint (tag_id_of (db w) (b, '''', ''''))) (db w)
      then None else Some ENOENT, out), w')"
proof -
  let ?q = "relation_tree [''relations'', a, rel, b] a rel b"
  define w1 where "w1 = tagsistant_db_connection False w"
  have d: "db w1 = db w" "fs w1 = fs w" "tag_cache w1 = tag_cache w" by (simp_all add: w1_def)
  have w1: "store_inv env w1" "tags_plain (db w1)" "db w1 = db w" "fs w1 = fs w"
  proof -
    show "store_inv env w1" using assms(1) unfolding store_inv_def cache_coherent_def d .
    show "tags_plain (db w1)" using assms(2) unfolding d .
  qed (rule d)+
  let ?g1 = "tagsistant_sql_get_tag_id env True (Some a) None None w1"
  note A = flat_get[OF w1(1,2) assms(3) p(2)]
  have d1: "db (snd ?g1) = db w" by (simp add: w1)
  let ?g2 = "tagsistant_sql_get_tag_id env True (Some b) None None (snd ?g1)"
  have tp: "tags_plain (db (snd ?g1))" using assms(2) by (simp add: w1)
  note B = flat_get[OF A(2) tp assms(4) p(3)]
  have q: "q_dbi ?q" "q_type ?q = QTYPE_RELATIONS" "q_namespace ?q = None" "q_first_tag ?q = Some a" "q_second_tag ?q = Some b"
    "q_relation ?q = Some rel" "q_error_message ?q = None" "\<not> q_points_to_object ?q"
    by (simp_all add: relation_tree_def new_querytree_def)
  have "same_frame w1 (snd ?g2)" by (meson same_frame_get_tag_id same_frame_trans)
  then have f: "fs (snd ?g2) = fs w" unfolding same_frame_def w1(4) by blast
  have v: "tagsistant_valid_relation ?q i j w \<longleftrightarrow> has_relation (sint i) rel (sint j) (db w)" for i j and w :: "'a world"
    by (rule valid_relation_eq[OF q(6,1) p(4)])
  have g: "getattr_relations env ?q w1 =
     (if fst ?g1 = 0 then (Inl ENOENT, snd ?g1) else if fst ?g2 = 0 then (Inl ENOENT, snd ?g2)
      else (if has_relation (sint (fst ?g1)) rel (sint (fst ?g2)) (db w) then Inr (Some (archive env)) else Inl ENOENT, snd ?g2))"
    by (simp add: getattr_relations_def q check_relation_def related_tag_def existing_tag_def Let_def split_beta v w1)
  obtain r w2 where gr: "getattr_relations env ?q w1 = (r, w2)" by (metis surj_pair)
  have r: "r = (if fst ?g1 \<noteq> 0 \<and> fst ?g2 \<noteq> 0 \<and> has_relation (sint (fst ?g1)) rel (sint (fst ?g2)) (db w)
      then Inr (Some (archive env)) else Inl ENOENT)" "r \<noteq> Inl ENOENT \<Longrightarrow> fs w2 = fs w"
    using g f unfolding gr by (auto split: if_splits)
  have b: "getattr_body (path_of [''relations'', a, rel, b]) stbuf env ?q w1 =
      (if r = Inl ENOENT then Done ((abort_operation ENOENT, stbuf), ?q, w2) else Done ((Exit_ok, st), ?q, w2))"
    using r l by (auto simp: getattr_body_def getattr_path_def q gr getattr_post_def Let_def)
  show ?thesis unfolding tagsistant_getattr_def run_reader_def relation_tree_new[OF p] run_bind_simps prod.case w1_def[symmetric] b
    using r(1) A(1) B(1) by (simp add: d1 w1 leave_reader_def exit_operation_def abort_operation_def)
qed

definition one_way :: database where
  "one_way = insert_relation 1 2 ''is_equivalent'' (insert_tag ''b'' '''' '''' (insert_tag ''a'' '''' '''' empty_db))"

definition blank_stat :: stat where
  "blank_stat = \<lparr>st_ino = 0, st_mode = 0, st_nlink = 0, st_size = 0\<rparr>"

theorem relation_path_exists_witness:
  "(\<exists>out w'. tagsistant_getattr sample_env ''/relations/a/is_equivalent/b'' blank_stat (sample_world one_way [''/r/archive/'']) = Done ((None, out), w'))
   \<and> (\<exists>out w'. tagsistant_getattr sample_env ''/relations/b/is_equivalent/a'' blank_stat (sample_world one_way [''/r/archive/'']) = Done ((Some ENOENT, out), w'))"
proof -
  have t: "tags one_way = [\<lparr>tr_id = 1, tr_name = ''a'', tr_key = '''', tr_value = ''''\<rparr>, \<lparr>tr_id = 2, tr_name = ''b'', tr_key = '''', tr_value = ''''\<rparr>]"
    "tags_seq one_way = 2" "relations one_way = [\<lparr>re_id = 1, re_tag1 = 1, re_relation = ''is_equivalent'', re_tag2 = 2\<rparr>]"
    by (simp_all add: one_way_def empty_db_def insert_tag_def insert_relation_def tag_triple_def)
  have ok: "db_ok one_way" by (simp add: one_way_def db_ok_statements db_ok_empty)
  have pl: "tags_plain one_way" by (simp add: tags_plain_def plain_def t triple_token_eval)
  have c: "components_ok [''relations'', ''a'', ''is_equivalent'', ''b'']" "components_ok [''relations'', ''b'', ''is_equivalent'', ''a'']"
    "\<not> is_triple_token ''a''" "\<not> is_triple_token ''b''" "plain ''a''" "plain ''b''"
    by (simp_all add: components_ok_def triple_token_eval plain_def)
  have l: "os_lstat (sys sample_env) (Some (archive sample_env)) (fs (sample_world one_way [''/r/archive/'']))
      = Inr \<lparr>st_ino = 1, st_mode = 33188, st_nlink = 1, st_size = 0\<rparr>"
    by (simp add: sample_env_def sample_os_def sample_touch_def)
  have i: "tag_id_of one_way (''a'', '''', '''') = 1" "tag_id_of one_way (''b'', '''', '''') = 2"
    "has_relation 1 ''is_equivalent'' 2 one_way" "\<not> has_relation 2 ''is_equivalent'' 1 one_way"
    by (simp_all add: tag_id_of_def t tag_triple_def has_relation_def)
  show ?thesis
    using relation_path_exists[OF store_inv_sample[OF ok] _ c(5,6,1,3,4) _ l, of blank_stat] relation_path_exists[OF store_inv_sample[OF ok] _ c(6,5,2,4,3) _ l, of blank_stat]
    by (simp add: pl i)
qed

end
