(* ===== verification/Deduplication.thy ===== *)
theory Deduplication
  imports Fuse_Attributes
begin

section \<open>Checksums and deduplication\<close>

text \<open>
  \<^verbatim>\<open>src/src/deduplication.c\<close>, as it is compiled: deduplication runs inline, at the end of
  the flush that closes a written file, and autotagging through a queue. The loops that pop a
  queue for ever are one step per element.
\<close>

definition TAGSISTANT_AUTOTAGGING_SEPARATOR :: string where
  "TAGSISTANT_AUTOTAGGING_SEPARATOR = ''<><><>''"

text \<open>The result is whether autotagging is requested.\<close>

definition tagsistant_querytree_find_duplicates :: "querytree \<Rightarrow> string \<Rightarrow> 'fs world \<Rightarrow> bool \<times> querytree \<times> 'fs world" where
  "tagsistant_querytree_find_duplicates q hex w =
     (let main_inode = (if q_dbi q
            then last_row 0 (map word_of_int (take 1 (sort (select_inodes (\<lambda>r. ob_checksum r = hex) (db w))))) else 0)
      in if main_inode = 0 then (True, q, w)
         else if q_inode q = main_inode then (True, q, w)
         else
           let w1 = sql_exec (q_dbi q) (move_tagging (sint main_inode) (sint (q_inode q))) w;
               w2 = sql_exec (q_dbi q) (delete_tagging_of_object (sint (q_inode q))) w1;
               w3 = sql_exec (q_dbi q) (delete_object (sint (q_inode q))) w2
           in (False, q\<lparr>q_schedule_for_unlink := True\<rparr>, w3))"

text \<open>
  If the file cannot be opened the function returns without giving back the connection and
  the lock. The open flags are \<^verbatim>\<open>O_RDONLY|O_NOATIME\<close>.
\<close>

definition tagsistant_deduplication_kernel :: "'fs env \<Rightarrow> string \<Rightarrow> 'fs world \<Rightarrow> 'fs world run" where
  "tagsistant_deduplication_kernel env path w =
     run_bind (tagsistant_querytree_new env path False True True w)
       (\<lambda>(q, w1).
          let (fd, fs1) = os_open (sys env) (q_full_archive_path q) 262144 (fs w1);
              w2 = w1\<lparr>fs := fs1\<rparr>
          in case fd of
               Inl e \<Rightarrow> Done w2
             | Inr h \<Rightarrow>
                 let hex = sha1 env (os_content (sys env) h (fs w2));
                     w3 = sql_exec (q_dbi q) (update_object (sint (q_inode q)) (\<lambda>r. r\<lparr>ob_checksum := hex\<rparr>)) w2;
                     (do_autotagging, q1, w4) = tagsistant_querytree_find_duplicates q hex w3;
                     w5 = (if do_autotagging
                           then w4\<lparr>autotag_queue := autotag_queue w4 @
                                  [path @ TAGSISTANT_AUTOTAGGING_SEPARATOR @ printf_s (q_full_archive_path q1)]\<rparr>
                           else w4);
                     w6 = tagsistant_querytree_destroy env q1 True w5
                 in Done (w6\<lparr>fs := os_close (sys env) h (fs w6)\<rparr>))"

definition tagsistant_deduplicate :: "'fs env \<Rightarrow> string \<Rightarrow> 'fs world \<Rightarrow> 'fs world run" where
  "tagsistant_deduplicate env path w = tagsistant_deduplication_kernel env path w"

subsection \<open>Fixing missing checksums at start\<close>

definition tagsistant_fix_checksums_callback :: "'fs env \<Rightarrow> int \<times> string \<Rightarrow> 'fs world \<Rightarrow> 'fs world run" where
  "tagsistant_fix_checksums_callback env row w =
     tagsistant_deduplicate env (''/store/ALL/@@/'' @ dec (nat (fst row)) @ ''___'' @ snd row) w"

fun fix_rows :: "'fs env \<Rightarrow> (int \<times> string) list \<Rightarrow> 'fs world \<Rightarrow> 'fs world run" where
  "fix_rows env [] w = Done w"
| "fix_rows env (r # rs) w = run_bind (tagsistant_fix_checksums_callback env r w) (fix_rows env rs)"

text \<open>
  The rows are those of the query at its start. The connection is taken as a reader and given
  back as a writer.
\<close>

definition unchecked_rows :: "'fs env \<Rightarrow> database \<Rightarrow> (int \<times> string) list" where
  "unchecked_rows env d =
     map (\<lambda>i. (i, case map_of (map (\<lambda>r. (ob_inode r, ob_name r)) (objects d)) i of None \<Rightarrow> '''' | Some n \<Rightarrow> n))
       (order_ids env (select_inodes (\<lambda>r. ob_checksum r = '''') d))"

definition tagsistant_fix_checksums :: "'fs env \<Rightarrow> 'fs world \<Rightarrow> 'fs world run" where
  "tagsistant_fix_checksums env w =
     (let w1 = tagsistant_db_connection False w
      in run_bind (fix_rows env (unchecked_rows env (db w1)) w1) (\<lambda>w2. Done (tagsistant_db_connection_release True w2)))"

subsection \<open>The elements of the autotagging queue\<close>

definition split_separator :: "string \<Rightarrow> string \<Rightarrow> string \<times> string option" where
  "split_separator sep s =
     (let n = length (takeWhile (\<lambda>k. \<not> prefix sep (drop k s)) [0..<length s])
      in if n < length s then (take n s, Some (drop (n + length sep) s)) else (s, None))"

text \<open>The two paths \<^verbatim>\<open>tagsistant_autotagging_kernel\<close> hands to the plugins, if it does.\<close>

definition autotagging_paths :: "string \<Rightarrow> (string \<times> string option) option" where
  "autotagging_paths paths =
     (if length paths \<le> length TAGSISTANT_AUTOTAGGING_SEPARATOR then None
      else Some (split_separator TAGSISTANT_AUTOTAGGING_SEPARATOR paths))"

subsection \<open>Merging the tags of two copies\<close>

lemma moved_inj:
  assumes "to \<noteq> from"
  shows "inj_on (\<lambda>p. if fst p = from then (to, snd p) else p) (set (tagging d)) \<longleftrightarrow> tags_of to d \<inter> tags_of from d = {}"
  using assms by (fastforce simp: inj_on_def tags_of_def)

lemma move_tagging_distinct:
  assumes "db_ok d" "to \<noteq> from"
  shows "distinct (map (\<lambda>p. if fst p = from then (to, snd p) else p) (tagging d)) \<longleftrightarrow> tags_of to d \<inter> tags_of from d = {}"
  using assms by (simp add: distinct_map moved_inj db_ok_def)

lemma moved_pair:
  "(i, t) \<in> (\<lambda>p. if fst p = from then (to, snd p) else p) ` S \<longleftrightarrow> (i, t) \<in> S \<and> i \<noteq> from \<or> i = to \<and> (from, t) \<in> S"
  by (auto simp: image_iff split: if_splits) force+

lemma tags_of_moved:
  assumes "db_ok d" "to \<noteq> from"
  shows "tags_of j (delete_tagging_of_object from (move_tagging to from d)) =
    (if j = from then {}
     else if j = to \<and> tags_of to d \<inter> tags_of from d = {} then tags_of to d \<union> tags_of from d else tags_of j d)"
proof (cases "tags_of to d \<inter> tags_of from d = {}")
  case True
  then have "tagging (move_tagging to from d) = map (\<lambda>p. if fst p = from then (to, snd p) else p) (tagging d)"
    using move_tagging_distinct[OF assms] by (simp add: move_tagging_def)
  then have "(i, t) \<in> set (tagging (move_tagging to from d)) \<longleftrightarrow>
      (i, t) \<in> set (tagging d) \<and> i \<noteq> from \<or> i = to \<and> (from, t) \<in> set (tagging d)" for i t
    by (simp only: set_map moved_pair)
  then show ?thesis using assms(2) True by (auto simp: tags_of_def delete_tagging_of_object_def)
next
  case False
  then have "tagging (move_tagging to from d) = tagging d"
    using move_tagging_distinct[OF assms] by (simp add: move_tagging_def)
  then show ?thesis using False by (auto simp: tags_of_def delete_tagging_of_object_def)
qed

text \<open>The copy an object is merged into: the oldest one with its checksum.\<close>

definition oldest_copy :: "string \<Rightarrow> database \<Rightarrow> int \<Rightarrow> bool" where
  "oldest_copy hex d m \<longleftrightarrow> (\<exists>r \<in> set (objects d). ob_inode r = m \<and> ob_checksum r = hex) \<and>
     (\<forall>r \<in> set (objects d). ob_checksum r = hex \<longrightarrow> m \<le> ob_inode r)"

lemma first_sorted:
  assumes "m \<in> set xs" "\<And>x. x \<in> set xs \<Longrightarrow> m \<le> (x :: int)"
  shows "take 1 (sort xs) = [m]"
proof -
  have "sort xs \<noteq> []" using assms(1) by (metis emptyE set_empty set_sort)
  then obtain y ys where y: "sort xs = y # ys" by (cases "sort xs") auto
  have "sorted (y # ys)" "set (y # ys) = set xs" unfolding y[symmetric] by simp_all
  moreover have "m = y \<or> m \<in> set ys" "y \<in> set xs" using assms(1) \<open>set (y # ys) = set xs\<close> by auto
  ultimately have "y \<le> m" "m \<le> y" using assms(2) by auto
  then show ?thesis by (simp add: y)
qed

lemma find_duplicates_facts:
  assumes "db_ok (db w)" "q_dbi q" "oldest_copy hex (db w) m" "m < 2 ^ 31" "0 < sint (q_inode q)" "sint (q_inode q) \<noteq> m"
    and r: "tagsistant_querytree_find_duplicates q hex w = (b, q', w')"
  shows "\<not> b" "q_schedule_for_unlink q'"
    "db w' = delete_object (sint (q_inode q)) (delete_tagging_of_object (sint (q_inode q)) (move_tagging m (sint (q_inode q)) (db w)))"
proof -
  have t: "take 1 (sort (select_inodes (\<lambda>r. ob_checksum r = hex) (db w))) = [m]"
    using assms(3) by (intro first_sorted) (auto simp: oldest_copy_def select_inodes_def)
  have "1 \<le> m" using assms(1,3) by (auto simp: oldest_copy_def db_ok_def)
  then have s: "sint (word_of_int m :: 32 word) = m" using assms(4) by (intro sint_word_of_int32) simp_all
  then have z: "(word_of_int m :: 32 word) \<noteq> 0" "q_inode q \<noteq> word_of_int m" using \<open>1 \<le> m\<close> assms(6) by auto
  show "\<not> b" "q_schedule_for_unlink q'"
    "db w' = delete_object (sint (q_inode q)) (delete_tagging_of_object (sint (q_inode q)) (move_tagging m (sint (q_inode q)) (db w)))"
    using r assms(2) z by (auto simp: tagsistant_querytree_find_duplicates_def Let_def t[unfolded One_nat_def] s)
qed


subsection \<open>Properties\<close>

text \<open>C39: deduplication keeps the tags of the removed copy exactly when the two copies share
  none. The object that is not the oldest one with its checksum loses its row and its taggings
  and its file is scheduled for removal; the oldest one gets its tags if they are disjoint from
  its own, and otherwise, the update of the taggings failing as a whole, gets none of them. The
  tags of any other object stay.\<close>

theorem deduplication_moves_tags_if_disjoint:
  assumes "db_ok (db w)" "q_dbi q" "oldest_copy hex (db w) m" "m < 2 ^ 31" "0 < sint (q_inode q)" "sint (q_inode q) \<noteq> m"
    and "tagsistant_querytree_find_duplicates q hex w = (b, q', w')"
  shows "\<not> b \<and> q_schedule_for_unlink q' \<and> db_ok (db w') \<and>
    sint (q_inode q) \<notin> ob_inode ` set (objects (db w')) \<and>
    (\<forall>j. tags_of j (db w') =
      (if j = sint (q_inode q) then {}
       else if j = m \<and> tags_of m (db w) \<inter> tags_of (sint (q_inode q)) (db w) = {}
       then tags_of m (db w) \<union> tags_of (sint (q_inode q)) (db w) else tags_of j (db w)))"
proof -
  let ?i = "sint (q_inode q)"
  note F = find_duplicates_facts[OF assms]
  have t: "tags_of j (delete_object i d) = tags_of j d" for i j d by (simp add: tags_of_def delete_object_def)
  have "m \<noteq> ?i" using assms(6) by simp
  note T = tags_of_moved[OF assms(1) this]
  have "db_ok (db w')" unfolding F(3) using assms(1) by (simp add: db_ok_statements)
  moreover have "?i \<notin> ob_inode ` set (objects (db w'))" unfolding F(3) by (auto simp: delete_object_def)
  moreover have "\<forall>j. tags_of j (db w') = (if j = ?i then {}
       else if j = m \<and> tags_of m (db w) \<inter> tags_of ?i (db w) = {}
       then tags_of m (db w) \<union> tags_of ?i (db w) else tags_of j (db w))"
    unfolding F(3) t T by simp
  ultimately show ?thesis using F(1,2) by blast
qed

definition two_copies :: database where
  "two_copies = empty_db\<lparr>objects := [\<lparr>ob_inode = 1, ob_name = ''a'', ob_checksum = ''h'', ob_symlink = ''''\<rparr>,
      \<lparr>ob_inode = 2, ob_name = ''b'', ob_checksum = ''h'', ob_symlink = ''''\<rparr>], objects_seq := 2,
    tagging := [(1, 5), (2, 5), (2, 6)]\<rparr>"

theorem deduplication_moves_tags_if_disjoint_witness:
  "let w = sample_world two_copies [];
       w' = snd (snd (tagsistant_querytree_find_duplicates ((new_querytree ''/store/a/@/b'')\<lparr>q_dbi := True, q_inode := 2\<rparr>) ''h'' w))
   in tags_of 2 (db w) = {5, 6} \<and> tags_of 1 (db w') = {5} \<and> tags_of 2 (db w') = {}"
proof -
  let ?q = "(new_querytree ''/store/a/@/b'')\<lparr>q_dbi := True, q_inode := 2\<rparr>"
  let ?w = "sample_world two_copies []"
  let ?r = "tagsistant_querytree_find_duplicates ?q ''h'' ?w"
  have h: "db_ok (db ?w)" "oldest_copy ''h'' (db ?w) 1"
    by (simp_all add: two_copies_def db_ok_def empty_db_def oldest_copy_def tag_triple_def)
  have q: "q_dbi ?q" "sint (q_inode ?q) = 2" by simp_all
  have t: "tags_of 1 (db ?w) = {5}" "tags_of 2 (db ?w) = {5, 6}" by (auto simp: two_copies_def tags_of_def)
  have "tags_of j (db (snd (snd ?r))) = (if j = 2 then {} else tags_of j (db ?w))" for j
    using deduplication_moves_tags_if_disjoint[OF h(1) q(1) h(2), of "fst ?r" "fst (snd ?r)" "snd (snd ?r)"]
    unfolding q(2) t by (auto simp: t)
  then show ?thesis using t by (simp add: Let_def)
qed

text \<open>when the file of an object cannot be opened, deduplication returns with the reader
  lock held and the connection out of the pool.\<close>

theorem deduplication_keeps_lock_if_open_fails:
  assumes "tagsistant_querytree_new env path False True True w = Done (q, w1)"
    and "os_open (sys env) (q_full_archive_path q) 262144 (fs w1) = (Inl e, fs1)"
  shows "\<exists>w'. tagsistant_deduplicate env path w = Done w' \<and> lock_log w' = lock_log w @ [Reader_lock] \<and> pool w' = pool w - 1"
  using querytree_new_facts(4)[OF assms(1)] assms
  by (simp add: tagsistant_deduplicate_def tagsistant_deduplication_kernel_def quiet_def)

theorem deduplication_keeps_lock_if_open_fails_witness:
  "\<exists>w'. tagsistant_deduplicate sample_env ''/x'' (sample_world empty_db []) = Done w' \<and> lock_log w' = [Reader_lock]"
proof -
  have c: "components_ok [''x'']" "path_of [''x''] = ''/x''" by (simp_all add: components_ok_def)
  let ?w1 = "tagsistant_db_connection False (sample_world empty_db ([] :: string list))"
  obtain q where q: "tagsistant_querytree_new sample_env ''/x'' False True True (sample_world empty_db []) = Done (q, ?w1)"
    using querytree_new_eval[OF c(1), of sample_env False True "sample_world empty_db []"] unfolding c(2)
    by (simp add: Let_def guess_type_def)
  have "fst (os_open (sys sample_env) p f []) = Inl (if p = None then EFAULT else ENOENT)" for p f
    by (simp add: sample_env_def sample_os_def sample_touch_def)
  then obtain e fs1 where "os_open (sys sample_env) (q_full_archive_path q) 262144 (fs ?w1) = (Inl e, fs1)"
    by (metis connection_simps(7) prod.collapse sample_world_simps(8))
  from deduplication_keeps_lock_if_open_fails[OF q this] show ?thesis by auto
qed

text \<open>an element of the autotagging queue is taken apart into the two paths it was made of,
  if the first has no \<^verbatim>\<open><\<close>.\<close>

theorem queued_paths_roundtrip:
  assumes "CHR ''<'' \<notin> set path" "path \<noteq> []"
  shows "autotagging_paths (path @ TAGSISTANT_AUTOTAGGING_SEPARATOR @ full) = Some (path, Some full)"
proof -
  let ?s = "path @ TAGSISTANT_AUTOTAGGING_SEPARATOR @ full"
  let ?P = "\<lambda>k. \<not> prefix TAGSISTANT_AUTOTAGGING_SEPARATOR (drop k ?s)"
  have l: "length ?s = length path + (6 + length full)" by (simp add: TAGSISTANT_AUTOTAGGING_SEPARATOR_def)
  have "?P k" if "k < length path" for k
  proof -
    have "drop k ?s = path ! k # drop (Suc k) path @ TAGSISTANT_AUTOTAGGING_SEPARATOR @ full"
      using that by (simp add: Cons_nth_drop_Suc[symmetric])
    moreover have "path ! k \<noteq> CHR ''<''" using assms(1) that by (metis nth_mem)
    ultimately show ?thesis by (simp add: TAGSISTANT_AUTOTAGGING_SEPARATOR_def)
  qed
  then have a: "\<forall>k \<in> set [0..<length path]. ?P k" by simp
  have b: "\<not> ?P (length path)" by simp
  have u: "[0..<length ?s] = [0..<length path] @ length path # [Suc (length path)..<length ?s]"
    unfolding l upt_add_eq_append[OF le0] using upt_conv_Cons[of "length path" "length path + (6 + length full)"] by simp
  have "takeWhile ?P [0..<length ?s] = [0..<length path]" unfolding u by (rule takeWhile_append_stop[OF a b])
  then show ?thesis using assms(2) l by (simp add: autotagging_paths_def split_separator_def Let_def)
qed

theorem queued_paths_roundtrip_witness:
  "autotagging_paths (''/store/a/@/f'' @ TAGSISTANT_AUTOTAGGING_SEPARATOR @ ''/r/1___f'') = Some (''/store/a/@/f'', Some ''/r/1___f'')"
  by (rule queued_paths_roundtrip) simp_all

end
