(* ===== verification/Fuse_Files.thy ===== *)
theory Fuse_Files
  imports Deduplication
begin

section \<open>open, read, write, flush, release, truncate\<close>

text \<open>
  The operations of \<^verbatim>\<open>src/src/fuse_operations\<close> on the content of files, as compiled with
  file handle caching: the descriptor of the file under \<^verbatim>\<open>archive/\<close> is kept in the
  \<^verbatim>\<open>fuse_file_info\<close> structure, 0 standing for none. None opens a transaction. A buffer
  that is read or written outside of its bounds is the outcome \<open>Segv\<close>.
\<close>

record file_info =
  fi_flags :: nat
  fi_fh :: int
  fi_keep_cache :: bool

text \<open>Calls on a descriptor, which is -1 after a failed \<^verbatim>\<open>open()\<close>.\<close>

definition fd_of :: "errno + nat \<Rightarrow> int" where
  "fd_of r = (case r of Inl _ \<Rightarrow> -1 | Inr h \<Rightarrow> int h)"

definition fd_pread :: "'fs env \<Rightarrow> int \<Rightarrow> nat \<Rightarrow> nat \<Rightarrow> 'fs \<Rightarrow> errno + string" where
  "fd_pread env fh n offset f = (if fh < 0 then Inl EBADF else os_pread (sys env) (nat fh) n offset f)"

definition fd_pwrite :: "'fs env \<Rightarrow> int \<Rightarrow> string \<Rightarrow> nat \<Rightarrow> 'fs \<Rightarrow> (errno + nat) \<times> 'fs" where
  "fd_pwrite env fh buf offset f = (if fh < 0 then (Inl EBADF, f) else os_pwrite (sys env) (nat fh) buf offset f)"

definition fd_close :: "'fs env \<Rightarrow> int \<Rightarrow> 'fs \<Rightarrow> 'fs" where
  "fd_close env fh f = (if fh \<le> 0 then f else os_close (sys env) (nat fh) f)"

definition is_error_file :: "querytree \<Rightarrow> string \<Rightarrow> bool" where
  "is_error_file q path \<longleftrightarrow> q_error_message q \<noteq> None \<and> ends_dollar ''@/error'' path"

subsection \<open>open\<close>

text \<open>\<^verbatim>\<open>O_WRONLY\<close> is 1 and \<^verbatim>\<open>O_RDWR\<close> is 2. The checksum is the mark of a file to deduplicate.\<close>

definition opened_for_writing :: "nat \<Rightarrow> bool" where
  "opened_for_writing flags \<longleftrightarrow> and flags 1 \<noteq> 0 \<or> and flags 2 \<noteq> 0"

definition tagsistant_invalidate_object_checksum :: "tagsistant_inode \<Rightarrow> dbi_conn \<Rightarrow> 'fs world \<Rightarrow> 'fs world" where
  "tagsistant_invalidate_object_checksum i conn w = sql_exec conn (update_object (sint i) (\<lambda>r. r\<lparr>ob_checksum := ''''\<rparr>)) w"

definition open_object :: "file_info \<Rightarrow> (file_info, 'fs) reading" where
  "open_object fi env q w =
     (if tagsistant_is_tags_list_file env q
      then (let (r, fs1) = os_open (sys env) (Some (tags_file env)) (fi_flags fi) (fs w)
            in Done ((sys_exit (case r of Inl e \<Rightarrow> Some e | Inr _ \<Rightarrow> None), fi), q, w\<lparr>fs := fs1\<rparr>))
      else if q_full_archive_path q = None then Done ((abort_operation EFAULT, fi), q, w)
      else let (r, fs1) = os_open (sys env) (q_full_archive_path q) (fi_flags fi) (fs w); w1 = w\<lparr>fs := fs1\<rparr>
           in case r of
                Inl e \<Rightarrow> Done ((Exit_failed (Some e), fi\<lparr>fi_fh := 0\<rparr>), q, w1)
              | Inr h \<Rightarrow>
                  run_bind (tagsistant_querytree_check_tagging_consistency env q w1)
                    (\<lambda>(_, q1).
                       let fi1 = fi\<lparr>fi_fh := int h\<rparr>
                       in if q_is_taggable q1
                          then if opened_for_writing (fi_flags fi)
                               then Done ((Exit_ok, fi1), q1, tagsistant_invalidate_object_checksum (q_inode q1) (q_dbi q1) w1)
                               else Done ((Exit_ok, fi1\<lparr>fi_keep_cache := True\<rparr>), q1, w1)
                          else Done ((Exit_ok, fi1), q1, w1)))"

definition open_body :: "string \<Rightarrow> file_info \<Rightarrow> (file_info, 'fs) reading" where
  "open_body path fi env q w =
     (if q_type q = QTYPE_MALFORMED then Done ((abort_operation ENOENT, fi), q, w)
      else if is_error_file q path then Done ((Exit_ok, fi), q, w)
      else if q_points_to_object q then open_object fi env q w
      else if q_type q = QTYPE_STATS then
        (let (r, fs1) = os_open (sys env) (Some (tags_file env)) (fi_flags fi) (fs w)
         in Done ((sys_exit (case r of Inl e \<Rightarrow> Some e | Inr _ \<Rightarrow> None), fi\<lparr>fi_fh := fd_of r, fi_keep_cache := False\<rparr>), q, w\<lparr>fs := fs1\<rparr>))
      else if q_type q = QTYPE_ALIAS \<and> q_alias q \<noteq> None then
        (if tagsistant_sql_alias_exists (q_dbi q) (q_alias q) w then Done ((Exit_ok, fi), q, w)
         else Done ((abort_operation ENOENT, fi), q, w))
      else Done ((abort_operation EROFS, fi), q, w))"

definition tagsistant_open :: "'fs env \<Rightarrow> string \<Rightarrow> file_info \<Rightarrow> 'fs world \<Rightarrow> ((errno option \<times> file_info) \<times> 'fs world) run" where
  "tagsistant_open env path fi w = run_reader env False (open_body path fi) path w"

subsection \<open>flush and release\<close>

text \<open>
  Deduplication is asked for when some object of that name has no checksum. It runs after the
  query tree is destroyed, on the path.
\<close>

definition flush_body :: "file_info \<Rightarrow> (file_info \<times> bool, 'fs) reading" where
  "flush_body fi env q w =
     (if q_type q = QTYPE_MALFORMED then Done ((abort_operation ENOENT, (fi, False)), q, w)
      else
        let do_deduplicate = (q_full_archive_path q \<noteq> None \<and>
              tagsistant_return_integer env (q_dbi q)
                (map (\<lambda>_. 1) (select_inodes (\<lambda>r. ob_name r = printf_s (q_object_path q) \<and> ob_checksum r = '''') (db w))) 0 \<noteq> 0)
        in Done ((Exit_ok, (fi\<lparr>fi_fh := 0\<rparr>, do_deduplicate)), q, w\<lparr>fs := fd_close env (fi_fh fi) (fs w)\<rparr>))"

definition tagsistant_flush :: "'fs env \<Rightarrow> string \<Rightarrow> file_info \<Rightarrow> 'fs world \<Rightarrow> ((errno option \<times> file_info) \<times> 'fs world) run" where
  "tagsistant_flush env path fi w =
     run_bind (run_reader env True (flush_body fi) path w)
       (\<lambda>((r, fi1, do_deduplicate), w1).
          if do_deduplicate then run_bind (tagsistant_deduplicate env path w1) (\<lambda>w2. Done ((r, fi1), w2))
          else Done ((r, fi1), w1))"

definition release_body :: "file_info \<Rightarrow> (file_info, 'fs) reading" where
  "release_body fi env q w =
     (if q_type q = QTYPE_MALFORMED then Done ((abort_operation ENOENT, fi), q, w)
      else run_bind (tagsistant_querytree_check_tagging_consistency env q w)
        (\<lambda>(_, q1). if q_is_taggable q1 then Done ((Exit_ok, fi\<lparr>fi_fh := 0\<rparr>), q1, w\<lparr>fs := fd_close env (fi_fh fi) (fs w)\<rparr>)
                   else Done ((Exit_ok, fi), q1, w)))"

definition tagsistant_release :: "'fs env \<Rightarrow> string \<Rightarrow> file_info \<Rightarrow> 'fs world \<Rightarrow> ((errno option \<times> file_info) \<times> 'fs world) run" where
  "tagsistant_release env path fi w = run_reader env False (release_body fi) path w"

subsection \<open>truncate\<close>

definition truncate_body :: "nat \<Rightarrow> 'fs body" where
  "truncate_body len env q w =
     (if q_type q = QTYPE_MALFORMED then Done (abort_operation ENOENT, q, w)
      else if q_points_to_object q then call_on_object (\<lambda>env p. os_truncate (sys env) p len) env q w
      else if q_type q = QTYPE_ALIAS \<and> q_alias q \<noteq> None
      then Done (Exit_ok, q, tagsistant_sql_alias_set (q_dbi q) (q_alias q) '''' w)
      else Done (abort_operation EROFS, q, w))"

definition tagsistant_truncate :: "'fs env \<Rightarrow> string \<Rightarrow> nat \<Rightarrow> 'fs world \<Rightarrow> (errno option \<times> 'fs world) run" where
  "tagsistant_truncate env path len w = run_operation env False True (truncate_body len) path w"

subsection \<open>write\<close>

definition TAGSISTANT_ALIAS_MAX_LENGTH :: nat where
  "TAGSISTANT_ALIAS_MAX_LENGTH = 1024"

text \<open>\<^verbatim>\<open>rindex()\<close> and the assignment through its result.\<close>

definition replace_last :: "char \<Rightarrow> char \<Rightarrow> string \<Rightarrow> string" where
  "replace_last c d s = (case dropWhile (\<lambda>x. x \<noteq> c) (rev s) of
      [] \<Rightarrow> s | _ # t \<Rightarrow> rev t @ d # rev (takeWhile (\<lambda>x. x \<noteq> c) (rev s)))"

text \<open>What becomes of the bytes written to an alias; \<^verbatim>\<open>size\<close> is their number.\<close>

definition alias_value :: "string \<Rightarrow> string" where
  "alias_value buf =
     (let b1 = replace_last (CHR 0x0A) (CHR ''/'') buf;
          b2 = replace_last (CHR 0x0D) (CHR ''/'') b1;
          b3 = replace_literal ''//'' ''/'' b2;
          max_size = min (length buf) (TAGSISTANT_ALIAS_MAX_LENGTH - 1)
      in take (min max_size (length b3)) b3)"

text \<open>
  The file is opened again when there is no descriptor or the write on it failed. When that
  \<^verbatim>\<open>open()\<close> returns 0 the write is given up, with the \<^verbatim>\<open>errno\<close> an earlier failure left.
\<close>

definition write_object :: "string \<Rightarrow> nat \<Rightarrow> file_info \<Rightarrow> 'fs env \<Rightarrow> querytree \<Rightarrow> 'fs world \<Rightarrow> (exit_status \<times> file_info \<times> nat) \<times> 'fs world" where
  "write_object buf offset fi env q w =
     (let fh = fi_fh fi;
          (r, fs1) = (if fh \<noteq> 0 then fd_pwrite env fh buf offset (fs w) else (Inr 0, fs w))
      in case (fh \<noteq> 0, r) of
           (True, Inr n) \<Rightarrow> ((Exit_ok, fi, n), w\<lparr>fs := fs1\<rparr>)
         | _ \<Rightarrow>
             let fs2 = fd_close env fh fs1;
                 (opened, fs3) = os_open (sys env) (q_full_archive_path q) (or (fi_flags fi) 1) fs2;
                 fh2 = fd_of opened
             in if fh2 = 0 then ((Exit_failed (case r of Inl e \<Rightarrow> Some e | Inr _ \<Rightarrow> None), fi\<lparr>fi_fh := 0\<rparr>, 0), w\<lparr>fs := fs3\<rparr>)
                else let (r2, fs4) = fd_pwrite env fh2 buf offset fs3
                     in (case r2 of Inl e \<Rightarrow> (Exit_failed (Some e), fi\<lparr>fi_fh := fh2\<rparr>, 0)
                         | Inr n \<Rightarrow> (Exit_ok, fi\<lparr>fi_fh := fh2\<rparr>, n), w\<lparr>fs := fs4\<rparr>))"

definition write_body :: "string \<Rightarrow> nat \<Rightarrow> file_info \<Rightarrow> (file_info \<times> nat, 'fs) reading" where
  "write_body buf offset fi env q w =
     (if q_type q = QTYPE_MALFORMED then Done ((abort_operation ENOENT, fi, 0), q, w)
      else if q_type q = QTYPE_ALIAS \<and> q_alias q \<noteq> None
      then Done ((Exit_ok, fi, length buf), q, tagsistant_sql_alias_set (q_dbi q) (q_alias q) (alias_value buf) w)
      else if q_points_to_object q then
        (if q_full_archive_path q = None then Done ((abort_operation EFAULT, fi, 0), q, w)
         else let (r, w1) = write_object buf offset fi env q w in Done (r, q, w1))
      else Done ((abort_operation EROFS, fi, 0), q, w))"

definition tagsistant_write ::
    "'fs env \<Rightarrow> string \<Rightarrow> string \<Rightarrow> nat \<Rightarrow> file_info \<Rightarrow> 'fs world \<Rightarrow> ((errno option \<times> file_info \<times> nat) \<times> 'fs world) run" where
  "tagsistant_write env path buf offset fi w = run_reader env True (write_body buf offset fi) path w"

subsection \<open>read\<close>

text \<open>\<^verbatim>\<open>memcpy()\<close> of a whole string into the buffer of the request.\<close>

definition copy_out :: "nat \<Rightarrow> string \<Rightarrow> string run" where
  "copy_out bufsize s = (if length s \<le> bufsize then Done s else Segv)"

definition read_object :: "nat \<Rightarrow> nat \<Rightarrow> file_info \<Rightarrow> 'fs env \<Rightarrow> querytree \<Rightarrow> 'fs world \<Rightarrow> (exit_status \<times> file_info \<times> string) \<times> 'fs world" where
  "read_object bufsize offset fi env q w =
     (let fh = fi_fh fi;
          r = (if fh \<noteq> 0 then fd_pread env fh bufsize offset (fs w) else Inr '''')
      in case (fh \<noteq> 0, r) of
           (True, Inr s) \<Rightarrow> ((Exit_ok, fi, s), w)
         | _ \<Rightarrow>
             let fs2 = fd_close env fh (fs w);
                 (opened, fs3) = os_open (sys env) (q_full_archive_path q) (fi_flags fi) fs2;
                 fh2 = fd_of opened
             in if fh2 = 0 then ((Exit_failed (case r of Inl e \<Rightarrow> Some e | Inr _ \<Rightarrow> None), fi\<lparr>fi_fh := 0\<rparr>, ''''), w\<lparr>fs := fs3\<rparr>)
                else (case fd_pread env fh2 bufsize offset fs3 of
                        Inl e \<Rightarrow> (Exit_failed (Some e), fi\<lparr>fi_fh := fh2\<rparr>, '''')
                      | Inr s \<Rightarrow> (Exit_ok, fi\<lparr>fi_fh := fh2\<rparr>, s), w\<lparr>fs := fs3\<rparr>))"

text \<open>The list of the tags of an object, as the file with the suffix \<^verbatim>\<open>.tags\<close> shows it.\<close>

definition tagsistant_read_file_tags :: "tag_row \<Rightarrow> string" where
  "tagsistant_read_file_tags r =
     (if is_triple_token (tr_name r) then tr_name r @ tr_key r @ ''='' @ tr_value r @ newline else tr_name r @ newline)"

definition tags_text :: "'fs env \<Rightarrow> tagsistant_inode \<Rightarrow> database \<Rightarrow> string" where
  "tags_text env i d =
     concat (map tagsistant_read_file_tags (order_rows env (filter (\<lambda>r. (sint i, tr_id r) \<in> set (tagging d)) (tags d))))"

text \<open>
  As many bytes as the request has room for are copied, the final NUL among them if there is
  room for it: if not, \<^verbatim>\<open>strlen(buf)\<close> reads past the end of the buffer. The offset plays no part.
\<close>

definition read_tags_body :: "nat \<Rightarrow> file_info \<Rightarrow> (file_info \<times> string, 'fs) reading" where
  "read_tags_body bufsize fi env q w =
     (if q_inode q = 0 then Done ((abort_operation EFAULT, fi, ''''), q, w)
      else let text = tags_text env (q_inode q) (db w)
           in if length text < bufsize then Done ((Exit_ok, fi, text), q, w) else Segv)"

subsection \<open>read: the files under stats/\<close>

definition TAGSISTANT_STATS_BUFFER :: nat where
  "TAGSISTANT_STATS_BUFFER = 2048"

text \<open>The command line options that are only shown here.\<close>

record configuration =
  cf_dboptions :: gchars
  cf_foreground :: bool
  cf_singlethread :: bool
  cf_readonly :: bool
  cf_debug_flags :: gchars
  cf_dbg :: "char \<Rightarrow> bool"

definition conf_line :: "string \<Rightarrow> string \<Rightarrow> string" where
  "conf_line label value = label @ value @ newline"

definition conf_flag :: "bool \<Rightarrow> string" where
  "conf_flag b = (if b then ''1'' else ''0'')"

definition conf_debug :: "configuration \<Rightarrow> char \<Rightarrow> string \<Rightarrow> string" where
  "conf_debug c f label = conf_line (''                     ['' @ [if cf_dbg c f then CHR ''x'' else CHR '' ''] @ ''] '') label"

definition stats_configuration_text :: "'fs env \<Rightarrow> configuration \<Rightarrow> string" where
  "stats_configuration_text env c = concat [
     newline, '' --> Command line options:'', newline, newline,
     conf_line ''         mountpoint: '' (mountpoint env),
     conf_line ''    repository path: '' (repository env),
     conf_line ''   database options: '' (printf_s (cf_dboptions c)),
     conf_line ''        tags suffix: '' (tags_suffix env @ '' (append it to object names to list their tags)''),
     conf_line ''  run in foreground: '' (conf_flag (cf_foreground c)),
     conf_line ''    single threaded: '' (conf_flag (cf_singlethread c)),
     conf_line ''    mount read-only: '' (conf_flag (cf_readonly c)),
     conf_line ''              debug: '' (case cf_debug_flags c of None \<Rightarrow> ''-'' | Some s \<Rightarrow> s),
     conf_debug c (CHR ''b'') ''boot'',
     conf_debug c (CHR ''c'') ''cache'',
     conf_debug c (CHR ''f'') ''file tree (readdir)'',
     conf_debug c (CHR ''F'') ''FUSE operations (open, read, write, symlink, ...)'',
     conf_debug c (CHR ''l'') ''low level'',
     conf_debug c (CHR ''p'') ''plugin'',
     conf_debug c (CHR ''q'') ''query parsing'',
     conf_debug c (CHR ''r'') ''reasoning'',
     conf_debug c (CHR ''s'') ''SQL queries'',
     conf_debug c (CHR ''2'') ''deduplication'',
     newline, '' --> Compile flags:'', newline, newline,
     conf_line ''    TAGSISTANT_ENABLE_QUERYTREE_CACHE: '' (''0''),
     conf_line ''       TAGSISTANT_ENABLE_TAG_ID_CACHE: '' (''1''),
     conf_line ''      TAGSISTANT_ENABLE_AND_SET_CACHE: '' (''0''),
     conf_line ''     TAGSISTANT_ENABLE_REASONER_CACHE: '' (''0''),
     conf_line ''        TAGSISTANT_ENABLE_AUTOTAGGING: '' (''1''),
     conf_line ''           TAGSISTANT_VERBOSE_LOGGING: '' (''0''),
     conf_line ''           TAGSISTANT_QUERY_DELIMITER: '' (''@ (to avoid reasoning use: @@)''),
     conf_line ''          TAGSISTANT_ANDSET_DELIMITER: '' (''+''),
     conf_line ''           TAGSISTANT_INODE_DELIMITER: '' ([CHR 0x27] @ ''___'' @ [CHR 0x27]),
     conf_line ''           TAGSISTANT_TAG_GROUP_BEGIN: '' (''{''),
     conf_line ''             TAGSISTANT_TAG_GROUP_END: '' (''}''),
     conf_line ''  TAGSISTANT_DEFAULT_TRIPLE_TAG_REGEX: '' ('':$''),
     conf_line ''       TAGSISTANT_DEFAULT_TAGS_SUFFIX: '' (''.tags''),
     newline]"

definition tagsistant_read_stats_configuration :: "'fs env \<Rightarrow> configuration \<Rightarrow> string" where
  "tagsistant_read_stats_configuration env c = take (TAGSISTANT_STATS_BUFFER - 1) (stats_configuration_text env c)"

definition count_rows :: "dbi_conn \<Rightarrow> 'a list \<Rightarrow> 32 word \<Rightarrow> string" where
  "count_rows conn rows init = fmt_d (if conn then word_of_nat (length rows) else init)"

definition stats_text :: "string \<Rightarrow> configuration \<Rightarrow> 'fs env \<Rightarrow> querytree \<Rightarrow> 'fs world \<Rightarrow> string" where
  "stats_text path c env q w =
     (if ends_dollar ''/connections'' path then ''# of MySQL open connections: '' @ dec (connections w) @ newline
      else if ends_dollar ''/configuration'' path then tagsistant_read_stats_configuration env c
      else if ends_dollar ''/objects'' path then ''# of objects: '' @ count_rows (q_dbi q) (objects (db w)) 0 @ newline
      else if ends_dollar ''/tags'' path then ''# of tags: '' @ count_rows (q_dbi q) (tags (db w)) 2 @ newline
      else if ends_dollar ''/relations'' path then ''# of relations: '' @ count_rows (q_dbi q) (relations (db w)) 0 @ newline
      else '''')"

definition stats_slice :: "nat \<Rightarrow> nat \<Rightarrow> string \<Rightarrow> string" where
  "stats_slice bufsize offset text =
     (if offset \<le> length text
      then let available = length text - offset;
               real_size = (if available < bufsize then available else bufsize)
           in take real_size (drop offset text)
      else '''')"

subsection \<open>read: the operation\<close>

definition read_body :: "string \<Rightarrow> nat \<Rightarrow> nat \<Rightarrow> file_info \<Rightarrow> configuration \<Rightarrow> (file_info \<times> string, 'fs) reading" where
  "read_body path bufsize offset fi c env q w =
     (if q_type q = QTYPE_MALFORMED then Done ((abort_operation ENOENT, fi, ''''), q, w)
      else if is_error_file q path
      then run_bind (copy_out bufsize (printf_s (q_error_message q))) (\<lambda>s. Done ((Exit_ok, fi, s), q, w))
      else if q_points_to_object q then
        (if q_full_archive_path q = None then Done ((abort_operation EFAULT, fi, ''''), q, w)
         else let (r, w1) = read_object bufsize offset fi env q w in Done (r, q, w1))
      else if q_type q = QTYPE_ALIAS then
        (case tagsistant_sql_alias_get (q_dbi q) (q_alias q) w of
           None \<Rightarrow> Done ((Exit_ok, fi, ''''), q, w)
         | Some v \<Rightarrow> run_bind (copy_out bufsize v) (\<lambda>s. Done ((Exit_ok, fi, s), q, w)))
      else if q_type q = QTYPE_STATS then Done ((Exit_ok, fi, stats_slice bufsize offset (stats_text path c env q w)), q, w)
      else Done ((abort_operation EINVAL, fi, ''''), q, w))"

text \<open>
  On the list of the tags of an object the query tree is destroyed and made again from the
  path without the suffix.
\<close>

definition reads_tags :: "'fs env \<Rightarrow> string \<Rightarrow> querytree \<Rightarrow> bool" where
  "reads_tags env path q \<longleftrightarrow> q_type q \<noteq> QTYPE_MALFORMED \<and> \<not> is_error_file q path \<and> q_points_to_object q \<and> tagsistant_is_tags_list_file env q"

definition tagsistant_read ::
    "'fs env \<Rightarrow> string \<Rightarrow> nat \<Rightarrow> nat \<Rightarrow> file_info \<Rightarrow> configuration \<Rightarrow> 'fs world \<Rightarrow> ((errno option \<times> file_info \<times> string) \<times> 'fs world) run" where
  "tagsistant_read env path bufsize offset fi c w =
     run_bind (tagsistant_querytree_new env path False True True w)
       (\<lambda>(q, w1).
          if reads_tags env path q
          then run_reader env True (read_tags_body bufsize fi) (tagsistant_string_tags_list_suffix env q)
                 (tagsistant_querytree_destroy env q False w1)
          else run_bind (read_body path bufsize offset fi c env q w1) (leave_reader env))"

subsection \<open>Contracts\<close>

lemma alias_set_frame [simp]: "body_frame q w q (tagsistant_sql_alias_set c a v w)"
  unfolding tagsistant_sql_alias_set_def by (rule sql_exec_frame) (simp add: db_ok_statements)

interpretation truncate: operation "truncate_body len" for len
  by unfold_locales (auto simp: truncate_body_def dest: call_on_object_frame split: if_splits)

lemma open_object_frame:
  assumes "open_object fi env q w = Done ((s, x), q', w')"
  shows "body_frame q w q' w'"
proof -
  obtain r fs1 where r: "os_open (sys env) (q_full_archive_path q) (fi_flags fi) (fs w) = (r, fs1)" by (metis surj_pair)
  let ?w1 = "w\<lparr>fs := fs1\<rparr>"
  have inv: "body_frame q1 ?w1 q1 (tagsistant_invalidate_object_checksum i c ?w1)" for q1 i c
    unfolding tagsistant_invalidate_object_checksum_def by (rule sql_exec_frame) (simp add: db_ok_update_object)
  show ?thesis
  proof (cases "tagsistant_is_tags_list_file env q \<or> q_full_archive_path q = None \<or> (\<exists>e. r = Inl e)")
    case True
    then show ?thesis using assms by (auto simp: open_object_def Let_def r split_beta split: if_splits)
  next
    case False
    then obtain h p where h: "r = Inr h" and p: "q_full_archive_path q = Some p" by (cases r) auto
    have o: "os_open (sys env) (Some p) (fi_flags fi) (fs w) = (Inr h, fs1)" using r by (simp add: h p)
    have u: "run_bind (tagsistant_querytree_check_tagging_consistency env q ?w1)
        (\<lambda>(_, q1). if q_is_taggable q1
          then if opened_for_writing (fi_flags fi)
               then Done ((Exit_ok, fi\<lparr>fi_fh := int h\<rparr>), q1, tagsistant_invalidate_object_checksum (q_inode q1) (q_dbi q1) ?w1)
               else Done ((Exit_ok, fi\<lparr>fi_fh := int h, fi_keep_cache := True\<rparr>), q1, ?w1)
          else Done ((Exit_ok, fi\<lparr>fi_fh := int h\<rparr>), q1, ?w1)) = Done ((s, x), q', w')"
      using assms False by (simp add: open_object_def o p Let_def)
    then obtain b q1 where c: "tagsistant_querytree_check_tagging_consistency env q ?w1 = Done (b, q1)"
      by (cases "tagsistant_querytree_check_tagging_consistency env q ?w1") auto
    have "body_frame q ?w1 q1 ?w1" by (rule quiet_body_frame[OF quiet_refl check_consistency_handle[OF c]])
    moreover have "body_frame q1 ?w1 q' w'" using u inv[of q1] by (auto simp: c split: if_splits)
    ultimately have "body_frame q ?w1 q' w'" by (rule body_frame_trans)
    then show ?thesis by (simp add: body_frame_def)
  qed
qed

interpretation open_file: reader "open_body path fi" for path fi
  by unfold_locales (auto simp: open_body_def Let_def split_beta split: if_splits dest: open_object_frame)

interpretation flush: pure_reader "flush_body fi" for fi
  by unfold_locales (auto simp: flush_body_def Let_def split: if_splits)

lemma release_body_facts:
  assumes "release_body fi env q w = Done ((s, x), q', w')"
  shows "body_frame q w q' w' \<and> db w' = db w"
  using assms by (auto simp: release_body_def run_bind_Done_iff quiet_body_frame split: if_splits dest!: check_consistency_handle)

interpretation release: pure_reader "release_body fi" for fi
  by unfold_locales (simp_all add: release_body_facts)

lemma write_object_frame: "body_frame q w q (snd (write_object buf offset fi env q w))"
  by (simp add: write_object_def Let_def split_beta split: bool.splits sum.splits)

lemma write_body_frame:
  assumes "write_body buf offset fi env q w = Done (r, q', w')"
  shows "body_frame q w q' w'"
  using assms write_object_frame[of q w buf offset fi env] by (auto simp: write_body_def Let_def split_beta split: if_splits)

interpretation write_file: reader "write_body buf offset fi" for buf offset fi
  by unfold_locales (rule write_body_frame)

lemma read_object_frame: "body_frame q w q (snd (read_object n offset fi env q w)) \<and> db (snd (read_object n offset fi env q w)) = db w"
  by (simp add: read_object_def Let_def split_beta split: bool.splits sum.splits)

interpretation read_tags: pure_reader "read_tags_body n fi" for n fi
  by unfold_locales (auto simp: read_tags_body_def Let_def split: if_splits)

lemma read_body_facts:
  assumes "read_body path n offset fi c env q w = Done ((s, x), q', w')"
  shows "body_frame q w q' w' \<and> db w' = db w"
  using assms read_object_frame[of q w n offset fi env]
  by (auto simp: read_body_def Let_def split_beta run_bind_Done_iff split: if_splits option.splits)

interpretation read_file: pure_reader "read_body path n offset fi c" for path n offset fi c
  by unfold_locales (simp_all add: read_body_facts)

subsection \<open>Aliases as files\<close>

definition alias_tree :: "string list \<Rightarrow> string \<Rightarrow> querytree" where
  "alias_tree ts n = (new_querytree (path_of ts))\<lparr>q_dbi := True, q_type := QTYPE_ALIAS, q_alias := Some n\<rparr>"

lemma alias_tree_simps [simp]:
  "q_dbi (alias_tree ts n)" "q_type (alias_tree ts n) = QTYPE_ALIAS" "q_alias (alias_tree ts n) = Some n"
  "q_error_message (alias_tree ts n) = None" "\<not> q_points_to_object (alias_tree ts n)"
  "\<not> q_transaction_started (alias_tree ts n)" "\<not> q_schedule_for_unlink (alias_tree ts n)"
  by (simp_all add: alias_tree_def new_querytree_def)

lemma alias_tree_new:
  assumes "components_ok [''alias'', n]"
  shows "tagsistant_querytree_new env (path_of [''alias'', n]) False True dr w
    = Done (alias_tree [''alias'', n] n, tagsistant_db_connection False w)"
  unfolding querytree_new_eval[OF assms]
  by (simp add: Let_def guess_type_def parse_tokens_def tagsistant_querytree_parse_alias_def resolve_object_def
      points_to_object_def qtree_return_def alias_tree_def new_querytree_def del: path_of_simps)

lemma destroy_alias_tree [simp]:
  "tagsistant_querytree_destroy env (alias_tree ts n) c w = tagsistant_db_connection_release False w"
  by (simp add: tagsistant_querytree_destroy_def)

lemma release_db [simp]: "db (tagsistant_db_connection_release b w) = db w"
  by (simp add: tagsistant_db_connection_release_def log_lock_def)

lemma length_alias_value: "length (alias_value buf) \<le> min (length buf) 1023"
  by (auto simp: alias_value_def Let_def TAGSISTANT_ALIAS_MAX_LENGTH_def min_def)

lemma alias_value_clean:
  assumes "CHR 0x0A \<notin> set buf" "CHR 0x0D \<notin> set buf" "\<not> strstr ''//'' buf" "length buf \<le> 1023"
  shows "alias_value buf = buf"
proof -
  have "replace_last c d buf = buf" if "c \<notin> set buf" for c d
  proof -
    have "dropWhile (\<lambda>x. x \<noteq> c) (rev buf) = []" using that by auto
    then show ?thesis by (simp only: replace_last_def list.case)
  qed
  then show ?thesis using assms by (simp add: alias_value_def replace_literal_id TAGSISTANT_ALIAS_MAX_LENGTH_def)
qed


definition sample_fi :: file_info where
  "sample_fi = \<lparr>fi_flags = 0, fi_fh = 0, fi_keep_cache = False\<rparr>"

definition sample_conf :: configuration where
  "sample_conf = \<lparr>cf_dboptions = None, cf_foreground = False, cf_singlethread = False, cf_readonly = False,
     cf_debug_flags = None, cf_dbg = (\<lambda>_. False)\<rparr>"

definition one_alias_db :: database where
  "one_alias_db = insert_alias ''x'' empty_db"


subsection \<open>Statistics and tags as files\<close>

lemma stats_slice_take: "stats_slice n offset text = take n (drop offset text)"
  by (auto simp: stats_slice_def Let_def)

text \<open>A statistics file read in consecutive pieces gives its text, cut off after the last piece, and
  the text of the configuration fits the buffer.\<close>

theorem stats_pieces:
  assumes "0 < n"
  shows "concat (map (\<lambda>k. stats_slice n (k * n) text) [0..<m]) = take (m * n) text
    \<and> length (tagsistant_read_stats_configuration env c) < TAGSISTANT_STATS_BUFFER"
proof -
  have "concat (map (\<lambda>k. stats_slice n (k * n) text) [0..<m]) = take (m * n) text"
  proof (induction m)
    case (Suc m)
    have "take (Suc m * n) text = take (m * n) text @ take n (drop (m * n) text)"
      by (subst mult_Suc, subst add.commute, rule take_add)
    with Suc show ?case by (simp add: stats_slice_take)
  qed simp
  then show ?thesis by (simp add: tagsistant_read_stats_configuration_def TAGSISTANT_STATS_BUFFER_def)
qed

theorem stats_pieces_witness:
  "concat (map (\<lambda>k. stats_slice 4 (k * 4) ''# of tags: 3'') [0..<3]) = ''# of tags: 3''"
  using stats_pieces[of 4 "''# of tags: 3''" 3 sample_env sample_conf] by simp

text \<open>The file that lists the tags of an object has a line for each tag the object has and no
  other, a flat tag as its name, a triple one as namespace, key and value. A request with no
  room for the text and a final NUL makes \<^verbatim>\<open>strlen()\<close> run past the end of the buffer.\<close>

theorem tags_file_lists_tags:
  assumes "row_order env" "q_inode q \<noteq> 0"
  shows "\<exists>rows text. set rows = {r \<in> set (tags (db w)). tr_id r \<in> tags_of (sint (q_inode q)) (db w)}
    \<and> length rows = length (filter (\<lambda>r. tr_id r \<in> tags_of (sint (q_inode q)) (db w)) (tags (db w)))
    \<and> text = concat (map tagsistant_read_file_tags rows)
    \<and> read_tags_body bufsize fi env q w = (if length text < bufsize then Done ((Exit_ok, fi, text), q, w) else Segv)"
proof (intro exI conjI)
  let ?f = "filter (\<lambda>r. (sint (q_inode q), tr_id r) \<in> set (tagging (db w))) (tags (db w))"
  show "set (order_rows env ?f) = {r \<in> set (tags (db w)). tr_id r \<in> tags_of (sint (q_inode q)) (db w)}"
    "length (order_rows env ?f) = length (filter (\<lambda>r. tr_id r \<in> tags_of (sint (q_inode q)) (db w)) (tags (db w)))"
    using assms(1) by (simp_all add: row_order_def tags_of_def)
  show "read_tags_body bufsize fi env q w = (if length (concat (map tagsistant_read_file_tags (order_rows env ?f))) < bufsize
      then Done ((Exit_ok, fi, concat (map tagsistant_read_file_tags (order_rows env ?f))), q, w) else Segv)"
    using assms(2) by (simp add: read_tags_body_def tags_text_def Let_def)
qed simp

definition one_tagged :: database where
  "one_tagged = insert_tagging 1 1 (insert_tag ''a'' '''' '''' empty_db)"

theorem tags_file_lists_tags_witness:
  "\<exists>rows text. set rows = {\<lparr>tr_id = 1, tr_name = ''a'', tr_key = '''', tr_value = ''''\<rparr>}
    \<and> text = concat (map tagsistant_read_file_tags rows)
    \<and> read_tags_body 100 sample_fi sample_env ((new_querytree ''/'')\<lparr>q_inode := 1\<rparr>) (sample_world one_tagged [])
      = (if length text < 100 then Done ((Exit_ok, sample_fi, text), (new_querytree ''/'')\<lparr>q_inode := 1\<rparr>, sample_world one_tagged []) else Segv)"
proof -
  have t: "{r \<in> set (tags one_tagged). tr_id r \<in> tags_of 1 one_tagged} = {\<lparr>tr_id = 1, tr_name = ''a'', tr_key = '''', tr_value = ''''\<rparr>}"
    by (auto simp: one_tagged_def insert_tagging_def insert_tag_def empty_db_def tags_of_def)
  have q: "q_inode ((new_querytree ''/'')\<lparr>q_inode := 1\<rparr>) = 1" "(1 :: 32 word) \<noteq> 0" "sint (1 :: 32 word) = 1" by simp_all
  obtain rows "text" where r: "set rows = {\<lparr>tr_id = 1, tr_name = ''a'', tr_key = '''', tr_value = ''''\<rparr>}"
      "text = concat (map tagsistant_read_file_tags rows)"
      "read_tags_body 100 sample_fi sample_env ((new_querytree ''/'')\<lparr>q_inode := 1\<rparr>) (sample_world one_tagged [])
        = (if length text < 100 then Done ((Exit_ok, sample_fi, text), (new_querytree ''/'')\<lparr>q_inode := 1\<rparr>, sample_world one_tagged []) else Segv)"
    using tags_file_lists_tags[of sample_env "(new_querytree ''/'')\<lparr>q_inode := 1\<rparr>" "sample_world one_tagged []" 100 sample_fi,
        unfolded q(1,3) sample_world_simps t, OF row_order_sample q(2)] by (elim exE conjE) (rule that)
  show ?thesis by (rule exI[of _ rows], rule exI[of _ "text"], rule conjI[OF r(1) conjI[OF r(2,3)]])
qed

end
