(* ===== verification/Statement.thy ===== *)
theory Statement
  imports Glib_Strings
begin

section \<open>Building SQL statements\<close>

text \<open>
  The string part of \<^verbatim>\<open>tagsistant_real_query()\<close> (\<^verbatim>\<open>src/src/sql.c\<close>): every quote of
  the format becomes \<^verbatim>\<open><><>\<close>, the arguments are printed into it, a backslash goes before
  every double quote, and \<^verbatim>\<open><><>\<close> becomes a double quote. The theorems say for which
  arguments the statement is the intended one, and that others can close a string literal.
\<close>

datatype sql_arg = Str gchars | Num tagsistant_inode | Lit nat

definition print_arg :: "sql_arg \<Rightarrow> string" where
  "print_arg a = (case a of Str s \<Rightarrow> printf_s s | Num w \<Rightarrow> fmt_d w | Lit n \<Rightarrow> dec n)"

definition is_quote :: "char \<Rightarrow> bool" where
  "is_quote c \<longleftrightarrow> c = CHR 0x22 \<or> c = CHR 0x27"

text \<open>\<^verbatim>\<open>RX1\<close>: \<^verbatim>\<open>["']\<close> replaced by \<^verbatim>\<open><><>\<close> in the format.\<close>

definition escape_format :: "string \<Rightarrow> string" where
  "escape_format f = concat (map (\<lambda>c. if is_quote c then ''<><>'' else [c]) f)"

text \<open>\<^verbatim>\<open>g_strdup_vprintf\<close> for the conversions the formats use, \<^verbatim>\<open>%s\<close> and \<^verbatim>\<open>%d\<close>.\<close>

fun vprintf :: "string \<Rightarrow> sql_arg list \<Rightarrow> string" where
  "vprintf (c # d # f) args =
     (if c = CHR ''%'' \<and> (d = CHR ''s'' \<or> d = CHR ''d'')
      then (case args of [] \<Rightarrow> vprintf f [] | a # as \<Rightarrow> print_arg a @ vprintf f as)
      else c # vprintf (d # f) args)"
| "vprintf f args = f"

text \<open>\<^verbatim>\<open>RX2\<close>: a backslash before every double quote of the statement.\<close>

definition escape_quotes :: "string \<Rightarrow> string" where
  "escape_quotes s = concat (map (\<lambda>c. if c = CHR 0x22 then [CHR 0x5C, CHR 0x22] else [c]) s)"

definition build_statement :: "string \<Rightarrow> sql_arg list \<Rightarrow> string" where
  "build_statement format args =
     replace_literal ''<><>'' [CHR 0x22] (escape_quotes (vprintf (escape_format format) args))"

subsection \<open>The intended statement\<close>

text \<open>The format with its quotes as double quotes and each argument in its place, verbatim.\<close>

definition double_quotes :: "string \<Rightarrow> string" where
  "double_quotes f = map (\<lambda>c. if is_quote c then CHR 0x22 else c) f"

definition intended_statement :: "string \<Rightarrow> sql_arg list \<Rightarrow> string" where
  "intended_statement format args = vprintf (double_quotes format) args"

definition clean :: "string \<Rightarrow> bool" where
  "clean s \<longleftrightarrow> CHR ''<'' \<notin> set s \<and> CHR 0x22 \<notin> set s"

lemma replace_literal_skip:
  "CHR ''<'' \<notin> set u \<Longrightarrow> replace_literal ''<><>'' r (u @ v) = u @ replace_literal ''<><>'' r v"
  by (induction u) (auto simp: prefix_Cons)

lemma replace_literal_mark:
  "replace_literal ''<><>'' r (''<><>'' @ v) = r @ replace_literal ''<><>'' r v"
  by (simp add: prefix_Cons)

lemma escape_quotes_append: "escape_quotes (u @ v) = escape_quotes u @ escape_quotes v"
  by (simp add: escape_quotes_def)

lemma escape_quotes_id: "CHR 0x22 \<notin> set u \<Longrightarrow> escape_quotes u = u"
  by (induction u) (auto simp: escape_quotes_def)

lemma vprintf_skip:
  "CHR ''%'' \<notin> set u \<Longrightarrow> vprintf (u @ f) args = u @ vprintf f args"
proof (induction u)
  case (Cons c u)
  then have "vprintf (c # u @ f) args = c # vprintf (u @ f) args"
    by (cases "u @ f") auto
  with Cons show ?case by simp
qed simp

text \<open>One character of the format that starts no conversion.\<close>

lemma vprintf_plain:
  "\<not> (c = CHR ''%'' \<and> f \<noteq> [] \<and> (hd f = CHR ''s'' \<or> hd f = CHR ''d''))
   \<Longrightarrow> vprintf (c # f) args = c # vprintf f args"
  by (cases f) auto

lemma escape_format_simps [simp]:
  "escape_format [] = []"
  "escape_format (c # f) = (if is_quote c then ''<><>'' else [c]) @ escape_format f"
  by (simp_all add: escape_format_def)

lemma escape_quotes_simps [simp]:
  "escape_quotes [] = []"
  "escape_quotes (c # s) = (if c = CHR 0x22 then [CHR 0x5C, CHR 0x22] else [c]) @ escape_quotes s"
  by (simp_all add: escape_quotes_def)

lemma double_quotes_simps [simp]:
  "double_quotes [] = []"
  "double_quotes (c # f) = (if is_quote c then CHR 0x22 else c) # double_quotes f"
  by (simp_all add: double_quotes_def)

lemma not_is_quote [simp]: "\<not> is_quote (CHR ''%'')" "\<not> is_quote (CHR ''s'')" "\<not> is_quote (CHR ''d'')"
  by (simp_all add: is_quote_def)

definition starts_conversion :: "char \<Rightarrow> string \<Rightarrow> bool" where
  "starts_conversion c f \<longleftrightarrow> c = CHR ''%'' \<and> f \<noteq> [] \<and> (hd f = CHR ''s'' \<or> hd f = CHR ''d'')"

definition emit :: "string \<Rightarrow> sql_arg list \<Rightarrow> string" where
  "emit f args = replace_literal ''<><>'' [CHR 0x22] (escape_quotes (vprintf (escape_format f) args))"

lemma emit_conversion:
  assumes "d = CHR ''s'' \<or> d = CHR ''d''"
  shows "emit (CHR ''%'' # d # f) [] = emit f []"
    and "clean (print_arg a) \<Longrightarrow> emit (CHR ''%'' # d # f) (a # as) = print_arg a @ emit f as"
  using assms
  by (auto simp: emit_def escape_quotes_append escape_quotes_id clean_def replace_literal_skip)

lemma emit_quote:
  assumes "is_quote c"
  shows "emit (c # f) args = CHR 0x22 # emit f args"
proof -
  have "escape_format (c # f) = ''<><>'' @ escape_format f" using assms by simp
  then have "vprintf (escape_format (c # f)) args = ''<><>'' @ vprintf (escape_format f) args"
    using vprintf_skip [of "''<><>''"] by (simp del: append_Cons append_Nil add: append_Cons [symmetric])
  then show ?thesis by (simp add: emit_def prefix_Cons)
qed

lemma starts_conversion_escape: "starts_conversion c (escape_format f) \<Longrightarrow> starts_conversion c f"
  by (cases f) (auto simp: starts_conversion_def split: if_splits)

lemma starts_conversion_double: "starts_conversion c (double_quotes f) \<longleftrightarrow> starts_conversion c f"
  by (cases f) (auto simp: starts_conversion_def is_quote_def)

lemma emit_char:
  assumes "\<not> is_quote c" "c \<noteq> CHR ''<''" "\<not> starts_conversion c f"
  shows "emit (c # f) args = c # emit f args"
proof -
  have "\<not> starts_conversion c (escape_format f)" using assms(3) starts_conversion_escape by blast
  then have "vprintf (escape_format (c # f)) args = c # vprintf (escape_format f) args"
    using assms(1) by (simp add: vprintf_plain starts_conversion_def)
  moreover have "c \<noteq> CHR 0x22" using assms(1) by (simp add: is_quote_def)
  ultimately show ?thesis using assms(2) by (simp add: emit_def prefix_Cons)
qed

lemma intended_char:
  "\<not> starts_conversion c f \<Longrightarrow>
     vprintf (double_quotes (c # f)) args = (if is_quote c then CHR 0x22 else c) # vprintf (double_quotes f) args"
proof -
  assume "\<not> starts_conversion c f"
  then have "\<not> starts_conversion (if is_quote c then CHR 0x22 else c) (double_quotes f)"
    by (auto simp: starts_conversion_double) (simp add: starts_conversion_def)
  then show ?thesis by (simp add: vprintf_plain starts_conversion_def)
qed

lemma emit_intended:
  assumes "CHR ''<'' \<notin> set f" "\<forall>a \<in> set args. clean (print_arg a)"
  shows "emit f args = vprintf (double_quotes f) args"
  using assms
proof (induction f args rule: vprintf.induct)
  case (1 c d f args)
  show ?case
  proof (cases "starts_conversion c (d # f)")
    case True
    then have c: "c = CHR ''%''" and d: "d = CHR ''s'' \<or> d = CHR ''d''" by (auto simp: starts_conversion_def)
    then show ?thesis using 1 by (cases args) (auto simp: emit_conversion)
  next
    case False
    then have nc: "\<not> (c = CHR ''%'' \<and> (d = CHR ''s'' \<or> d = CHR ''d''))" by (auto simp: starts_conversion_def)
    have IH: "emit (d # f) args = vprintf (double_quotes (d # f)) args"
      by (rule "1.IH"(3)[OF nc]) (use "1.prems" in auto)
    show ?thesis
      using IH intended_char[OF False, of args] emit_quote[of c "d # f" args]
        emit_char[OF _ _ False, of args] "1.prems"(1) by (cases "is_quote c") auto
  qed
qed (use emit_quote[of _ "[]"] emit_char[of _ "[]"] in \<open>auto simp: emit_def starts_conversion_def\<close>)

text \<open>An argument without \<^verbatim>\<open><\<close> and without double quotes reaches the SQL engine
  verbatim, between the quotes of the format, whatever else it contains (single quotes
  included): the statement built is the intended one.\<close>

theorem clean_arguments_verbatim:
  assumes "CHR ''<'' \<notin> set format" "\<forall>a \<in> set args. clean (print_arg a)"
  shows "build_statement format args = intended_statement format args"
  unfolding build_statement_def intended_statement_def using emit_intended [OF assms] by (simp add: emit_def)

theorem clean_arguments_verbatim_witness:
  "build_statement ''delete from aliases where alias = '%s' '' [Str (Some ''it's'')]
     = ''delete from aliases where alias = '' @ [CHR 0x22] @ ''it's'' @ [CHR 0x22] @ '' ''"
  using clean_arguments_verbatim [of "''delete from aliases where alias = '%s' ''" "[Str (Some ''it's'')]"]
  by (simp add: intended_statement_def double_quotes_def is_quote_def print_arg_def clean_def)

text \<open>The placeholder the escaping uses is not protected: for every name, an argument that
  continues with the placeholder closes the string literal of the statement, so the text
  after it is read as SQL.\<close>

theorem placeholder_closes_literal:
  assumes "clean name"
  shows "build_statement ''delete from aliases where alias = '%s' '' [Str (Some (name @ ''<><> or 1 --''))]
     = ''delete from aliases where alias = '' @ [CHR 0x22] @ name @ [CHR 0x22] @ '' or 1 --'' @ [CHR 0x22] @ '' ''"
proof -
  have lt: "CHR ''<'' \<notin> set name" and q: "escape_quotes name = name"
    using assms by (simp_all add: clean_def escape_quotes_id)
  show ?thesis
    unfolding build_statement_def
    using lt by (simp add: is_quote_def print_arg_def escape_quotes_append q prefix_Cons replace_literal_skip)
qed

theorem placeholder_closes_literal_witness:
  "build_statement ''delete from aliases where alias = '%s' '' [Str (Some ''a<><> or 1 --'')]
     = ''delete from aliases where alias = '' @ [CHR 0x22] @ ''a'' @ [CHR 0x22] @ '' or 1 --'' @ [CHR 0x22] @ '' ''"
  using placeholder_closes_literal [of "''a''"] by (simp add: clean_def)

end
