(* ===== verification/Fuse_Readdir.thy ===== *)
theory Fuse_Readdir
  imports Fuse_Attributes Statement
begin

section \<open>readdir\<close>

text \<open>
  \<^verbatim>\<open>src/src/fuse_operations/readdir.c\<close>: the listing of each kind of directory. The FUSE
  filler is called with offset 0, so that the buffer takes every entry: a listing is the list of
  the names given to it, in order. The allocation of the context structure does not fail, so the
  paths that return \<^verbatim>\<open>ENOMEM\<close> and \<^verbatim>\<open>EBADF\<close> are not there. The table of files
  a complete query selects, \<^verbatim>\<open>tagsistant_RDS_new()\<close>, is code the repository does not have:
  it is the field \<open>rds_new\<close> of the environment.
\<close>

subsection \<open>Entries\<close>

text \<open>
  The SQL callback: an empty name and the name of a tag of the last and-set are not listed, and
  an alias comes with its identifier. What it returns does not stop the rows that follow.
\<close>

definition listed_before :: "querytree \<Rightarrow> string \<Rightarrow> bool" where
  "listed_before q dir \<longleftrightarrow> q_tree q \<noteq> [] \<and> (\<exists>n \<in> set (last (q_tree q)). an_tag (and_data n) = Some dir)"

definition tagsistant_add_entry_to_dir :: "querytree \<Rightarrow> bool \<Rightarrow> string \<Rightarrow> string list" where
  "tagsistant_add_entry_to_dir q is_alias dir =
     (if dir = '''' then [] else if listed_before q dir then []
      else if \<not> is_alias then [dir] else [''='' @ dir])"

text \<open>A query that selects distinct strings, with that callback.\<close>

definition select_distinct :: "'fs env \<Rightarrow> querytree \<Rightarrow> bool \<Rightarrow> string list \<Rightarrow> string list" where
  "select_distinct env q is_alias column =
     (if q_dbi q then concat (map (tagsistant_add_entry_to_dir q is_alias) (order_names env (remdups column))) else [])"

text \<open>The files of one name: one alone is shown by its name, several are told apart by their inodes.\<close>

definition name_with_inode :: "tagsistant_inode \<times> string \<Rightarrow> string" where
  "name_with_inode fh = fmt_d (fst fh) @ ''___'' @ snd fh"

definition tagsistant_readdir_on_store_filler :: "querytree \<Rightarrow> (tagsistant_inode \<times> string) list \<Rightarrow> string list" where
  "tagsistant_readdir_on_store_filler q fh_list =
     (case fh_list of [] \<Rightarrow> []
      | [fh] \<Rightarrow> [if q_force_inode_in_filenames q then name_with_inode fh else snd fh]
      | _ \<Rightarrow> map name_with_inode fh_list)"

subsection \<open>store/\<close>

definition tagsistant_do_add_operators :: "querytree \<Rightarrow> bool" where
  "tagsistant_do_add_operators q \<longleftrightarrow>
     \<not> (\<exists>t \<in> set [''/+'', ''/@'', ''/@@'', ''/-'']. ends_dollar t (q_full_path q)) \<and>
     q_full_path q \<noteq> ''/tags'' \<and> (q_namespace q = None \<or> q_value q \<noteq> None)"

text \<open>
  The two patterns \<^verbatim>\<open>/{/[^{}]+$\<close> and \<^verbatim>\<open>/{$\<close>: what follows the last brace of the path
  is not empty and starts with a slash, and the brace is an opening one that follows a slash.
\<close>

definition is_inside_tag_group :: "string \<Rightarrow> bool" where
  "is_inside_tag_group path \<longleftrightarrow>
     (let tail = rev (takeWhile (\<lambda>c. c \<noteq> CHR ''{'' \<and> c \<noteq> CHR ''}'') (rev path));
          head = rev (dropWhile (\<lambda>c. c \<noteq> CHR ''{'' \<and> c \<noteq> CHR ''}'') (rev path))
      in suffix ''/{'' head \<and> 1 < length tail \<and> hd tail = CHR ''/'') \<or> ends_dollar ''/{'' path"

definition store_operators :: "querytree \<Rightarrow> string list" where
  "store_operators q =
     (if tagsistant_do_add_operators q then
        (if is_inside_tag_group (q_full_path q) then [''}'']
         else [''@'', ''@@''] @ (if is_all_path (q_full_path q) then [] else [''+'', ''-'', ''{'']))
      else [])"

definition tags_and_aliases :: "'fs env \<Rightarrow> querytree \<Rightarrow> 'fs world \<Rightarrow> string list" where
  "tags_and_aliases env q w =
     ''ALL'' # select_distinct env q False (map tr_name (tags (db w)))
     @ (if q_dbi q then concat (map (tagsistant_add_entry_to_dir q True) (order_names env (map fst (aliases (db w))))) else [])"

definition values_of :: "querytree \<Rightarrow> database \<Rightarrow> string list" where
  "values_of q d = map tr_value (filter (\<lambda>r. tr_name r = printf_s (q_namespace q) \<and> tr_key r = printf_s (q_key q)) (tags d))"

definition keys_of :: "querytree \<Rightarrow> database \<Rightarrow> string list" where
  "keys_of q d = map tr_key (filter (\<lambda>r. tr_name r = printf_s (q_namespace q)) (tags d))"

definition store_candidates :: "'fs env \<Rightarrow> querytree \<Rightarrow> 'fs world \<Rightarrow> string list" where
  "store_candidates env q w =
     (if is_all_path (q_full_path q) then []
      else if q_value q \<noteq> None then tags_and_aliases env q w
      else if q_operator q \<noteq> TAGSISTANT_NONE then select_distinct env q False (values_of q (db w))
      else if q_key q \<noteq> None then [''eq'', ''inc'', ''gt'', ''lt'']
      else if q_namespace q \<noteq> None then select_distinct env q False (keys_of q (db w))
      else tags_and_aliases env q w)"

definition tagsistant_readdir_on_store :: "'fs env \<Rightarrow> querytree \<Rightarrow> 'fs world \<Rightarrow> string list" where
  "tagsistant_readdir_on_store env q w =
     [''.'', ''..''] @
     (if q_complete q
      then (if q_error_message q \<noteq> None then [''error'']
            else concat (map (tagsistant_readdir_on_store_filler q \<circ> snd)
                   (rds_new env (q_tree q) (db w) (is_all_path (q_full_path q)))))
      else store_operators q @ store_candidates env q w)"

subsection \<open>relations/\<close>

text \<open>
  The condition on the tag on the left, a text with double quotes of its own that goes into the
  statement as an argument.
\<close>

definition quoted :: "gchars \<Rightarrow> string" where
  "quoted s = CHR 0x22 # printf_s s @ [CHR 0x22]"

definition condition1 :: "querytree \<Rightarrow> string" where
  "condition1 q =
     (if q_namespace q \<noteq> None
      then ''(tags1.tagname = '' @ quoted (q_namespace q) @ '' and tags1.`key` = '' @ quoted (q_key q)
             @ '' and tags1.value = '' @ quoted (q_value q) @ '') ''
      else ''(tags1.tagname = '' @ quoted (q_first_tag q) @ '') '')"

definition condition2 :: "querytree \<Rightarrow> string" where
  "condition2 q =
     (if q_related_key q \<noteq> None
      then ''(tags2.tagname = '' @ quoted (q_related_namespace q) @ '' and tags2.`key` = '' @ quoted (q_related_key q) @ '') ''
      else ''(tags2.tagname = '' @ quoted (q_related_namespace q) @ '' ) '')"

text \<open>The three statements that list what a tag is related to.\<close>

definition related_statement :: "querytree \<Rightarrow> string" where
  "related_statement q =
     (if q_related_namespace q \<noteq> None then
        build_statement
          (''select distinct tags2.'' @ (if q_related_key q \<noteq> None then ''value'' else ''key'')
           @ '' from tags as tags2 join relations on tags2.tag_id = relations.tag2_id ''
           @ ''join tags as tags1 on tags1.tag_id = relations.tag1_id where %s and %s and relation = ''
           @ [CHR 0x27] @ ''%s'' @ [CHR 0x27])
          [Str (Some (condition1 q)), Str (Some (condition2 q)), Str (q_relation q)]
      else
        build_statement
          (''select distinct tags2.tagname from tags as tags2 join relations on relations.tag2_id = tags2.tag_id ''
           @ ''join tags as tags1 on tags1.tag_id = relations.tag1_id where %s and relation = ''
           @ [CHR 0x27] @ ''%s'' @ [CHR 0x27])
          [Str (Some (condition1 q)), Str (q_relation q)])"

text \<open>
  No SQL token begins with a backslash: an engine rejects a statement whose first backslash
  stands outside of the string literals, and then there are no rows.
\<close>

definition rejected :: "string \<Rightarrow> bool" where
  "rejected s \<longleftrightarrow> CHR 0x5C \<in> set s \<and>
     even (length (filter (\<lambda>c. c = CHR 0x22) (takeWhile (\<lambda>c. c \<noteq> CHR 0x5C) s)))"

definition left_matches :: "querytree \<Rightarrow> tag_row \<Rightarrow> bool" where
  "left_matches q r \<longleftrightarrow>
     (if q_namespace q \<noteq> None
      then tr_name r = printf_s (q_namespace q) \<and> tr_key r = printf_s (q_key q) \<and> tr_value r = printf_s (q_value q)
      else tr_name r = printf_s (q_first_tag q))"

definition related_rows :: "querytree \<Rightarrow> database \<Rightarrow> tag_row list" where
  "related_rows q d = filter (\<lambda>t2.
       (q_related_namespace q \<noteq> None \<longrightarrow> tr_name t2 = printf_s (q_related_namespace q)) \<and>
       (q_related_key q \<noteq> None \<longrightarrow> tr_key t2 = printf_s (q_related_key q)) \<and>
       list_ex (\<lambda>t1. left_matches q t1 \<and> has_relation (tr_id t1) (printf_s (q_relation q)) (tr_id t2) d) (tags d)) (tags d)"

definition related_column :: "querytree \<Rightarrow> tag_row \<Rightarrow> string" where
  "related_column q r =
     (if q_related_key q \<noteq> None then tr_value r else if q_related_namespace q \<noteq> None then tr_key r else tr_name r)"

definition list_related :: "'fs env \<Rightarrow> querytree \<Rightarrow> 'fs world \<Rightarrow> string list" where
  "list_related env q w =
     (if rejected (related_statement q) then []
      else select_distinct env q False (map (related_column q) (related_rows q (db w))))"

definition tagsistant_readdir_on_relations :: "'fs env \<Rightarrow> querytree \<Rightarrow> 'fs world \<Rightarrow> string list" where
  "tagsistant_readdir_on_relations env q w =
     [''.'', ''..''] @
     (if q_second_tag q \<noteq> None \<or> q_related_value q \<noteq> None then []
      else if q_related_key q \<noteq> None \<or> q_related_namespace q \<noteq> None \<or> q_relation q \<noteq> None then list_related env q w
      else if q_first_tag q \<noteq> None \<or> q_value q \<noteq> None then [''excludes'', ''includes'', ''is_equivalent'']
      else if q_key q \<noteq> None then select_distinct env q False (values_of q (db w))
      else if q_namespace q \<noteq> None then select_distinct env q False (keys_of q (db w))
      else select_distinct env q False (map tr_name (tags (db w))))"

subsection \<open>The other directories\<close>

definition tagsistant_readdir_on_object :: "'fs env \<Rightarrow> querytree \<Rightarrow> 'fs world \<Rightarrow> exit_status \<times> string list" where
  "tagsistant_readdir_on_object env q w =
     (case os_readdir (sys env) (q_full_archive_path q) (fs w) of
        Inl e \<Rightarrow> (Exit_failed (Some e), []) | Inr names \<Rightarrow> (Exit_ok, names))"

definition tagsistant_readdir_on_tags :: "'fs env \<Rightarrow> querytree \<Rightarrow> 'fs world \<Rightarrow> string list" where
  "tagsistant_readdir_on_tags env q w =
     [''.'', ''..''] @
     (if q_first_tag q \<noteq> None \<or> q_value q \<noteq> None then []
      else if q_key q \<noteq> None then select_distinct env q False (values_of q (db w))
      else if q_namespace q \<noteq> None then select_distinct env q False (keys_of q (db w))
      else select_distinct env q False (map tr_name (tags (db w))))"

definition tagsistant_readdir_on_stats :: "string list" where
  "tagsistant_readdir_on_stats = [''.'', ''..'', ''configuration'', ''connections'', ''objects'', ''relations'', ''tags'']"

definition tagsistant_readdir_on_alias :: "'fs env \<Rightarrow> querytree \<Rightarrow> 'fs world \<Rightarrow> string list" where
  "tagsistant_readdir_on_alias env q w =
     [''.'', ''..''] @
     (if q_dbi q then concat (map (tagsistant_add_entry_to_dir q False) (order_names env (map fst (aliases (db w))))) else [])"

definition readdir_root :: "string list" where
  "readdir_root = [''.'', ''..'', ''alias'', ''archive'', ''relations'', ''stats'', ''store'', ''tags'']"

subsection \<open>The operation\<close>

definition readdir_body :: "(string list, 'fs) reading" where
  "readdir_body env q w =
     (if q_type q = QTYPE_MALFORMED then Done ((abort_operation ENOENT, []), q, w)
      else if q_points_to_object q \<and> q_full_archive_path q \<noteq> None \<or> q_type q = QTYPE_ARCHIVE
      then Done (tagsistant_readdir_on_object env q w, q, w)
      else if q_type q = QTYPE_ROOT then Done ((Exit_ok, readdir_root), q, w)
      else if q_type q = QTYPE_STORE then Done ((Exit_ok, tagsistant_readdir_on_store env q w), q, w)
      else if q_type q = QTYPE_TAGS then Done ((Exit_ok, tagsistant_readdir_on_tags env q w), q, w)
      else if q_type q = QTYPE_RELATIONS then Done ((Exit_ok, tagsistant_readdir_on_relations env q w), q, w)
      else if q_type q = QTYPE_STATS \<or> q_type q = QTYPE_RETAG then Done ((Exit_ok, tagsistant_readdir_on_stats), q, w)
      else if q_type q = QTYPE_ALIAS then Done ((Exit_ok, tagsistant_readdir_on_alias env q w), q, w)
      else Done ((Exit_ok, []), q, w))"

definition tagsistant_readdir :: "'fs env \<Rightarrow> string \<Rightarrow> 'fs world \<Rightarrow> ((errno option \<times> string list) \<times> 'fs world) run" where
  "tagsistant_readdir env path w = run_reader env False readdir_body path w"

interpretation readdir: pure_reader readdir_body
  by unfold_locales (auto simp: readdir_body_def split: if_splits)

subsection \<open>The lists of related tags\<close>

lemma rejected_build:
  assumes "vprintf (escape_format f) args = pre @ CHR 0x22 # rest"
    and "CHR 0x22 \<notin> set pre" "CHR ''<'' \<notin> set pre" "CHR 0x5C \<notin> set pre"
  shows "rejected (build_statement f args)"
proof -
  have "build_statement f args = pre @ CHR 0x5C # replace_literal ''<><>'' [CHR 0x22] (CHR 0x22 # escape_quotes rest)"
    using assms(1-3) by (simp add: build_statement_def escape_quotes_append escape_quotes_id replace_literal_skip prefix_Cons)
  moreover have "takeWhile (\<lambda>c. c \<noteq> CHR 0x5C) (pre @ CHR 0x5C # s) = pre" for s
    using assms(4) by (intro takeWhile_append_stop) auto
  moreover have "filter (\<lambda>c. c = CHR 0x22) pre = []" using assms(2) by (auto simp: filter_empty_conv)
  ultimately show ?thesis by (simp only: rejected_def) simp
qed

lemma escape_format_id: "\<forall>c \<in> set f. \<not> is_quote c \<Longrightarrow> escape_format (f @ g) = f @ escape_format g"
  by (induction f) auto

lemma rejected_argument:
  assumes "\<forall>c \<in> set f. \<not> is_quote c \<and> c \<notin> {CHR ''%'', CHR ''<'', CHR 0x5C}"
    and "\<forall>c \<in> set a. \<not> is_quote c \<and> c \<notin> {CHR ''<'', CHR 0x5C}"
  shows "rejected (build_statement (f @ ''%s'' @ g) (Str (Some (a @ CHR 0x22 # b)) # args))"
proof (rule rejected_build)
  have 1: "escape_format (f @ ''%s'' @ g) = f @ ''%s'' @ escape_format g"
    by (subst escape_format_id) (use assms(1) in \<open>simp_all add: is_quote_def\<close>)
  have 2: "vprintf (f @ ''%s'' @ escape_format g) as = f @ vprintf (''%s'' @ escape_format g) as" for as
    by (rule vprintf_skip) (use assms(1) in blast)
  show "vprintf (escape_format (f @ ''%s'' @ g)) (Str (Some (a @ CHR 0x22 # b)) # args)
      = (f @ a) @ CHR 0x22 # b @ vprintf (escape_format g) args"
    unfolding 1 2 by (simp add: print_arg_def printf_s_def)
qed (use assms in \<open>auto simp: is_quote_def\<close>)

lemma related_statement_rejected: "rejected (related_statement q)"
proof -
  have c: "\<exists>b. condition1 q = ''(tags1.tagname = '' @ CHR 0x22 # b" by (simp add: condition1_def quoted_def)
  then obtain b where b: "condition1 q = ''(tags1.tagname = '' @ CHR 0x22 # b" ..
  define g where "g = '' and relation = '' @ [CHR 0x27] @ ''%s'' @ [CHR 0x27]"
  have 1: "rejected (build_statement (f @ ''%s'' @ g) (Str (Some (condition1 q)) # args))"
    if "\<forall>c \<in> set f. \<not> is_quote c \<and> c \<notin> {CHR ''%'', CHR ''<'', CHR 0x5C}" for f g args
    unfolding b using that by (rule rejected_argument) (simp add: is_quote_def)
  show ?thesis
  proof (cases "q_related_namespace q = None")
    case True
    let ?f = "''select distinct tags2.tagname from tags as tags2 join relations on relations.tag2_id = tags2.tag_id ''
           @ ''join tags as tags1 on tags1.tag_id = relations.tag1_id where ''"
    have "rejected (build_statement (?f @ ''%s'' @ '' and relation = '' @ [CHR 0x27] @ ''%s'' @ [CHR 0x27])
        (Str (Some (condition1 q)) # [Str (q_relation q)]))"
      by (rule 1) (simp add: is_quote_def)
    then show ?thesis using True by (simp add: related_statement_def)
  next
    case False
    let ?f = "''select distinct tags2.'' @ (if q_related_key q \<noteq> None then ''value'' else ''key'')
           @ '' from tags as tags2 join relations on tags2.tag_id = relations.tag2_id ''
           @ ''join tags as tags1 on tags1.tag_id = relations.tag1_id where ''"
    have "rejected (build_statement (?f @ ''%s'' @ '' and %s and relation = '' @ [CHR 0x27] @ ''%s'' @ [CHR 0x27])
        (Str (Some (condition1 q)) # [Str (Some (condition2 q)), Str (q_relation q)]))"
      by (rule 1) (simp add: is_quote_def)
    then show ?thesis using False by (simp add: related_statement_def)
  qed
qed

lemma triple_ends: "is_triple_token ''store'' = False" "is_triple_token ''tags'' = False"
  by (simp_all add: triple_token_eval)

text \<open>C32: The tags related to a tag are never listed: whatever the tables hold, a directory
  \<^verbatim>\<open>relations/a/rel\<close>, for a flat tag and any of the three relations, is shown empty. The
  condition on the tag goes into the statement as an argument that holds double quotes, the
  escaping puts a backslash before them, and the engine rejects the statement.\<close>

theorem related_tags_never_listed:
  assumes "components_ok [''relations'', a, rel]" "\<not> is_triple_token a" "relation_pattern rel"
  shows "\<exists>w'. tagsistant_readdir env (path_of [''relations'', a, rel]) w = Done ((None, [''.'', ''..'']), w')"
proof -
  let ?q = "(new_querytree (path_of [''relations'', a, rel]))\<lparr>q_dbi := True, q_type := QTYPE_RELATIONS,
     q_first_tag := Some a, q_relation := Some rel\<rparr>"
  have "tagsistant_querytree_new env (path_of [''relations'', a, rel]) False True False w = Done (?q, tagsistant_db_connection False w)"
    unfolding querytree_new_eval[OF assms(1)] using assms(2,3)
    by (simp add: Let_def guess_type_def parse_tokens_def tagsistant_querytree_parse_relations_def parse_relation_and_right_def
        parse_right_tag_def resolve_object_def points_to_object_def qtree_return_def new_querytree_def del: path_of_simps)
  then show ?thesis
    by (simp add: tagsistant_readdir_def run_reader_def readdir_body_def new_querytree_def tagsistant_readdir_on_relations_def
        list_related_def related_statement_rejected leave_reader_def exit_operation_def Let_def del: path_of_simps)
qed

subsection \<open>tags/\<close>

lemma tag_listing_new:
  "tagsistant_querytree_new env ''/tags'' False True dr w
     = Done ((new_querytree ''/tags'')\<lparr>q_dbi := True, q_type := QTYPE_TAGS\<rparr>, tagsistant_db_connection False w)"
proof -
  have "components_ok [''tags'']" by (simp add: components_ok_def)
  from querytree_new_eval[OF this] show ?thesis
    by (simp add: Let_def guess_type_def parse_tokens_def tagsistant_querytree_parse_tags_def resolve_object_def
        points_to_object_def qtree_return_def new_querytree_def)
qed

lemma tag_path_new:
  assumes "components_ok [''tags'', n]" "\<not> is_triple_token n"
  shows "tagsistant_querytree_new env (path_of [''tags'', n]) False True dr w
     = Done ((new_querytree (path_of [''tags'', n]))\<lparr>q_dbi := True, q_type := QTYPE_TAGS, q_first_tag := Some n\<rparr>,
             tagsistant_db_connection False w)"
  unfolding querytree_new_eval[OF assms(1)] using assms(2)
  by (simp add: Let_def guess_type_def parse_tokens_def tagsistant_querytree_parse_tags_def resolve_object_def
      points_to_object_def qtree_return_def new_querytree_def del: path_of_simps)

lemma set_select_distinct:
  assumes "row_order env" "q_dbi q" "q_tree q = []"
  shows "set (select_distinct env q False column) = set column - {''''}"
  using assms by (auto simp: select_distinct_def tagsistant_add_entry_to_dir_def listed_before_def row_order_def)

lemma tags_listed:
  assumes "row_order env"
  shows "\<exists>names w1. tagsistant_readdir env ''/tags'' w = Done ((None, names), w1)
    \<and> set names = {''.'', ''..''} \<union> (tr_name ` set (tags (db w)) - {''''})
    \<and> db w1 = db w \<and> fs w1 = fs w \<and> tag_cache w1 = tag_cache w"
proof -
  define w1 where "w1 = tagsistant_db_connection False w"
  let ?q = "(new_querytree ''/tags'')\<lparr>q_dbi := True, q_type := QTYPE_TAGS\<rparr>"
  let ?w2 = "tagsistant_querytree_destroy env ?q True w1"
  have R: "tagsistant_readdir env ''/tags'' w = Done ((None, tagsistant_readdir_on_tags env ?q w1), ?w2)"
    by (simp add: tagsistant_readdir_def run_reader_def tag_listing_new readdir_body_def new_querytree_def w1_def
        leave_reader_def exit_operation_def Let_def)
  have "set (select_distinct env ?q False (map tr_name (tags (db w)))) = tr_name ` set (tags (db w)) - {''''}"
    using set_select_distinct[OF assms(1), of ?q] by (simp add: new_querytree_def)
  then have "set (tagsistant_readdir_on_tags env ?q w1) = {''.'', ''..''} \<union> (tr_name ` set (tags (db w)) - {''''})"
    by (simp add: tagsistant_readdir_on_tags_def w1_def new_querytree_def)
  moreover have "db ?w2 = db w" "fs ?w2 = fs w" "tag_cache ?w2 = tag_cache w"
    by (simp_all add: w1_def new_querytree_def tagsistant_querytree_destroy_def Let_def tagsistant_db_connection_release_def log_lock_def)
  ultimately show ?thesis using R by blast
qed

lemma flat_tag_row:
  assumes "db_ok d" "tags_plain d" "\<not> is_triple_token n"
  shows "n \<in> tr_name ` set (tags d) \<longleftrightarrow> tag_id_of d (n, '''', '''') \<noteq> 0"
proof
  assume "tag_id_of d (n, '''', '''') \<noteq> 0"
  then have "(n, '''', '''') \<in> tag_triple ` set (tags d)" using tag_id_of_other[of d "(n, '''', '''')"] assms(1) by simp
  then show "n \<in> tr_name ` set (tags d)" by (auto simp: tag_triple_def)
next
  assume "n \<in> tr_name ` set (tags d)"
  then obtain r where r: "r \<in> set (tags d)" "tr_name r = n" by auto
  then have "tag_triple r = (n, '''', '''')" using assms(2,3) by (auto simp: tags_plain_def tag_triple_def)
  then show "tag_id_of d (n, '''', '''') \<noteq> 0" using tag_id_of_nonzero[of d r] r assms(1,2) by (simp add: tags_plain_def)
qed

text \<open>C23: What \<^verbatim>\<open>tags/\<close> lists is what exists in it: with the ids within 32 bits and the
  cache in agreement with the table, the name of a flat tag is listed by readdir exactly when getattr
  finds \<^verbatim>\<open>tags/name\<close>.\<close>

theorem tags_listing_agrees:
  assumes "store_inv env w" "tags_plain (db w)" "plain n" "n \<notin> {'''', ''.'', ''..''}"
    and p: "components_ok [''tags'', n]" "\<not> is_triple_token n"
    and l: "os_lstat (sys env) (Some (archive env)) (fs w) = Inr st"
  shows "\<exists>names w1 r out w2. tagsistant_readdir env ''/tags'' w = Done ((None, names), w1)
    \<and> tagsistant_getattr env (path_of [''tags'', n]) stbuf w = Done ((r, out), w2)
    \<and> (n \<in> set names \<longleftrightarrow> r = None)"
proof -
  define w1 where "w1 = tagsistant_db_connection False w"
  have d: "db w1 = db w" "fs w1 = fs w" "tag_cache w1 = tag_cache w" by (simp_all add: w1_def)
  have inv: "store_inv env w1" using assms(1) unfolding store_inv_def cache_coherent_def d .
  obtain names w2 where L: "tagsistant_readdir env ''/tags'' w = Done ((None, names), w2)" "n \<in> set names \<longleftrightarrow> n \<in> tr_name ` set (tags (db w))"
    using tags_listed[of env w] assms(1,4) by (auto simp: store_inv_def)
  let ?p = "(new_querytree (path_of [''tags'', n]))\<lparr>q_dbi := True, q_type := QTYPE_TAGS, q_first_tag := Some n\<rparr>"
  let ?g = "tagsistant_sql_get_tag_id env True (Some n) None None w1"
  note F = flat_get[OF inv _ assms(3) p(2)]
  have i: "fst ?g = tag_id_of (db w) (n, '''', '''')" using F(1) assms(2) d by simp
  have "getattr_body (path_of [''tags'', n]) stbuf env ?p w1
      = Done (if fst ?g \<noteq> 0 then ((Exit_ok, st\<lparr>st_ino := tag_inode (fst ?g)\<rparr>), ?p, snd ?g)
              else ((abort_operation ENOENT, st), ?p, snd ?g))"
    using l by (simp add: getattr_body_def getattr_path_def getattr_post_def post_tags_def new_querytree_def d Let_def split_beta
        del: path_of_simps)
  then obtain out w3 where G: "tagsistant_getattr env (path_of [''tags'', n]) stbuf w
      = Done ((if fst ?g \<noteq> 0 then None else Some ENOENT, out), w3)"
    unfolding tagsistant_getattr_def run_reader_def tag_path_new[OF p] w1_def[symmetric]
    by (cases "fst ?g = 0") (simp_all add: leave_reader_def exit_operation_def abort_operation_def Let_def)
  have "n \<in> tr_name ` set (tags (db w)) \<longleftrightarrow> fst ?g \<noteq> 0"
    using flat_tag_row[OF _ assms(2) p(2)] assms(1) i by (simp add: store_inv_def)
  with L G show ?thesis by auto
qed

subsection \<open>store/: files and tag groups\<close>

lemma name_with_inode_back:
  assumes "0 \<le> sint i"
  shows "tagsistant_inode_extract_from_path (Some (name_with_inode (i, n))) = i" "inode_rx_1_strip (name_with_inode (i, n)) = n"
proof -
  have f: "fmt_d i = dec (unat i)" using assms sint_nonneg_unat[OF assms] by (simp add: fmt_d_def)
  have "strtoul32 (dec (unat i)) = i" using strtoul32_dec[of "unat i"] unsigned_less[of i] by simp
  then show "tagsistant_inode_extract_from_path (Some (name_with_inode (i, n))) = i" "inode_rx_1_strip (name_with_inode (i, n)) = n"
    using rx_group_digits[OF dec_digits, of "unat i" n]
    by (simp_all add: name_with_inode_def f tagsistant_inode_extract_from_path_def inode_rx_1_strip_def)
qed

text \<open>C22: When a query selects several objects of one name, or the daemon is asked to show inodes,
  each is listed under a name from which path resolution reads back its inode, below \<open>2 ^ 31\<close>,
  and its name, so that no two of them are listed alike; a single object is listed by its name.\<close>

theorem listed_names_resolve:
  assumes "\<forall>(i, n) \<in> set fhs. 0 \<le> sint i" "fhs \<noteq> []"
  shows "if length fhs = 1 \<and> \<not> q_force_inode_in_filenames q
    then tagsistant_readdir_on_store_filler q fhs = [snd (hd fhs)]
    else map (\<lambda>e. (tagsistant_inode_extract_from_path (Some e), inode_rx_1_strip e)) (tagsistant_readdir_on_store_filler q fhs) = fhs
      \<and> (distinct fhs \<longrightarrow> distinct (tagsistant_readdir_on_store_filler q fhs))"
proof -
  have inv: "map (\<lambda>e. (tagsistant_inode_extract_from_path (Some e), inode_rx_1_strip e)) (map name_with_inode fhs) = fhs"
    using assms(1) by (auto simp: name_with_inode_back intro!: map_idI)
  show ?thesis
  proof (cases "length fhs = 1 \<and> \<not> q_force_inode_in_filenames q")
    case True
    then show ?thesis by (auto simp: tagsistant_readdir_on_store_filler_def length_Suc_conv)
  next
    case False
    then have e: "tagsistant_readdir_on_store_filler q fhs = map name_with_inode fhs"
      using assms(2) by (auto simp: tagsistant_readdir_on_store_filler_def split: list.splits)
    show ?thesis unfolding if_not_P[OF False] e using inv by (metis distinct_map)
  qed
qed


text \<open>The tokens of a path, none of them empty, with braces standing alone.\<close>

definition group_tokens :: "string list \<Rightarrow> bool" where
  "group_tokens ts \<longleftrightarrow> (\<forall>t \<in> set ts. t \<noteq> '''' \<and> CHR ''/'' \<notin> set t \<and> CHR 0x0A \<notin> set t \<and>
     (t = ''{'' \<or> t = ''}'' \<or> CHR ''{'' \<notin> set t \<and> CHR ''}'' \<notin> set t))"

definition is_brace :: "string \<Rightarrow> bool" where
  "is_brace t \<longleftrightarrow> t = ''{'' \<or> t = ''}''"

definition open_group :: "string list \<Rightarrow> bool" where
  "open_group ts \<longleftrightarrow> (case dropWhile (\<lambda>t. \<not> is_brace t) (rev ts) of [] \<Rightarrow> False | t # _ \<Rightarrow> t = ''{'')"

lemma path_of_append: "path_of (us @ vs) = path_of us @ path_of vs"
  by (simp add: path_of_def)

lemma path_no_brace:
  "group_tokens vs \<Longrightarrow> \<forall>t \<in> set vs. \<not> is_brace t \<Longrightarrow> c = CHR ''{'' \<or> c = CHR ''}'' \<Longrightarrow> c \<notin> set (path_of vs)"
  by (auto simp: path_of_def group_tokens_def is_brace_def)

lemma two_last: "1 < length xs \<Longrightarrow> \<exists>u d c. xs = u @ [d, c]"
proof (cases xs rule: rev_cases)
  case (snoc ys c)
  then show "1 < length xs \<Longrightarrow> ?thesis" by (cases ys rule: rev_cases) auto
qed simp

lemma inside_tag_group_open:
  assumes "group_tokens ts"
  shows "is_inside_tag_group (path_of ts) \<longleftrightarrow> open_group ts"
proof -
  define vs where "vs = rev (takeWhile (\<lambda>t. \<not> is_brace t) (rev ts))"
  define us where "us = rev (dropWhile (\<lambda>t. \<not> is_brace t) (rev ts))"
  have ts: "ts = us @ vs" by (simp add: us_def vs_def flip: rev_append)
  have g: "group_tokens vs" "group_tokens us" using assms by (simp_all add: ts group_tokens_def)
  have nb: "\<forall>t \<in> set vs. \<not> is_brace t" unfolding vs_def set_rev using set_takeWhileD by fast
  note pv = path_no_brace[OF g(1) nb]
  have tail: "takeWhile (\<lambda>c. c \<noteq> CHR ''{'' \<and> c \<noteq> CHR ''}'') (rev (h @ path_of vs)) = rev (path_of vs)"
    "dropWhile (\<lambda>c. c \<noteq> CHR ''{'' \<and> c \<noteq> CHR ''}'') (rev (h @ path_of vs)) = rev h"
    if "h = [] \<or> last h \<in> {CHR ''{'', CHR ''}''}" for h
  proof -
    have "\<forall>c \<in> set (rev (path_of vs)). c \<noteq> CHR ''{'' \<and> c \<noteq> CHR ''}''" using pv by auto
    then show "takeWhile (\<lambda>c. c \<noteq> CHR ''{'' \<and> c \<noteq> CHR ''}'') (rev (h @ path_of vs)) = rev (path_of vs)"
      "dropWhile (\<lambda>c. c \<noteq> CHR ''{'' \<and> c \<noteq> CHR ''}'') (rev (h @ path_of vs)) = rev h"
      using that by (cases h rule: rev_cases; auto simp: takeWhile_append dropWhile_append takeWhile_eq_all_conv)+
  qed
  have len: "vs \<noteq> [] \<Longrightarrow> 1 < length (path_of vs) \<and> hd (path_of vs) = CHR ''/''"
    using g(1) by (cases vs) (auto simp: group_tokens_def Suc_less_eq)
  show ?thesis
  proof (cases us rule: rev_cases)
    case Nil
    then have "CHR ''{'' \<notin> set (path_of ts)" using pv ts by simp
    then have "\<not> ends_dollar ''/{'' (path_of ts)" by (auto simp: ends_dollar_def suffix_def)
    moreover have "\<not> open_group ts" using Nil unfolding us_def open_group_def rev_is_Nil_conv by (simp only: list.case not_False_eq_True)
    moreover have "rev (dropWhile (\<lambda>c. c \<noteq> CHR ''{'' \<and> c \<noteq> CHR ''}'') (rev (path_of ts))) = []"
      using tail(2)[of "[]"] by (simp only: ts Nil append_Nil rev.simps simp_thms)
    ultimately show ?thesis by (simp add: is_inside_tag_group_def Let_def del: rev_is_Nil_conv)
  next
    case (snoc us' b)
    have b: "is_brace b" using snoc unfolding us_def by (metis hd_dropWhile dropWhile_eq_Nil_conv hd_rev last_snoc rev_is_Nil_conv snoc_eq_iff_butlast rev_rev_ident)
    have o: "open_group ts \<longleftrightarrow> b = ''{''" using snoc unfolding open_group_def us_def by (simp add: rev_swap)
    define h where "h = path_of us' @ CHR ''/'' # b"
    have p: "path_of ts = h @ path_of vs" by (simp add: ts snoc path_of_append h_def)
    have hl: "last h \<in> {CHR ''{'', CHR ''}''}" using b by (auto simp: h_def is_brace_def)
    have s: "suffix ''/{'' h \<longleftrightarrow> b = ''{''" using b by (auto simp: h_def is_brace_def suffix_to_prefix)
    have e: "ends_dollar ''/{'' (path_of ts) \<longleftrightarrow> vs = [] \<and> b = ''{''"
    proof (cases "vs = []")
      case True
      then show ?thesis using s b by (auto simp: ends_dollar_def p newline_def h_def is_brace_def suffix_to_prefix)
    next
      case False
      then obtain u d c where u: "path_of vs = u @ [d, c]" using len two_last by blast
      then have "c \<noteq> CHR ''{''" "d \<noteq> CHR ''{''" using pv by auto
      then show ?thesis using False by (simp add: ends_dollar_def p u newline_def suffix_to_prefix)
    qed
    show ?thesis unfolding is_inside_tag_group_def e o unfolding p tail[OF disjI2[OF hl]] Let_def rev_rev_ident s
      using len by (cases "vs = []") auto
  qed
qed

lemma strstr_token:
  "CHR ''/'' \<notin> set t \<Longrightarrow> strstr ''/ALL/'' (CHR ''/'' # t @ CHR ''/'' # s) \<longleftrightarrow> t = ''ALL'' \<or> strstr ''/ALL/'' (CHR ''/'' # s)"
proof -
  assume t: "CHR ''/'' \<notin> set t"
  have "prefix ''ALL/'' (t @ CHR ''/'' # s) \<longleftrightarrow> t = ''ALL''"
    using t by (auto simp: prefix_Cons Cons_eq_append_conv append_eq_Cons_conv prefix_def)
  then show ?thesis using strstr_skip[OF t, of "''ALL/''" "CHR ''/'' # s"] by simp
qed

lemma all_path_tokens:
  assumes "group_tokens ts"
  shows "is_all_path (path_of ts) \<longleftrightarrow> ''ALL'' \<in> set ts"
proof -
  have 1: "strstr ''/ALL/'' (path_of ts @ ''/'') \<longleftrightarrow> ''ALL'' \<in> set ts" using assms
  proof (induction ts)
    case (Cons t us)
    obtain s where s: "path_of us @ ''/'' = CHR ''/'' # s" by (cases us) simp_all
    have "CHR ''/'' \<notin> set t" "group_tokens us" using Cons.prems by (simp_all add: group_tokens_def)
    then show ?case using Cons.IH strstr_token[of t s] s by auto
  qed simp
  have 2: "strstr ''/ALL/'' (p @ ''/'') \<longleftrightarrow> strstr ''/ALL/'' p \<or> suffix ''/ALL'' p" for p
  proof -
    have "strstr ''/ALL/'' (p @ ''/'') \<longleftrightarrow> (\<exists>u v. p @ ''/'' = u @ ''/ALL/'' @ v)" by (rule strstr_iff)
    also have "\<dots> \<longleftrightarrow> (\<exists>u v. p = u @ ''/ALL/'' @ v) \<or> (\<exists>u. p = u @ ''/ALL'')"
    proof
      assume "\<exists>u v. p @ ''/'' = u @ ''/ALL/'' @ v"
      then obtain u v where "p @ ''/'' = u @ ''/ALL/'' @ v" by blast
      then show "(\<exists>u v. p = u @ ''/ALL/'' @ v) \<or> (\<exists>u. p = u @ ''/ALL'')"
        by (cases v rule: rev_cases) auto
    next
      assume "(\<exists>u v. p = u @ ''/ALL/'' @ v) \<or> (\<exists>u. p = u @ ''/ALL'')"
      then obtain u v where "p @ ''/'' = u @ ''/ALL/'' @ v" by (elim disjE exE) simp_all
      then show "\<exists>u v. p @ ''/'' = u @ ''/ALL/'' @ v" by blast
    qed
    finally show ?thesis by (simp only: strstr_iff[of "''/ALL/''" p] suffix_def)
  qed
  have 3: "\<not> suffix (''/ALL'' @ newline) (path_of ts)"
  proof
    assume "suffix (''/ALL'' @ newline) (path_of ts)"
    then have "CHR 0x0A \<in> set (path_of ts)" by (auto simp: suffix_def newline_def)
    then obtain t where "t \<in> set ts" "CHR 0x0A \<in> set t" by (auto simp: path_of_def split: if_splits)
    then show False using assms unfolding group_tokens_def by blast
  qed
  show ?thesis using 1 2[of "path_of ts"] 3 by (simp add: is_all_path_def ends_dollar_def)
qed


subsection \<open>Concrete instances\<close>

theorem related_tags_never_listed_witness:
  "\<exists>w'. tagsistant_readdir sample_env ''/relations/a/is_equivalent'' (sample_world one_way []) = Done ((None, [''.'', ''..'']), w')"
  using related_tags_never_listed[of "''a''" "''is_equivalent''" sample_env "sample_world one_way []"]
  by (simp add: components_ok_def triple_token_eval relation_pattern_def ends_dollar_def suffix_to_prefix)

theorem tags_listing_agrees_witness:
  "\<exists>names w1 out w2. tagsistant_readdir sample_env ''/tags'' (sample_world one_way [''/r/archive/'']) = Done ((None, names), w1)
    \<and> tagsistant_getattr sample_env ''/tags/c'' blank_stat (sample_world one_way [''/r/archive/'']) = Done ((Some ENOENT, out), w2)
    \<and> ''c'' \<notin> set names"
proof -
  have t: "tags one_way = [\<lparr>tr_id = 1, tr_name = ''a'', tr_key = '''', tr_value = ''''\<rparr>, \<lparr>tr_id = 2, tr_name = ''b'', tr_key = '''', tr_value = ''''\<rparr>]"
    "tags_seq one_way = 2"
    by (simp_all add: one_way_def empty_db_def insert_tag_def insert_relation_def tag_triple_def)
  have ok: "db_ok one_way" by (simp add: one_way_def db_ok_statements db_ok_empty)
  have pl: "tags_plain one_way" by (simp add: tags_plain_def plain_def t triple_token_eval)
  have c: "components_ok [''tags'', ''c'']" "\<not> is_triple_token ''c''" "plain ''c''"
    by (simp_all add: components_ok_def triple_token_eval plain_def)
  have l: "os_lstat (sys sample_env) (Some (archive sample_env)) (fs (sample_world one_way [''/r/archive/'']))
      = Inr \<lparr>st_ino = 1, st_mode = 33188, st_nlink = 1, st_size = 0\<rparr>"
    by (simp add: sample_env_def sample_os_def sample_touch_def)
  obtain names w1 r out w2 where r: "tagsistant_readdir sample_env ''/tags'' (sample_world one_way [''/r/archive/'']) = Done ((None, names), w1)"
    "tagsistant_getattr sample_env ''/tags/c'' blank_stat (sample_world one_way [''/r/archive/'']) = Done ((r, out), w2)"
    "''c'' \<in> set names \<longleftrightarrow> r = None"
    using tags_listing_agrees[OF store_inv_sample[OF ok] _ c(3) _ c(1,2) l, of blank_stat] by (auto simp: pl)
  have "names = [''.'', ''..'', ''a'', ''b'']"
    using r(1) by (simp add: tagsistant_readdir_def run_reader_def tag_listing_new readdir_body_def new_querytree_def
        tagsistant_readdir_on_tags_def select_distinct_def tagsistant_add_entry_to_dir_def listed_before_def t sample_env_def
        leave_reader_def exit_operation_def Let_def)
  moreover have "r \<in> {None, Some ENOENT}"
    using r(2) tag_path_new[OF c(1,2), of sample_env False] unfolding tagsistant_getattr_def run_reader_def
    by (auto simp: getattr_body_def getattr_path_def getattr_post_def post_tags_def new_querytree_def Let_def split_beta
        leave_reader_def exit_operation_def abort_operation_def sample_env_def sample_os_def sample_touch_def split: if_splits)
  ultimately show ?thesis using r by auto
qed

theorem listed_names_resolve_witness:
  "map (\<lambda>e. (tagsistant_inode_extract_from_path (Some e), inode_rx_1_strip e))
     (tagsistant_readdir_on_store_filler (new_querytree ''/store/a/@'') [(3, ''f''), (7, ''f'')]) = [(3, ''f''), (7, ''f'')]"
  using listed_names_resolve[of "[(3, ''f''), (7, ''f'')]" "new_querytree ''/store/a/@''"] by simp


end
