(* ===== verification/Fuse_Server.thy ===== *)
theory Fuse_Server
  imports Fuse_Files Fuse_Readdir Fuse_Objects Deduplication Alias_Expansion
begin

section \<open>The requests of the kernel\<close>

text \<open>
  The table \<^verbatim>\<open>tagsistant_oper\<close> of \<^verbatim>\<open>src/src/tagsistant.c\<close> as a dispatcher: a request of
  the kernel, the handler that serves it, and what goes back. A session is a sequence of requests
  served one after the other. The entry \<^verbatim>\<open>.release\<close> is commented out in the table. The
  theorems hold of every request or of every session: what a failed request leaves behind, what
  the requests that only read leave alone, and the invariant on the tables, the transaction, the
  locks and the pool of connections.
\<close>

subsection \<open>The table of operations\<close>

datatype request =
    Getattr string stat | Readlink string nat | Readdir string
  | Mknod string nat nat | Mkdir string nat | Symlink string string | Unlink string | Rmdir string
  | Rename string string | Link string string
  | Chmod string nat | Chown string nat nat | Truncate string nat | Utime string nat nat
  | Open string file_info | Read string nat nat file_info | Write string string nat file_info | Flush string file_info
  | Statfs string | Fsync string | Setxattr string string string | Getxattr string string | Listxattr string | Removexattr string string
  | Access string stat

datatype payload = Empty | Attributes stat | Text string | Names "string list" | Handle file_info
  | Data file_info string | Count file_info nat | Free_space nat

definition tagsistant_fsync :: "string \<Rightarrow> errno option" where
  "tagsistant_fsync path = None"

definition tagsistant_setxattr :: "string \<Rightarrow> string \<Rightarrow> string \<Rightarrow> errno option" where
  "tagsistant_setxattr path name value = None"

definition tagsistant_getxattr :: "string \<Rightarrow> string \<Rightarrow> errno option" where
  "tagsistant_getxattr path name = None"

definition tagsistant_listxattr :: "string \<Rightarrow> errno option" where
  "tagsistant_listxattr path = None"

definition tagsistant_removexattr :: "string \<Rightarrow> string \<Rightarrow> errno option" where
  "tagsistant_removexattr path name = None"

definition status :: "(errno option \<times> 'fs world) run \<Rightarrow> ((errno option \<times> payload) \<times> 'fs world) run" where
  "status m = run_bind m (\<lambda>(e, w). Done ((e, Empty), w))"

definition answer :: "('o \<Rightarrow> payload) \<Rightarrow> ((errno option \<times> 'o) \<times> 'fs world) run \<Rightarrow> ((errno option \<times> payload) \<times> 'fs world) run" where
  "answer f m = run_bind m (\<lambda>((e, x), w). Done ((e, f x), w))"

definition tagsistant_oper :: "'fs env \<Rightarrow> configuration \<Rightarrow> request \<Rightarrow> 'fs world \<Rightarrow> ((errno option \<times> payload) \<times> 'fs world) run" where
  "tagsistant_oper env c r w =
     (case r of
        Getattr p st \<Rightarrow> answer Attributes (tagsistant_getattr env p st w)
      | Readlink p n \<Rightarrow> answer Text (tagsistant_readlink env p n w)
      | Readdir p \<Rightarrow> answer Names (tagsistant_readdir env p w)
      | Mknod p mode rdev \<Rightarrow> status (tagsistant_mknod env p mode rdev w)
      | Mkdir p mode \<Rightarrow> status (tagsistant_mkdir env p mode w)
      | Symlink from to \<Rightarrow> status (tagsistant_symlink env from to w)
      | Unlink p \<Rightarrow> status (tagsistant_unlink env p w)
      | Rmdir p \<Rightarrow> status (tagsistant_rmdir env p w)
      | Rename from to \<Rightarrow> status (tagsistant_rename env from to w)
      | Link from to \<Rightarrow> status (tagsistant_link env from to w)
      | Chmod p mode \<Rightarrow> status (tagsistant_chmod env p mode w)
      | Chown p uid gid \<Rightarrow> status (tagsistant_chown env p uid gid w)
      | Truncate p len \<Rightarrow> status (tagsistant_truncate env p len w)
      | Utime p a m \<Rightarrow> status (tagsistant_utime env p a m w)
      | Open p fi \<Rightarrow> answer Handle (tagsistant_open env p fi w)
      | Read p n offset fi \<Rightarrow> answer (\<lambda>(fi, s). Data fi s) (tagsistant_read env p n offset fi c w)
      | Write p buf offset fi \<Rightarrow> answer (\<lambda>(fi, n). Count fi n) (tagsistant_write env p buf offset fi w)
      | Flush p fi \<Rightarrow> answer Handle (tagsistant_flush env p fi w)
      | Statfs p \<Rightarrow> Done (case tagsistant_statvfs env p w of Inl e \<Rightarrow> (Some e, Empty) | Inr n \<Rightarrow> (None, Free_space n), w)
      | Fsync p \<Rightarrow> Done ((tagsistant_fsync p, Empty), w)
      | Setxattr p n v \<Rightarrow> Done ((tagsistant_setxattr p n v, Empty), w)
      | Getxattr p n \<Rightarrow> Done ((tagsistant_getxattr p n, Empty), w)
      | Listxattr p \<Rightarrow> Done ((tagsistant_listxattr p, Empty), w)
      | Removexattr p n \<Rightarrow> Done ((tagsistant_removexattr p n, Empty), w)
      | Access p st \<Rightarrow> status (tagsistant_access env p st w))"

text \<open>A session: the requests served, one after the other.\<close>

inductive session :: "'fs env \<Rightarrow> configuration \<Rightarrow> 'fs world \<Rightarrow> request list \<Rightarrow> 'fs world \<Rightarrow> bool" for env c where
  session_start: "session env c w [] w"
| session_step: "session env c w rs w1 \<Longrightarrow> tagsistant_oper env c r w1 = Done (a, w2) \<Longrightarrow> session env c w (rs @ [r]) w2"

inductive_cases session_snocE: "session env c w (rs @ [r]) w2"

subsection \<open>Kinds of requests\<close>

fun in_transaction :: "request \<Rightarrow> bool" where
  "in_transaction (Mknod _ _ _) = True" | "in_transaction (Mkdir _ _) = True" | "in_transaction (Symlink _ _) = True"
| "in_transaction (Unlink _) = True" | "in_transaction (Rmdir _) = True" | "in_transaction (Rename _ _) = True"
| "in_transaction _ = False"

fun only_reads :: "request \<Rightarrow> bool" where
  "only_reads (Getattr _ _) = True" | "only_reads (Readlink _ _) = True" | "only_reads (Readdir _) = True"
| "only_reads (Chmod _ _) = True" | "only_reads (Chown _ _ _) = True" | "only_reads (Utime _ _ _) = True"
| "only_reads (Read _ _ _ _) = True" | "only_reads (Statfs _) = True" | "only_reads (Fsync _) = True"
| "only_reads (Setxattr _ _ _) = True" | "only_reads (Getxattr _ _) = True" | "only_reads (Listxattr _) = True"
| "only_reads (Removexattr _ _) = True" | "only_reads (Access _ _) = True"
| "only_reads _ = False"

fun is_flush :: "request \<Rightarrow> bool" where
  "is_flush (Flush _ _) = True" | "is_flush _ = False"

lemma status_Done: "status m = Done ((e, x), w) \<longleftrightarrow> m = Done (e, w) \<and> x = Empty"
  by (cases m) (auto simp: status_def)

lemma answer_Done: "answer f m = Done ((e, x), w) \<longleftrightarrow> (\<exists>y. m = Done ((e, y), w) \<and> x = f y)"
  by (cases m) (auto simp: answer_def)

lemmas oper_simps = tagsistant_oper_def status_Done answer_Done

subsection \<open>What a request leaves\<close>

text \<open>The locks held, and what every request does to the tables, the locks and the pool.\<close>

definition readers :: "'fs world \<Rightarrow> int" where
  "readers w = int (count_list (lock_log w) Reader_lock) - int (count_list (lock_log w) Reader_unlock)"

definition writers :: "'fs world \<Rightarrow> int" where
  "writers w = int (count_list (lock_log w) Writer_lock) - int (count_list (lock_log w) Writer_unlock)"

definition tidy :: "int \<Rightarrow> 'fs world \<Rightarrow> 'fs world \<Rightarrow> bool" where
  "tidy leaked w w' \<longleftrightarrow> (db_ok (db w) \<longrightarrow> db_ok (db w')) \<and> (snapshot w = None \<longrightarrow> snapshot w' = None) \<and>
     readers w' = readers w + leaked \<and> writers w' = writers w \<and>
     int (connections w') - int (pool w') = int (connections w) - int (pool w) + leaked \<and>
     connections w \<le> connections w' \<and> (connections w' = connections w \<or> connections w' = connections w + 1 \<and> pool w = 0)"

lemma tidy_refl [simp]: "tidy 0 w w"
  by (simp add: tidy_def)

lemma tidy_run:
  assumes "lock_log w' = lock_log w @ (if st then [Writer_lock, Writer_unlock] else [Reader_lock, Reader_unlock])"
    and "pool w' = max 1 (pool w)" "connections w' = (if 0 < pool w then connections w else connections w + 1)"
    and "db_ok (db w) \<Longrightarrow> db_ok (db w')" "snapshot w' = (if st then None else snapshot w)"
  shows "tidy 0 w w'"
  using assms by (auto simp: tidy_def readers_def writers_def)

context operation
begin

lemma run_tidy: "run_operation env st dr body path w = Done (r, w') \<Longrightarrow> tidy 0 w w'"
  using run_facts(1-4,6) by (rule tidy_run)

end

context reader
begin

lemma reader_tidy: "run_reader env dr body path w = Done ((r, x), w') \<Longrightarrow> tidy 0 w w'"
  by (rule op.run_tidy[OF run_reader_forget])

end

text \<open>
  The kernel of the deduplication: it gives back what it took, unless the file could not be
  opened, and then it keeps one reader lock and one connection.
\<close>

lemma find_duplicates_frame:
  assumes "tagsistant_querytree_find_duplicates q hex w = (b, q', w')"
  shows "body_frame q w q' w'"
proof -
  have "body_frame q w q (sql_exec (q_dbi q) (delete_object i) (sql_exec (q_dbi q) (delete_tagging_of_object j)
      (sql_exec (q_dbi q) (move_tagging k l) w)))" for i j k l
    by (intro body_frame_trans[OF body_frame_trans[OF sql_exec_frame sql_exec_frame] sql_exec_frame] db_ok_statements)
  then show ?thesis using assms
    by (auto simp: tagsistant_querytree_find_duplicates_def Let_def body_frame_def split: if_splits)
qed

lemma kernel_tidy:
  assumes "tagsistant_deduplicate env path w = Done w'"
  shows "tidy 0 w w' \<or> tidy 1 w w'"
proof -
  obtain q w1 where n: "tagsistant_querytree_new env path False True True w = Done (q, w1)"
    using assms by (auto simp: tagsistant_deduplicate_def tagsistant_deduplication_kernel_def run_bind_Done_iff)
  note N = querytree_new_facts[OF n]
  obtain fd fs1 where o: "os_open (sys env) (q_full_archive_path q) 262144 (fs w1) = (fd, fs1)" by (metis surj_pair)
  show ?thesis
  proof (cases fd)
    case (Inl e)
    then have "w' = w1\<lparr>fs := fs1\<rparr>"
      using assms n o by (simp add: tagsistant_deduplicate_def tagsistant_deduplication_kernel_def)
    then have "tidy 1 w w'" using N(4) by (auto simp: quiet_def tidy_def readers_def writers_def)
    then show ?thesis ..
  next
    case (Inr h)
    let ?hex = "sha1 env (os_content (sys env) h fs1)"
    let ?w3 = "sql_exec (q_dbi q) (update_object (sint (q_inode q)) (\<lambda>r. r\<lparr>ob_checksum := ?hex\<rparr>)) (w1\<lparr>fs := fs1\<rparr>)"
    obtain b q1 w4 where d: "tagsistant_querytree_find_duplicates q ?hex ?w3 = (b, q1, w4)" by (metis prod_cases3)
    define w5 where "w5 = (if b then w4\<lparr>autotag_queue := autotag_queue w4 @
        [path @ TAGSISTANT_AUTOTAGGING_SEPARATOR @ printf_s (q_full_archive_path q1)]\<rparr> else w4)"
    have w': "w' = (tagsistant_querytree_destroy env q1 True w5)\<lparr>fs := os_close (sys env) h (fs (tagsistant_querytree_destroy env q1 True w5))\<rparr>"
      using assms n o Inr d by (simp add: tagsistant_deduplicate_def tagsistant_deduplication_kernel_def w5_def Let_def)
    have "body_frame q (w1\<lparr>fs := fs1\<rparr>) q ?w3" by (rule sql_exec_frame) (simp add: db_ok_update_object)
    then have "body_frame q (w1\<lparr>fs := fs1\<rparr>) q1 w4" using find_duplicates_frame[OF d] body_frame_trans by blast
    then have f: "body_frame q w1 q1 w5" by (simp add: w5_def body_frame_def)
    have h: "q_dbi q1" "q_transaction_started q1 = False" using f N by (simp_all add: body_frame_def)
    note D = destroy_world[OF h, of env True w5]
    have "tidy 0 w w'" using f N(4) D by (auto simp: w' body_frame_def quiet_def tidy_def readers_def writers_def)
    then show ?thesis ..
  qed
qed

lemma tidy_trans:
  assumes "tidy 0 w w1" "tidy k w1 w2" "pool w1 \<noteq> 0 \<or> connections w1 = connections w"
  shows "tidy k w w2"
  using assms by (auto simp: tidy_def)

text \<open>Two readers one after the other: the list of tags is read with a second query tree.\<close>

lemma read_facts:
  assumes "tagsistant_read env path n offset fi c w = Done ((r, x), w')"
  shows "tidy 0 w w' \<and> db w' = db w"
proof -
  obtain q w1 where q: "tagsistant_querytree_new env path False True True w = Done (q, w1)"
      "(if reads_tags env path q
        then run_reader env True (read_tags_body n fi) (tagsistant_string_tags_list_suffix env q) (tagsistant_querytree_destroy env q False w1)
        else run_bind (read_body path n offset fi c env q w1) (leave_reader env)) = Done ((r, x), w')"
    using assms by (auto simp: tagsistant_read_def run_bind_Done_iff)
  show ?thesis
  proof (cases "reads_tags env path q")
    case True
    define w2 where "w2 = tagsistant_querytree_destroy env q False w1"
    note N = querytree_new_facts[OF q(1)]
    note D = destroy_world[OF N(1,2), of env False w1, folded w2_def]
    have r: "run_reader env True (read_tags_body n fi) (tagsistant_string_tags_list_suffix env q) w2 = Done ((r, x), w')"
      using q(2) True by (simp add: w2_def)
    have t: "tidy 0 w w2" using N(4) D by (auto simp: quiet_def tidy_def readers_def writers_def)
    have d: "db w2 = db w" using N(4) D by (simp add: quiet_def)
    show ?thesis using tidy_trans[OF t read_tags.reader_tidy[OF r]] D(2) read_tags.reads_only(1)[OF r] d by simp
  next
    case False
    then have r: "run_reader env True (read_body path n offset fi c) path w = Done ((r, x), w')"
      using q by (simp add: run_reader_def)
    show ?thesis using read_file.reader_tidy[OF r] read_file.reads_only(1)[OF r] by simp
  qed
qed

lemma flush_facts:
  assumes "tagsistant_flush env path fi w = Done ((r, x), w')"
  shows "tidy 0 w w' \<or> tidy 1 w w'"
proof -
  obtain fi1 dd w1 where 1: "run_reader env True (flush_body fi) path w = Done ((r, fi1, dd), w1)"
      "(if dd then run_bind (tagsistant_deduplicate env path w1) (\<lambda>w2. Done ((r, fi1), w2)) else Done ((r, fi1), w1)) = Done ((r, x), w')"
    using assms by (auto simp: tagsistant_flush_def run_bind_Done_iff split: if_splits)
  have t: "tidy 0 w w1" by (rule flush.reader_tidy[OF 1(1)])
  have p: "pool w1 \<noteq> 0" using flush.reads_only(3)[OF 1(1)] by simp
  show ?thesis
  proof (cases dd)
    case True
    then have "tagsistant_deduplicate env path w1 = Done w'" using 1(2) by (auto simp: run_bind_Done_iff)
    then show ?thesis using kernel_tidy tidy_trans[OF t] p by blast
  qed (use 1(2) t in simp)
qed

lemma access_getattr:
  "tagsistant_access env p st w = Done (r, w') \<Longrightarrow> \<exists>x. tagsistant_getattr env p st w = Done x \<and> snd x = w'"
  by (auto simp: tagsistant_access_def run_bind_Done_iff)

lemma link_run:
  assumes "tagsistant_link env from to w = Done (r, w')"
  obtains from_q w1 where "run_operation env False False (link_body from from_q) to w1 = Done (r, w')" "quiet w w1"
proof -
  let ?f = "if TAGSISTANT_PATH_IS_EXTERNAL env from then from else drop (length (mountpoint env)) from"
  obtain from_q w1 where 1: "tagsistant_querytree_new env ?f True False False w = Done (from_q, w1)"
      "run_operation env False False (link_body from from_q) to w1 = Done (r, w')"
    using assms by (auto simp: tagsistant_link_def Let_def run_bind_Done_iff)
  have "quiet w w1" using querytree_new_unconnected[OF 1(1)] by simp
  with 1(2) show thesis by (rule that)
qed

lemma oper_tidy:
  assumes "tagsistant_oper env c r w = Done ((e, x), w')" "\<not> is_flush r"
  shows "tidy 0 w w'"
proof (cases r)
  case (Link a b)
  then obtain from_q w1 where "run_operation env False False (link_body a from_q) b w1 = Done (e, w')" "quiet w w1"
    using assms(1) by (auto simp: oper_simps elim: link_run)
  then show ?thesis using link.run_tidy[of env False False a from_q b w1 e w'] by (auto simp: quiet_def tidy_def readers_def writers_def)
next
  case (Read p n offset fi)
  then show ?thesis using assms(1) read_facts by (fastforce simp: oper_simps)
next
  case (Access p st)
  then obtain y where "tagsistant_getattr env p st w = Done (y, w')"
    using assms(1) access_getattr[of env p st w e w'] by (auto simp: oper_simps)
  then show ?thesis unfolding tagsistant_getattr_def by (cases y) (auto intro: getattr.reader_tidy)
qed (use assms in \<open>auto simp: oper_simps tagsistant_getattr_def tagsistant_readlink_def tagsistant_readdir_def tagsistant_mknod_def
    tagsistant_mkdir_def tagsistant_symlink_def tagsistant_unlink_def tagsistant_rmdir_def tagsistant_rename_def tagsistant_chmod_def
    tagsistant_chown_def tagsistant_truncate_def tagsistant_utime_def tagsistant_open_def tagsistant_write_def
    dest: getattr.reader_tidy readlink.reader_tidy readdir.reader_tidy mknod.run_tidy mkdir.run_tidy symlink.run_tidy unlink.run_tidy
      rmdir.run_tidy rename.run_tidy chmod.run_tidy chown.run_tidy truncate.run_tidy utime.run_tidy open_file.reader_tidy
      write_file.reader_tidy\<close>)


lemma oper_tidy_leak:
  assumes "tagsistant_oper env c r w = Done ((e, x), w')"
  obtains k where "tidy k w w'" "k = 0 \<or> k = 1 \<and> is_flush r"
proof (cases "is_flush r")
  case True
  then obtain p fi where "r = Flush p fi" by (cases r) simp_all
  then obtain y where "tagsistant_flush env p fi w = Done ((e, y), w')" using assms by (auto simp: oper_simps)
  then show thesis using flush_facts that True by blast
qed (use oper_tidy[OF assms] that in blast)

subsection \<open>Atomicity\<close>

text \<open>C21: A request that creates, removes or renames and fails leaves the tables as they were: for
  mknod, mkdir, symlink, unlink, rmdir and rename, whatever the path, the tables and the underlying
  file system, an error code means that every row written on the way was rolled back.\<close>

theorem failed_requests_change_nothing:
  assumes "in_transaction r" "tagsistant_oper env c r w = Done ((Some e, x), w')"
  shows "db w' = db w"
  using assms
  by (cases r) (auto simp: oper_simps tagsistant_mknod_def tagsistant_mkdir_def tagsistant_symlink_def tagsistant_unlink_def
      tagsistant_rmdir_def tagsistant_rename_def
      dest: mknod.run_facts(5) mkdir.run_facts(5) symlink.run_facts(5) unlink.run_facts(5) rmdir.run_facts(5) rename.run_facts(5))

text \<open>C24: Requests that read, and those that change only the file of an object, leave the tables as they
  were, on every path and whether they succeed or fail; and a session of such requests does.\<close>

theorem readers_change_nothing:
  assumes "session env c w rs w'" "\<forall>r \<in> set rs. only_reads r"
  shows "db w' = db w"
proof -
  have 1: "db w2 = db w1" if o: "only_reads r" "tagsistant_oper env c r w1 = Done ((e, x), w2)" for r w1 w2 e x
  proof (cases r)
    case (Access p st)
    then obtain y where "tagsistant_getattr env p st w1 = Done (y, w2)"
      using o access_getattr[of env p st w1 e w2] by (auto simp: oper_simps)
    then show ?thesis unfolding tagsistant_getattr_def by (cases y) (auto dest: getattr.reads_only(1))
  qed (use o in \<open>auto simp: oper_simps tagsistant_getattr_def tagsistant_readlink_def tagsistant_readdir_def tagsistant_chmod_def
      tagsistant_chown_def tagsistant_utime_def dest: getattr.reads_only(1) readlink.reads_only(1) readdir.reads_only(1)
      chmod.run_pure chown.run_pure utime.run_pure read_facts\<close>)
  show ?thesis using assms
  proof (induction rule: session.induct)
    case (session_step w rs w1 r a w2)
    then show ?case using 1[of r w1 "fst a" "snd a" w2] by simp
  qed simp
qed

subsection \<open>The invariant of a session\<close>

text \<open>
  Between two requests: the tables satisfy their constraints, no transaction is open, no writer
  lock is held, and every connection is in the pool but those whose reader lock was never
  released.
\<close>

definition steady :: "'fs world \<Rightarrow> bool" where
  "steady w \<longleftrightarrow> db_ok (db w) \<and> snapshot w = None \<and> writers w = 0 \<and> 0 \<le> readers w \<and>
     int (connections w) = int (pool w) + readers w"

lemma steady_tidy:
  assumes "steady w" "tidy k w w'" "0 \<le> k"
  shows "steady w'" "int (connections w') \<le> max (int (connections w)) (readers w' + 1)"
  using assms by (auto simp: steady_def tidy_def)

lemma session_steady: "session env c w rs w' \<Longrightarrow> steady w \<Longrightarrow> steady w'"
proof (induction rule: session.induct)
  case (session_step w rs w1 r a w2)
  then show ?case using oper_tidy_leak[of env c r w1 "fst a" "snd a" w2] steady_tidy(1)
    by (metis prod.collapse order_refl zero_le_one)
qed simp

text \<open>The invariant of the daemon: from a state whose tables satisfy their constraints, with no open
  transaction and no writer lock, every sequence of requests leads to such a state again. No request
  leaves the writer lock behind, and the connections that are not back in the pool are exactly those
  with an unreleased reader lock; at most one for each flush.\<close>

theorem session_invariant:
  assumes "session env c w rs w'" "steady w"
  shows "steady w' \<and> readers w \<le> readers w' \<and> readers w' \<le> readers w + int (length (filter is_flush rs))"
  using assms
proof (induction rule: session.induct)
  case (session_step w rs w1 r a w2)
  obtain k where k: "tidy k w1 w2" "k = 0 \<or> k = 1 \<and> is_flush r"
    using session_step.hyps(2) oper_tidy_leak[of env c r w1 "fst a" "snd a" w2] by auto
  then have "readers w2 = readers w1 + k" by (simp add: tidy_def)
  then show ?case using session_step steady_tidy(1)[OF _ k(1)] k(2) by auto
qed simp

text \<open>C25: The pool is bounded: however many requests are served, one after the other, the daemon opens
  no more connections than the reader locks it lost plus one, so that a session without flush on a
  fresh daemon uses a single connection and returns every lock it takes.\<close>

theorem connections_bounded:
  assumes "session env c w rs w'" "steady w"
  shows "int (connections w') \<le> max (int (connections w)) (readers w' + 1)
    \<and> ((\<forall>r \<in> set rs. \<not> is_flush r) \<longrightarrow> readers w' = readers w \<and> int (connections w') \<le> max (int (connections w)) (readers w + 1))"
  using assms
proof (induction rule: session.induct)
  case (session_step w rs w1 r a w2)
  note s1 = session_steady[OF session_step.hyps(1) session_step.prems]
  obtain k where k: "tidy k w1 w2" "k = 0 \<or> k = 1 \<and> is_flush r"
    using session_step.hyps(2) oper_tidy_leak[of env c r w1 "fst a" "snd a" w2] by auto
  have "readers w2 = readers w1 + k" using k(1) by (simp add: tidy_def)
  moreover have "int (connections w2) \<le> max (int (connections w1)) (readers w2 + 1)"
    using steady_tidy(2)[OF s1 k(1)] k(2) by auto
  ultimately show ?case using session_step.IH[OF session_step.prems] k(2) by auto
qed simp


subsection \<open>No request loops\<close>

lemma bind_Hang: "run_bind m f = Hang \<longleftrightarrow> m = Hang \<or> (\<exists>a. m = Done a \<and> f a = Hang)"
  by (cases m) auto

lemma guess_no_hang: "tagsistant_guess_inode_from_and_set env s conn name w \<noteq> Hang"
  by (simp add: tagsistant_guess_inode_from_and_set_def split: sum.splits list.splits option.splits)

lemma guess_tree_no_hang: "guess_from_tree env t conn name w \<noteq> Hang"
  by (induction t) (simp_all add: bind_Hang guess_no_hang)

lemma consistency_no_hang: "tagsistant_querytree_check_tagging_consistency env q w \<noteq> Hang"
  by (simp add: tagsistant_querytree_check_tagging_consistency_def bind_Hang guess_tree_no_hang Let_def split: option.splits)

lemma store_token_no_hang: "store_token env t ts s w \<noteq> Hang"
  by (simp add: store_token_def store_place_def Let_def split_beta bind_Hang)

lemma store_loop_no_hang: "parse_store_loop env tokens s w \<noteq> Hang"
proof (induction env tokens s w rule: parse_store_loop.induct)
  case (1 env tokens s w)
  show ?case
  proof (cases tokens)
    case (Cons t ts)
    show ?thesis
    proof (cases "t \<noteq> '''' \<and> hd t = CHR ''@''")
      case False
      then show ?thesis using "1.IH"[OF Cons False] store_token_no_hang[of env t ts s w]
        by (subst parse_store_loop.simps) (auto simp: Cons split: run.splits sum.splits prod.splits)
    qed (subst parse_store_loop.simps, simp add: Cons)
  qed (subst parse_store_loop.simps, simp)
qed

lemma parse_tokens_no_hang: "parse_tokens env q ts dr w \<noteq> Hang"
  by (simp add: parse_tokens_def tagsistant_querytree_parse_store_def store_loop_no_hang Let_def split_beta split: query_type.splits)

lemma resolve_object_no_hang: "resolve_object env q ts w \<noteq> Hang"
  by (simp add: resolve_object_def store_object_def store_inode_def bind_Hang guess_tree_no_hang Let_def)

text \<open>The paths whose expansion ends, when no alias mentions an alias.\<close>

definition path_ends :: "string \<Rightarrow> bool" where
  "path_ends p \<longleftrightarrow> \<not> strstr ''/@'' p \<or> plain_aliases p"

definition flat_aliases :: "database \<Rightarrow> bool" where
  "flat_aliases d \<longleftrightarrow> (\<forall>p \<in> set (aliases d). CHR ''='' \<notin> set (snd p))"

lemma resolve_path_no_hang:
  assumes "flat_aliases (db w)" "path_ends (q_full_path q)"
  shows "resolve_path env q dr w \<noteq> Hang"
proof -
  have "tagsistant_expand_path env (q_dbi q) w (q_full_path q) \<noteq> Hang" if "strstr ''/@'' (q_full_path q)"
    using expand_loop_ends[of w "q_full_path q" env "q_dbi q"] assms that
    by (auto simp: tagsistant_expand_path_def flat_aliases_def path_ends_def)
  then show ?thesis
    by (auto simp: resolve_path_def bind_Hang Let_def split_beta parse_tokens_no_hang resolve_object_no_hang split: list.splits)
qed

lemma querytree_new_no_hang:
  assumes "flat_aliases (db w)" "path_ends path"
  shows "tagsistant_querytree_new env path st pc dr w \<noteq> Hang"
proof -
  have "q_full_path ((new_querytree path)\<lparr>q_dbi := b, q_transaction_started := c\<rparr>) = path" "q_full_path (new_querytree path) = path" for b c
    by (simp_all add: new_querytree_def)
  then show ?thesis using assms by (simp add: tagsistant_querytree_new_def Let_def resolve_path_no_hang)
qed

lemma operation_no_hang:
  assumes "flat_aliases (db w)" "path_ends path" "\<And>q w1. db w1 = db w \<Longrightarrow> body env q w1 \<noteq> Hang"
  shows "run_operation env st dr body path w \<noteq> Hang"
proof
  assume "run_operation env st dr body path w = Hang"
  then obtain q w1 where 1: "tagsistant_querytree_new env path st True dr w = Done (q, w1)" "body env q w1 = Hang"
    using querytree_new_no_hang[OF assms(1,2)] by (auto simp: run_operation_def bind_Hang)
  have "db w1 = db w" using querytree_new_facts(4)[OF 1(1)] by (simp add: quiet_def)
  then show False using assms(3) 1(2) by blast
qed

lemma reader_no_hang:
  assumes "flat_aliases (db w)" "path_ends path" "\<And>q w1. db w1 = db w \<Longrightarrow> body env q w1 \<noteq> Hang"
  shows "run_reader env dr body path w \<noteq> Hang"
proof
  assume "run_reader env dr body path w = Hang"
  then obtain q w1 where 1: "tagsistant_querytree_new env path False True dr w = Done (q, w1)" "body env q w1 = Hang"
    using querytree_new_no_hang[OF assms(1,2)] by (auto simp: run_reader_def bind_Hang leave_reader_def Let_def split_beta)
  have "db w1 = db w" using querytree_new_facts(4)[OF 1(1)] by (simp add: quiet_def)
  then show False using assms(3) 1(2) by blast
qed

lemmas bodies = mkdir_body_def mkdir_object_def mkdir_tags_def mkdir_store_def mkdir_relations_def rmdir_body_def rmdir_store_def
  rmdir_relations_def rmdir_tags_def mknod_body_def mknod_object_def unlink_body_def unlink_store_def symlink_body_def
  symlink_real_def symlink_taggable_def link_body_def link_object_def getattr_body_def getattr_path_def getattr_object_def
  readlink_body_def chmod_body_def chown_body_def utime_body_def call_on_object_def truncate_body_def open_body_def open_object_def
  flush_body_def write_body_def read_tags_body_def read_body_def copy_out_def readdir_body_def rename_dispatch_def rename_object_def

lemma no_hang_steps:
  "Done x \<noteq> Hang" "Segv \<noteq> Hang"
  "\<And>m f. m \<noteq> Hang \<Longrightarrow> (\<And>a. f a \<noteq> Hang) \<Longrightarrow> run_bind m f \<noteq> Hang"
  "\<And>x f. (\<And>y. f y \<noteq> Hang) \<Longrightarrow> Let x f \<noteq> Hang"
  "\<And>f p. (\<And>a b. f a b \<noteq> Hang) \<Longrightarrow> case_prod f p \<noteq> Hang"
  "\<And>c a b. a \<noteq> Hang \<Longrightarrow> b \<noteq> Hang \<Longrightarrow> (if c then a else b) \<noteq> Hang"
  "\<And>f g x. (\<And>a. f a \<noteq> Hang) \<Longrightarrow> (\<And>a. g a \<noteq> Hang) \<Longrightarrow> case_sum f g x \<noteq> Hang"
  "\<And>f x m. m \<noteq> Hang \<Longrightarrow> (\<And>a. f a \<noteq> Hang) \<Longrightarrow> case_option m f x \<noteq> Hang"
  by (simp_all add: bind_Hang split: prod.splits sum.splits option.splits)

lemma body_no_hang:
  "mkdir_body mode env q w \<noteq> Hang" "rmdir_body env q w \<noteq> Hang" "mknod_body mode rdev env q w \<noteq> Hang"
  "unlink_body env q w \<noteq> Hang" "symlink_body from env q w \<noteq> Hang" "link_body from from_q env q w \<noteq> Hang"
  "rename_dispatch env q to_q w \<noteq> Hang"
  "chmod_body m env q w \<noteq> Hang" "chown_body u g env q w \<noteq> Hang" "utime_body a t env q w \<noteq> Hang" "truncate_body len env q w \<noteq> Hang"
  unfolding bodies by (intro no_hang_steps consistency_no_hang)+

lemma reading_no_hang:
  "getattr_body path st env q w \<noteq> Hang" "readlink_body n env q w \<noteq> Hang" "readdir_body env q w \<noteq> Hang"
  "open_body path fi env q w \<noteq> Hang" "flush_body fi env q w \<noteq> Hang" "write_body buf offset fi env q w \<noteq> Hang"
  "read_tags_body n fi env q w \<noteq> Hang" "read_body path n offset fi c env q w \<noteq> Hang"
  unfolding bodies by (intro no_hang_steps consistency_no_hang)+

lemma rename_no_hang:
  assumes "flat_aliases (db w)" "path_ends to"
  shows "rename_body to env q w \<noteq> Hang"
  unfolding rename_body_def by (intro no_hang_steps consistency_no_hang body_no_hang querytree_new_no_hang assms)

lemma path_ends_take: "path_ends (p @ s) \<Longrightarrow> path_ends p"
proof -
  have "plain_aliases p" if "plain_aliases (p @ s)"
    unfolding plain_aliases_def
  proof (intro allI impI)
    fix u v assume "p = u @ CHR ''='' # v"
    then have "rx_plain (takeWhile (\<lambda>x. x \<noteq> CHR ''/'') (v @ s)) \<and> CHR ''='' \<notin> set (takeWhile (\<lambda>x. x \<noteq> CHR ''/'') (v @ s))"
      using that by (simp add: plain_aliases_def)
    moreover have "set (takeWhile (\<lambda>x. x \<noteq> CHR ''/'') v) \<subseteq> set (takeWhile (\<lambda>x. x \<noteq> CHR ''/'') (v @ s))"
      by (induction v) auto
    ultimately show "rx_plain (takeWhile (\<lambda>x. x \<noteq> CHR ''/'') v) \<and> CHR ''='' \<notin> set (takeWhile (\<lambda>x. x \<noteq> CHR ''/'') v)"
      unfolding rx_plain_def by blast
  qed
  moreover have "strstr ''/@'' p \<Longrightarrow> strstr ''/@'' (p @ s)" unfolding strstr_iff by (metis append_assoc)
  ultimately show "path_ends (p @ s) \<Longrightarrow> path_ends p" unfolding path_ends_def by blast
qed

text \<open>The paths of a request that a query tree is made of.\<close>

fun request_paths :: "'fs env \<Rightarrow> request \<Rightarrow> string set" where
  "request_paths env (Getattr p _) = {p}" | "request_paths env (Readlink p _) = {p}" | "request_paths env (Readdir p) = {p}"
| "request_paths env (Mknod p _ _) = {p}" | "request_paths env (Mkdir p _) = {p}" | "request_paths env (Symlink _ p) = {p}"
| "request_paths env (Unlink p) = {p}" | "request_paths env (Rmdir p) = {p}" | "request_paths env (Rename p p') = {p, p'}"
| "request_paths env (Link p p') =
     {if TAGSISTANT_PATH_IS_EXTERNAL env p then p else drop (length (mountpoint env)) p, p'}"
| "request_paths env (Chmod p _) = {p}" | "request_paths env (Chown p _ _) = {p}" | "request_paths env (Truncate p _) = {p}"
| "request_paths env (Utime p _ _) = {p}" | "request_paths env (Open p _) = {p}" | "request_paths env (Read p _ _ _) = {p}"
| "request_paths env (Write p _ _ _) = {p}" | "request_paths env (Flush p _) = {p}" | "request_paths env (Access p _) = {p}"
| "request_paths env _ = {}"


lemma link_no_hang:
  assumes "flat_aliases (db w)" "\<forall>p \<in> request_paths env (Link from to). path_ends p"
  shows "tagsistant_link env from to w \<noteq> Hang"
proof
  let ?f = "if TAGSISTANT_PATH_IS_EXTERNAL env from then from else drop (length (mountpoint env)) from"
  assume "tagsistant_link env from to w = Hang"
  then obtain q w1 where 1: "tagsistant_querytree_new env ?f True False False w = Done (q, w1)"
      "run_operation env False False (link_body from q) to w1 = Hang"
    using querytree_new_no_hang[OF assms(1), of ?f env True False False] assms(2)
    by (auto simp: tagsistant_link_def Let_def bind_Hang)
  have "db w1 = db w" using querytree_new_unconnected(1)[OF 1(1)] by (simp add: quiet_def)
  then show False using operation_no_hang[of w1 to "link_body from q" env False False] 1(2) assms by (simp add: body_no_hang)
qed

lemma read_no_hang:
  assumes "flat_aliases (db w)" "path_ends path"
  shows "tagsistant_read env path n offset fi c w \<noteq> Hang"
proof
  assume "tagsistant_read env path n offset fi c w = Hang"
  then obtain q w1 where 1: "tagsistant_querytree_new env path False True True w = Done (q, w1)"
      "run_reader env True (read_tags_body n fi) (tagsistant_string_tags_list_suffix env q) (tagsistant_querytree_destroy env q False w1) = Hang"
    using querytree_new_no_hang[OF assms, of env False True True]
    by (auto simp: tagsistant_read_def bind_Hang reading_no_hang leave_reader_def Let_def split_beta split: if_splits)
  note N = querytree_new_facts[OF 1(1)]
  have d: "flat_aliases (db (tagsistant_querytree_destroy env q False w1))"
    using destroy_world(4)[OF N(1,2), of env False w1] N(4) assms(1) by (simp add: quiet_def)
  have "path_ends (q_full_path q)" using N(5) assms(2) by simp
  then have "path_ends (tagsistant_string_tags_list_suffix env q)"
    by (simp add: tagsistant_string_tags_list_suffix_def) (metis append_take_drop_id path_ends_take)
  then show False using reader_no_hang[OF d] 1(2) reading_no_hang(7) by metis
qed

lemma deduplicate_no_hang: "flat_aliases (db w) \<Longrightarrow> path_ends path \<Longrightarrow> tagsistant_deduplicate env path w \<noteq> Hang"
  unfolding tagsistant_deduplicate_def tagsistant_deduplication_kernel_def by (intro no_hang_steps querytree_new_no_hang)

lemma flush_no_hang:
  assumes "flat_aliases (db w)" "path_ends path"
  shows "tagsistant_flush env path fi w \<noteq> Hang"
proof
  assume "tagsistant_flush env path fi w = Hang"
  then obtain r fi1 w1 where 1: "run_reader env True (flush_body fi) path w = Done ((r, fi1, True), w1)" "tagsistant_deduplicate env path w1 = Hang"
    using reader_no_hang[OF assms, of "flush_body fi" env True]
    by (auto simp: tagsistant_flush_def bind_Hang reading_no_hang split: if_splits)
  have "flat_aliases (db w1)" using flush.reads_only(1)[OF 1(1)] assms(1) by simp
  then show False using deduplicate_no_hang[of w1 path env] assms(2) 1(2) by simp
qed

lemma wrap_Hang: "status m = Hang \<longleftrightarrow> m = Hang" "answer f n = Hang \<longleftrightarrow> n = Hang"
  by (auto simp: status_def answer_def bind_Hang)


subsection \<open>Concrete instances\<close>

definition outcome :: "'a run \<Rightarrow> ('a \<Rightarrow> bool) \<Rightarrow> bool" where
  "outcome m P = (case m of Done a \<Rightarrow> P a | Segv \<Rightarrow> False | Hang \<Rightarrow> False)"

lemma outcomeE: "outcome m P \<Longrightarrow> (\<And>a. m = Done a \<Longrightarrow> P a \<Longrightarrow> thesis) \<Longrightarrow> thesis"
  by (cases m) (simp_all add: outcome_def)

theorem failed_requests_change_nothing_witness:
  "\<exists>w'. tagsistant_oper sample_env sample_conf (Mkdir ''/relations/a/includes/b'' 0) (sample_world empty_db []) = Done ((Some EFAULT, Empty), w')
     \<and> db w' = empty_db"
proof -
  have "outcome (tagsistant_oper sample_env sample_conf (Mkdir ''/relations/a/includes/b'' 0) (sample_world empty_db []))
      (\<lambda>((e, x), w'). e = Some EFAULT \<and> x = Empty)" by code_simp
  then obtain w' where "tagsistant_oper sample_env sample_conf (Mkdir ''/relations/a/includes/b'' 0) (sample_world empty_db [])
      = Done ((Some EFAULT, Empty), w')" by (auto elim!: outcomeE)
  with failed_requests_change_nothing[OF _ this] show ?thesis by simp
qed

lemma steady_sample: "db_ok d \<Longrightarrow> steady (sample_world d fl)"
  by (simp add: steady_def readers_def writers_def)

text \<open>One request as a session, and two.\<close>

lemma session_one: "tagsistant_oper env c r w = Done (a, w') \<Longrightarrow> session env c w [r] w'"
  using session_step[OF session_start] by fastforce

lemma session_two:
  "tagsistant_oper env c r w = Done (a, w1) \<Longrightarrow> tagsistant_oper env c r' w1 = Done (a', w2) \<Longrightarrow> session env c w [r, r'] w2"
  using session_step[OF session_one] by fastforce

theorem readers_change_nothing_witness:
  "\<exists>w1 w2. tagsistant_oper sample_env sample_conf (Readdir ''/tags'') (sample_world tagged_file []) = Done ((None, Names [''.'', ''..'', ''a'', ''b'', ''c'']), w1)
     \<and> tagsistant_oper sample_env sample_conf (Getattr ''/tags/d'' blank_stat) w1 = Done ((Some ENOENT, Attributes blank_stat), w2)
     \<and> db w2 = tagged_file"
proof -
  have "outcome (tagsistant_oper sample_env sample_conf (Readdir ''/tags'') (sample_world tagged_file []))
      (\<lambda>((e, x), w1). e = None \<and> x = Names [''.'', ''..'', ''a'', ''b'', ''c''] \<and>
         outcome (tagsistant_oper sample_env sample_conf (Getattr ''/tags/d'' blank_stat) w1)
           (\<lambda>((e, x), w2). e = Some ENOENT \<and> x = Attributes blank_stat))" by code_simp
  then obtain w1 w2 where w: "tagsistant_oper sample_env sample_conf (Readdir ''/tags'') (sample_world tagged_file [])
        = Done ((None, Names [''.'', ''..'', ''a'', ''b'', ''c'']), w1)"
      "tagsistant_oper sample_env sample_conf (Getattr ''/tags/d'' blank_stat) w1 = Done ((Some ENOENT, Attributes blank_stat), w2)"
    by (auto elim!: outcomeE)
  show ?thesis using readers_change_nothing[OF session_two[OF w]] w by auto
qed

theorem session_invariant_witness:
  "\<exists>w'. session sample_env sample_conf (sample_world empty_db []) [Mkdir ''/tags/a'' 0, Rmdir ''/tags/a''] w' \<and> steady w' \<and> tags (db w') = []"
proof -
  have "outcome (tagsistant_oper sample_env sample_conf (Mkdir ''/tags/a'' 0) (sample_world empty_db []))
      (\<lambda>(a, w1). outcome (tagsistant_oper sample_env sample_conf (Rmdir ''/tags/a'') w1) (\<lambda>(a', w2). tags (db w2) = []))" by code_simp
  then obtain a w1 a' w2 where w: "tagsistant_oper sample_env sample_conf (Mkdir ''/tags/a'' 0) (sample_world empty_db []) = Done (a, w1)"
      "tagsistant_oper sample_env sample_conf (Rmdir ''/tags/a'') w1 = Done (a', w2)" "tags (db w2) = []" by (auto elim!: outcomeE)
  show ?thesis using session_invariant[OF session_two[OF w(1,2)] steady_sample[OF db_ok_empty]] session_two[OF w(1,2)] w(3) by auto
qed

theorem connections_bounded_witness:
  "\<exists>w'. session sample_env sample_conf (sample_world empty_db []) [Mkdir ''/tags/a'' 0, Readdir ''/tags''] w' \<and> connections w' \<le> 1 \<and> readers w' = 0"
proof -
  have "outcome (tagsistant_oper sample_env sample_conf (Mkdir ''/tags/a'' 0) (sample_world empty_db []))
      (\<lambda>(a, w1). outcome (tagsistant_oper sample_env sample_conf (Readdir ''/tags'') w1) (\<lambda>_. True))" by code_simp
  then obtain a w1 a' w2 where w: "tagsistant_oper sample_env sample_conf (Mkdir ''/tags/a'' 0) (sample_world empty_db []) = Done (a, w1)"
      "tagsistant_oper sample_env sample_conf (Readdir ''/tags'') w1 = Done (a', w2)" by (auto elim!: outcomeE)
  have "readers (sample_world empty_db [] :: string list world) = 0" by (simp add: readers_def)
  then show ?thesis using connections_bounded[OF session_two[OF w] steady_sample[OF db_ok_empty]] session_two[OF w] by auto
qed


end
