(* ===== verification/Object_Lifecycle.thy ===== *)
theory Object_Lifecycle
  imports Fuse_Server
begin

section \<open>The life of an object\<close>

text \<open>
  An abstract view of the tables, the map from the inodes of the objects to the sets of their
  tags, and the specification of unlinking an object on it; the handler refines it. Then two failures that leave something behind: the cache keeps the id of a tag whose
  creation was rolled back, and link, which opens no transaction, keeps the row of the object it
  could not link.
\<close>

subsection \<open>The abstract view\<close>

definition object_view :: "database \<Rightarrow> int \<Rightarrow> int set option" where
  "object_view d i = (if i \<in> ob_inode ` set (objects d) then Some (tags_of i d) else None)"

text \<open>An object loses the tags of the query, and goes away with its last tag.\<close>

definition spec_unlink :: "int \<Rightarrow> int set \<Rightarrow> (int \<Rightarrow> int set option) \<Rightarrow> int \<Rightarrow> int set option" where
  "spec_unlink i S m = (case m i of None \<Rightarrow> m | Some T \<Rightarrow> if T \<subseteq> S then m(i := None) else m(i \<mapsto> T - S))"

definition query_ids :: "database \<Rightarrow> querytree \<Rightarrow> int set" where
  "query_ids d q = (\<lambda>a. sint (tag_id_of d (node_key a))) ` set (map and_data (concat (q_tree q)))"

subsection \<open>Untagging with every tag of a query\<close>

lemma untag_keeps:
  fixes i :: tagsistant_inode
  assumes "store_inv env w" "plain_key (n, k, v)"
  defines "w1 \<equiv> tagsistant_sql_untag_object env True (Some n) (Some k) (Some v) i w"
  shows "store_inv env w1" "tags (db w1) = tags (db w)" "objects (db w1) = objects (db w)" "fs w1 = fs w"
proof -
  let ?g = "tagsistant_sql_get_tag_id env True (Some n) (Some k) (Some v) w"
  have w1: "w1 = sql_exec True (delete_tagging (sint (fst ?g)) (sint i)) (snd ?g)"
    by (simp add: w1_def tagsistant_sql_untag_object_def Let_def split_beta)
  have g: "store_inv env (snd ?g)" using assms(1) get_exact(2)[OF assms(1,2)] by (simp add: store_inv_def)
  show "store_inv env w1" unfolding w1 using g by (rule store_inv_exec) (simp_all add: db_ok_statements)
  show "tags (db w1) = tags (db w)" "objects (db w1) = objects (db w)" by (simp_all add: w1 delete_tagging_def)
  show "fs w1 = fs w" using same_frame_untag_object[of w env True "Some n" "Some k" "Some v" i] by (simp add: w1_def same_frame_def)
qed

lemma tag_id_of_tags: "tags d' = tags d \<Longrightarrow> tag_id_of d' = tag_id_of d"
  by (rule ext) (simp add: tag_id_of_def)

lemma untag_all:
  assumes "store_inv env w" "\<forall>a \<in> set as. named a"
    and w': "w' = fold (traverse_node (\<lambda>n k v. tagsistant_sql_untag_object env True n k v i)) as w"
  shows "store_inv env w' \<and> tags (db w') = tags (db w) \<and> objects (db w') = objects (db w) \<and> fs w' = fs w
    \<and> tags_of (sint i) (db w') = tags_of (sint i) (db w) - (\<lambda>a. sint (tag_id_of (db w) (node_key a))) ` set as
    \<and> (\<forall>j. j \<noteq> sint i \<longrightarrow> tags_of j (db w') = tags_of j (db w))"
  using assms
proof (induction as arbitrary: w)
  case (Cons a as)
  obtain n k v where key: "node_key a = (n, k, v)" by (metis prod_cases3)
  let ?w1 = "tagsistant_sql_untag_object env True (Some n) (Some k) (Some v) i w"
  have pk: "plain_key (n, k, v)" and nm: "named a" using Cons.prems(2) key by (auto simp: named_def)
  note U = untag_keeps[OF Cons.prems(1) pk, of i]
  have w1: "w' = fold (traverse_node (\<lambda>n k v. tagsistant_sql_untag_object env True n k v i)) as ?w1"
    using Cons.prems(3) traverse_node_untag[OF nm, of env i w] key by simp
  have T: "tags_of j (db ?w1) = (if j = sint i then tags_of j (db w) - {sint (tag_id_of (db w) (n, k, v))} else tags_of j (db w))" for j
    unfolding untag_object_db[OF Cons.prems(1) pk] by simp
  have I: "tag_id_of (db ?w1) = tag_id_of (db w)" using U(2) by (rule tag_id_of_tags)
  from Cons.IH[OF U(1) _ w1] Cons.prems(2) show ?case using U T key by (auto simp: I)
qed simp

lemma untag_and_forget_facts:
  assumes "store_inv env w" "q_dbi q" "\<forall>a \<in> set (map and_data (concat (q_tree q))). named a" "q_inode q \<noteq> 0"
    and "sint (q_inode q) \<in> ob_inode ` set (objects (db w))" and u: "untag_and_forget env q w = (gone, w')"
  shows "object_view (db w') = spec_unlink (sint (q_inode q)) (query_ids (db w) q) (object_view (db w))
    \<and> (gone \<longleftrightarrow> object_view (db w') (sint (q_inode q)) = None) \<and> fs w' = fs w"
proof -
  let ?i = "sint (q_inode q)"
  define w1 where "w1 = tagsistant_querytree_traverse q (tagsistant_sql_untag_object env) (q_inode q) w"
  have f: "w1 = fold (traverse_node (\<lambda>n k v. tagsistant_sql_untag_object env True n k v (q_inode q))) (map and_data (concat (q_tree q))) w"
    using assms(2) by (simp add: w1_def tagsistant_querytree_traverse_def)
  note U = untag_all[OF assms(1,3) f]
  have T: "tags_of ?i (db w1) = tags_of ?i (db w) - query_ids (db w) q" using U by (simp add: query_ids_def)
  have o: "objects (db w1) = objects (db w)" and fs: "fs w1 = fs w" using U by simp_all
  have e: "tagsistant_object_is_tagged env True (q_inode q) w1 \<longleftrightarrow> \<not> tags_of ?i (db w) \<subseteq> query_ids (db w) q"
    using is_tagged_iff[OF _ assms(4)] assms(1) T by (auto simp: store_inv_def)
  have r: "(gone, w') = (if tags_of ?i (db w) \<subseteq> query_ids (db w) q then (True, sql_exec True (delete_object ?i) w1) else (False, w1))"
    using u assms(2) e by (auto simp: untag_and_forget_def w1_def[symmetric] Let_def split: if_splits)
  have v: "object_view (db w) ?i = Some (tags_of ?i (db w))" using assms(5) by (simp add: object_view_def)
  show ?thesis
  proof (cases "tags_of ?i (db w) \<subseteq> query_ids (db w) q")
    case True
    then have g: "gone" "w' = sql_exec True (delete_object ?i) w1" using r by simp_all
    have "object_view (db w') = (object_view (db w))(?i := None)"
      using U o by (rule_tac ext) (auto simp: g object_view_def delete_object_def tags_of_def)
    then show ?thesis using g True v fs by (simp add: spec_unlink_def)
  next
    case False
    then have g: "\<not> gone" "w' = w1" using r by simp_all
    have "object_view (db w') = (object_view (db w))(?i \<mapsto> tags_of ?i (db w) - query_ids (db w) q)"
      using U T assms(5) by (rule_tac ext) (auto simp: g object_view_def)
    then show ?thesis using g False v fs by (simp add: spec_unlink_def)
  qed
qed

lemma check_consistency_tree:
  "tagsistant_querytree_check_tagging_consistency env q w = Done (b, q1) \<Longrightarrow>
     q_tree q1 = q_tree q \<and> q_inode q1 = q_inode q \<and> q_dbi q1 = q_dbi q \<and> q_full_path q1 = q_full_path q \<and>
     q_full_archive_path q1 = q_full_archive_path q"
  by (auto simp: tagsistant_querytree_check_tagging_consistency_def run_bind_Done_iff Let_def split: option.splits if_splits)


subsection \<open>What failures leave behind\<close>

lemma get_caches:
  assumes "fst (tagsistant_sql_get_tag_id env conn n k v w) \<noteq> 0"
  shows "tag_cache (snd (tagsistant_sql_get_tag_id env conn n k v w))
      (tagsistant_make_tag_key (safe_string n) (safe_string k) (safe_string v)) = Some (fst (tagsistant_sql_get_tag_id env conn n k v w))"
  using assms by (auto simp: tagsistant_sql_get_tag_id_def Let_def split: option.splits)

lemma cached_get:
  assumes "tag_cache w (tagsistant_make_tag_key (safe_string n) (safe_string k) (safe_string v)) = Some i" "i \<noteq> 0"
  shows "fst (tagsistant_sql_get_tag_id env conn n k v w) = i"
  using assms by (simp add: tagsistant_sql_get_tag_id_def Let_def)

lemma flat_rows: "tags_plain d \<Longrightarrow> \<not> is_triple_token n \<Longrightarrow> \<forall>r \<in> set (tags d). tr_name r = n \<longrightarrow> tr_key r = '''' \<and> tr_value r = ''''"
  by (auto simp: tags_plain_def)

lemma get_or_create_ensure:
  assumes "tags_plain (db w)" "\<not> is_triple_token n"
  shows "get_or_create env True (Some n) None None w = store_ensure env (n, '''', '''') w"
proof -
  let ?g = "tagsistant_sql_get_tag_id env True (Some n) (Some '''') (Some '''')"
  have 1: "tagsistant_sql_get_tag_id env True (Some n) None None w = ?g w"
    by (rule flat_lookup[OF flat_rows[OF assms]])
  let ?c = "store_create (n, '''', '''') (snd (?g w))"
  have "\<forall>r \<in> set (tags (db ?c)). tr_name r = n \<longrightarrow> tr_key r = '''' \<and> tr_value r = ''''"
    using flat_rows[OF assms] by (auto simp: store_create_def tagsistant_sql_create_tag_def insert_tag_def)
  note 2 = flat_lookup[OF this, of env]
  have "tagsistant_sql_create_tag True (Some n) None None (snd (?g w)) = ?c"
    by (simp add: store_create_def tagsistant_sql_create_tag_def)
  then show ?thesis using 1 2 by (auto simp: get_or_create_def store_ensure_def store_lookup_def Let_def split_beta)
qed

lemma relation_tree_writer:
  assumes "components_ok [''relations'', a, rel, b]" "\<not> is_triple_token a" "\<not> is_triple_token b"
    "rel \<in> {''includes'', ''excludes'', ''is_equivalent''}"
  shows "tagsistant_querytree_new env (path_of [''relations'', a, rel, b]) True True dr w
    = Done ((relation_tree [''relations'', a, rel, b] a rel b)\<lparr>q_transaction_started := True\<rparr>, tagsistant_db_connection True w)"
proof -
  have r: "relation_pattern rel" using assms(4) by (auto simp: relation_pattern_def ends_dollar_def suffix_to_prefix newline_def)
  show ?thesis unfolding querytree_new_eval[OF assms(1)]
    using assms(2,3) r
    by (simp add: Let_def guess_type_def parse_tokens_def tagsistant_querytree_parse_relations_def parse_relation_and_right_def
        parse_right_tag_def resolve_object_def points_to_object_def qtree_return_def relation_tree_def new_querytree_def
        del: path_of_simps)
qed


lemma tag_object_objects: "objects (db (tagsistant_sql_tag_object env conn n k v i w)) = objects (db w)"
  by (simp add: tagsistant_sql_tag_object_def tagsistant_sql_create_tag_def Let_def split_beta insert_tagging_def insert_tag_def
      split: option.splits)

lemma tag_all_objects: "objects (db (tagsistant_querytree_traverse q (tagsistant_sql_tag_object env) i w)) = objects (db w)"
proof -
  have "objects (db (fold (traverse_node (\<lambda>n k v. tagsistant_sql_tag_object env (q_dbi q) n k v i)) as w)) = objects (db w)" for as
    by (induction as arbitrary: w) (simp_all add: traverse_node_def tag_object_objects)
  then show ?thesis by (simp add: tagsistant_querytree_traverse_def)
qed

lemma create_objects:
  assumes "q_dbi q" "db_ok (db w)" "objects_seq (db w) < 2 ^ 31 - 1"
    and "tagsistant_inner_create_and_tag_object env q True w = (r, q', w')"
  shows "\<not> create_failed r" "objects (db w') = objects (db w) @
      [\<lparr>ob_inode = objects_seq (db w) + 1, ob_name = printf_s (q_object_path q), ob_checksum = '''', ob_symlink = ''''\<rparr>]"
proof -
  let ?n = "objects_seq (db w) + 1"
  let ?i = "word_of_int ?n :: 32 word"
  have pos: "1 \<le> ?n" "?n < 2 ^ 31" using assms(2,3) by (auto simp: db_ok_def)
  then have si: "sint ?i = ?n" by (intro sint_word_of_int32) simp_all
  then have nz: "?i \<noteq> 0" using pos by (metis not_one_le_zero signed_0)
  let ?s = "tagsistant_querytree_set_inode env q ?i (sql_exec True (\<lambda>d. snd (insert_object (printf_s (q_object_path q)) d)) w)"
  have "r = (sint ?i, None)" "w' = tagsistant_querytree_traverse (fst ?s) (tagsistant_sql_tag_object env) ?i (snd ?s)"
    using assms nz by (auto simp: tagsistant_inner_create_and_tag_object_def Let_def split_beta insert_object_def)
  then show "\<not> create_failed r" "objects (db w') = objects (db w) @
      [\<lparr>ob_inode = objects_seq (db w) + 1, ob_name = printf_s (q_object_path q), ob_checksum = '''', ob_symlink = ''''\<rparr>]"
    using si pos by (simp_all add: create_failed_def tag_all_objects insert_object_def)
qed


subsection \<open>Concrete instances\<close>

definition file_query :: querytree where
  "file_query = (new_querytree ''/store/a/@/f'')\<lparr>q_dbi := True, q_type := QTYPE_STORE, q_complete := True, q_object_path := Some ''f'', q_inode := 1,
     q_tree := [[And_node (new_and_data\<lparr>an_tag := Some ''a'', an_tag_id := 1\<rparr>) None None]]\<rparr>"



text \<open>A file system that refuses hard links.\<close>

definition no_links_env :: "string list env" where
  "no_links_env = sample_env\<lparr>sys := sample_os\<lparr>os_link := (\<lambda>p p' f. (Some EXDEV, f))\<rparr>\<rparr>"


end
