(* ===== verification/Directory_Lifecycle.thy ===== *)
theory Directory_Lifecycle
  imports Object_Lifecycle
begin

section \<open>The life of a directory\<close>

text \<open>
  The handlers of \<^verbatim>\<open>src/src/fuse_operations\<close> seen from outside, one request after another: what
  mkdir and rmdir make of \<^verbatim>\<open>tags/\<close> and \<^verbatim>\<open>relations/\<close> is what getattr finds there afterwards,
  whatever the cache of tag ids holds in between.
\<close>

definition found :: "'fs env \<Rightarrow> string \<Rightarrow> 'fs world \<Rightarrow> bool" where
  "found env path w = (case tagsistant_getattr env path blank_stat w of Done ((None, _), _) \<Rightarrow> True | _ \<Rightarrow> False)"

text \<open>A name that can be a flat tag: the cache tells it from others, and a path can hold it.\<close>

definition flat_name :: "string \<Rightarrow> bool" where
  "flat_name n \<longleftrightarrow> n \<noteq> '''' \<and> plain n \<and> \<not> is_triple_token n \<and> CHR ''/'' \<notin> set n \<and> \<not> prefix ''@'' n"

definition flat_id :: "database \<Rightarrow> string \<Rightarrow> tagsistant_tag_id" where
  "flat_id d n = tag_id_of d (n, '''', '''')"

text \<open>What the requests rely on and keep: the store's invariant, tags of the two kinds, room for ids,
  and the directory that stands for every other one.\<close>

definition served :: "'fs env \<Rightarrow> 'fs world \<Rightarrow> bool" where
  "served env w \<longleftrightarrow> store_inv env w \<and> tags_plain (db w) \<and> (\<exists>st. os_lstat (sys env) (Some (archive env)) (fs w) = Inr st)"

lemma served_connection [simp]: "served env (tagsistant_db_connection b w) = served env w"
  by (simp add: served_def store_inv_def cache_coherent_def)

lemma destroy_simps [simp]:
  "\<not> q_schedule_for_unlink q \<Longrightarrow> fs (tagsistant_querytree_destroy env q c w) = fs w"
  "tag_cache (tagsistant_querytree_destroy env q c w) = tag_cache w"
  "db (tagsistant_querytree_destroy env q True w) = db w"
  by (simp_all add: tagsistant_querytree_destroy_def Let_def tagsistant_db_connection_release_def log_lock_def
      tagsistant_commit_transaction_def tagsistant_rollback_transaction_def split: option.splits)

lemma served_destroy: "\<not> q_schedule_for_unlink q \<Longrightarrow> served env (tagsistant_querytree_destroy env q True w) = served env w"
  by (simp add: served_def store_inv_def cache_coherent_def)

lemma flat_name_components:
  "flat_name n \<Longrightarrow> components_ok [''tags'', n]"
  "flat_name a \<Longrightarrow> flat_name b \<Longrightarrow> rel \<in> {''includes'', ''excludes'', ''is_equivalent''} \<Longrightarrow> components_ok [''relations'', a, rel, b]"
  by (auto simp: flat_name_def components_ok_def)

lemma flat_id_row: "db_ok d \<Longrightarrow> flat_id d n \<noteq> 0 \<Longrightarrow> \<exists>r \<in> set (tags d). tag_triple r = (n, '''', '''')"
  using tag_id_of_other[of d "(n, '''', '''')"] by (auto simp: flat_id_def)

lemma flat_id_inj:
  assumes "db_ok d" "tags_seq d < 2 ^ 31" "flat_id d a \<noteq> 0" "sint (flat_id d a) = sint (flat_id d b)"
  shows "a = b"
proof -
  have "flat_id d b \<noteq> 0" using assms(3,4) by (metis signed_word_eqI)
  then obtain r s where rs: "r \<in> set (tags d)" "tag_triple r = (a, '''', '''')" "s \<in> set (tags d)" "tag_triple s = (b, '''', '''')"
    using flat_id_row assms(1,3) by meson
  have "tr_id r = tr_id s"
    using tag_id_of_nonzero[OF assms(1,2)] rs assms(4) by (metis flat_id_def)
  then have "r = s" using assms(1) rs(1,3) by (auto simp: db_ok_def distinct_map inj_on_def)
  then show ?thesis using rs by simp
qed

subsection \<open>tags/\<close>

lemma tag_tree:
  assumes "flat_name n"
  shows "tagsistant_querytree_new env (path_of [''tags'', n]) st True dr w
     = Done ((new_querytree (path_of [''tags'', n]))\<lparr>q_dbi := True, q_transaction_started := st, q_type := QTYPE_TAGS, q_first_tag := Some n\<rparr>,
             tagsistant_db_connection st w)"
  unfolding querytree_new_eval[OF flat_name_components(1)[OF assms]] using assms
  by (simp add: Let_def guess_type_def parse_tokens_def tagsistant_querytree_parse_tags_def resolve_object_def
      points_to_object_def qtree_return_def new_querytree_def flat_name_def del: path_of_simps)

lemma destroy_reading:
  assumes "\<not> q_transaction_started q" "\<not> q_schedule_for_unlink q"
  shows "db (tagsistant_querytree_destroy env q c w) = db w" "served env (tagsistant_querytree_destroy env q c w) = served env w"
proof -
  show d: "db (tagsistant_querytree_destroy env q c w) = db w"
    using assms by (simp add: tagsistant_querytree_destroy_def Let_def tagsistant_db_connection_release_def log_lock_def)
  show "served env (tagsistant_querytree_destroy env q c w) = served env w"
    using assms(2) by (simp add: served_def store_inv_def cache_coherent_def d)
qed

lemma served_get:
  assumes "served env w" "flat_name n"
  shows "fst (tagsistant_sql_get_tag_id env True (Some n) None None w) = flat_id (db w) n"
    "served env (snd (tagsistant_sql_get_tag_id env True (Some n) None None w))"
proof -
  have "fs (snd (tagsistant_sql_get_tag_id env True (Some n) None None w)) = fs w"
    using same_frame_get_tag_id[of w env True "Some n" None None] by (simp add: same_frame_def)
  then show "fst (tagsistant_sql_get_tag_id env True (Some n) None None w) = flat_id (db w) n"
    "served env (snd (tagsistant_sql_get_tag_id env True (Some n) None None w))"
    using flat_get[of env w n] assms by (simp_all add: served_def flat_name_def flat_id_def)
qed

lemma tag_getattr:
  assumes "served env w" "flat_name n"
  shows "\<exists>out w'. tagsistant_getattr env (path_of [''tags'', n]) st w = Done ((if flat_id (db w) n \<noteq> 0 then None else Some ENOENT, out), w')
    \<and> served env w' \<and> db w' = db w \<and> fs w' = fs w"
proof -
  define w1 where "w1 = tagsistant_db_connection False w"
  have w1: "served env w1" "db w1 = db w" "fs w1 = fs w" using assms(1) by (simp_all add: w1_def)
  obtain x where x: "os_lstat (sys env) (Some (archive env)) (fs w1) = Inr x" using w1(1) by (auto simp: served_def)
  let ?p = "(new_querytree (path_of [''tags'', n]))\<lparr>q_dbi := True, q_transaction_started := False, q_type := QTYPE_TAGS, q_first_tag := Some n\<rparr>"
  let ?g = "tagsistant_sql_get_tag_id env True (Some n) None None w1"
  have i: "fst ?g = flat_id (db w) n"
    using flat_get(1)[of env w1 n] w1 assms(2) by (simp add: served_def flat_name_def flat_id_def)
  have "same_frame w1 (snd ?g)" by simp
  then have fs: "fs (snd ?g) = fs w" using w1(3) by (simp add: same_frame_def)
  have g: "served env (snd ?g)" "db (snd ?g) = db w" using served_get[OF w1(1) assms(2)] w1(2) by simp_all
  have w': "served env (tagsistant_querytree_destroy env ?p c (snd ?g))" "db (tagsistant_querytree_destroy env ?p c (snd ?g)) = db w"
      "fs (tagsistant_querytree_destroy env ?p c (snd ?g)) = fs w" for c
    using g fs by (simp_all add: destroy_reading new_querytree_def)
  have "getattr_body (path_of [''tags'', n]) st env ?p w1
      = Done (if fst ?g \<noteq> 0 then ((Exit_ok, x\<lparr>st_ino := tag_inode (fst ?g)\<rparr>), ?p, snd ?g)
              else ((abort_operation ENOENT, x), ?p, snd ?g))"
    using x by (simp add: getattr_body_def getattr_path_def getattr_post_def post_tags_def new_querytree_def Let_def split_beta
        del: path_of_simps)
  then show ?thesis using i w' w1(2)
    unfolding tagsistant_getattr_def run_reader_def tag_tree[OF assms(2)] w1_def[symmetric]
    by (cases "fst ?g = 0") (simp_all add: leave_reader_def exit_operation_def abort_operation_def Let_def)
qed

lemma tag_found:
  assumes "served env w" "flat_name n"
  shows "found env (path_of [''tags'', n]) w \<longleftrightarrow> flat_id (db w) n \<noteq> 0"
  using tag_getattr[OF assms, of blank_stat] by (auto simp: found_def simp del: path_of_simps)

lemma served_insert_tag:
  assumes "served env w" "flat_name n" "store_room w"
    and d: "db w' = insert_tag n '''' '''' (db w)" and c: "tag_cache w' = tag_cache w" and f: "fs w' = fs w"
  shows "served env w'"
proof -
  have ok: "db_ok (db w)" and coh: "cache_coherent w" using assms(1) by (simp_all add: served_def store_inv_def)
  have keep: "tag_id_of (insert_tag n '''' '''' (db w)) u = tag_id_of (db w) u" if "tag_id_of (db w) u \<noteq> 0" for u
    using tag_id_of_other[OF ok that] by (auto simp: tag_id_of_insert_tag[OF ok])
  have "cache_coherent w'" by (rule coherent_db[OF coh c]) (simp add: d keep)
  moreover have "tags_plain (db w')" using assms(1-3)
    by (auto simp: d served_def tags_plain_def insert_tag_def store_room_def flat_name_def plain_def)
  ultimately show ?thesis using assms(1) ok by (simp add: served_def store_inv_def d f db_ok_statements)
qed

lemma mkdir_tag:
  assumes "served env w" "flat_name n" "store_room w"
  shows "\<exists>w'. tagsistant_mkdir env (path_of [''tags'', n]) mode w = Done (None, w')
    \<and> served env w' \<and> db w' = insert_tag n '''' '''' (db w) \<and> fs w' = fs w"
proof -
  let ?q = "(new_querytree (path_of [''tags'', n]))\<lparr>q_dbi := True, q_transaction_started := True, q_type := QTYPE_TAGS, q_first_tag := Some n\<rparr>"
  let ?w1 = "tagsistant_db_connection True w"
  let ?w2 = "tagsistant_sql_create_tag True (Some n) None None ?w1"
  let ?w' = "tagsistant_querytree_destroy env ?q True ?w2"
  have run: "tagsistant_mkdir env (path_of [''tags'', n]) mode w = Done (None, ?w')"
    by (simp add: tagsistant_mkdir_def run_operation_def tag_tree[OF assms(2)] mkdir_body_def mkdir_tags_def new_querytree_def
        exit_operation_def del: path_of_simps)
  have d: "db ?w' = insert_tag n '''' '''' (db w)" and c: "tag_cache ?w' = tag_cache w" and f: "fs ?w' = fs w"
    by (simp_all add: new_querytree_def tagsistant_sql_create_tag_def)
  show ?thesis using run served_insert_tag[OF assms d c f] d f by blast
qed

lemma served_delete_tag:
  assumes "served env w" "flat_name n"
    and w': "w' = tagsistant_sql_delete_tag env True (Some n) None None w"
  shows "served env w'"
    and "flat_id (db w') m = (if m = n then 0 else flat_id (db w) m)"
proof -
  let ?t = "(n, '''', '''')"
  have inv: "store_inv env w" and pk: "plain_key ?t" using assms(1,2) by (simp_all add: served_def flat_name_def plain_key_def plain_def)
  let ?g = "tagsistant_sql_get_tag_id env True (Some n) (Some '''') (Some '''') w"
  have same: "w' = tagsistant_sql_delete_tag env True (Some n) (Some '''') (Some '''') w"
    by (simp add: w' tagsistant_sql_delete_tag_def)
  have T: "tags (db w') = filter (\<lambda>r. tag_triple r \<noteq> ?t) (tags (db w))"
    unfolding same delete_tag_db[OF inv pk]
    by (simp add: Let_def delete_relations_of_tag_def delete_tagging_of_tag_def delete_tag_rows_def)
  have S: "tags_seq (db w') = tags_seq (db w)"
    unfolding same delete_tag_db[OF inv pk]
    by (simp add: Let_def delete_relations_of_tag_def delete_tagging_of_tag_def delete_tag_rows_def)
  have id: "tag_id_of (db w') u = (if u = ?t then 0 else tag_id_of (db w) u)" for u
  proof -
    have "find (\<lambda>r. tag_triple r = u) (filter (\<lambda>r. tag_triple r \<noteq> ?t) xs)
        = (if u = ?t then None else find (\<lambda>r. tag_triple r = u) xs)" for xs
      by (induction xs) auto
    then show ?thesis by (simp add: tag_id_of_def T)
  qed
  then show "flat_id (db w') m = (if m = n then 0 else flat_id (db w) m)" by (simp add: flat_id_def)
  have C: "tag_cache w' = (tag_cache (snd ?g))(cache_key ?t := None)"
    by (simp add: w' tagsistant_sql_delete_tag_def Let_def split_beta tagsistant_remove_tag_from_cache_def cache_key_def)
  have G: "cache_coherent (snd ?g)" "db (snd ?g) = db w" using get_exact(2)[OF inv pk] by simp_all
  have "cache_coherent w'"
    unfolding cache_coherent_def
  proof (intro allI impI)
    fix u i assume u: "plain_key u \<and> tag_cache w' (cache_key u) = Some i"
    then have "u \<noteq> ?t" "tag_cache (snd ?g) (cache_key u) = Some i" by (auto simp: C split: if_splits)
    then have "i \<noteq> 0 \<and> i = tag_id_of (db w) u" using G(1) u unfolding cache_coherent_def G(2) by blast
    then show "i \<noteq> 0 \<and> i = tag_id_of (db w') u" using \<open>u \<noteq> ?t\<close> by (metis id)
  qed
  moreover have "tags_plain (db w')" using assms(1) by (simp add: served_def tags_plain_def T S)
  moreover have "fs w' = fs w" using same_frame_delete_tag[of w env True "Some n" None None] by (simp add: w' same_frame_def)
  ultimately show "served env w'" using assms(1) by (simp add: served_def store_inv_def w')
qed

lemma rmdir_tag:
  assumes "served env w" "flat_name n"
  shows "\<exists>w'. tagsistant_rmdir env (path_of [''tags'', n]) w = Done (None, w')
    \<and> served env w' \<and> (\<forall>m. flat_id (db w') m = (if m = n then 0 else flat_id (db w) m))
    \<and> objects (db w') = objects (db w) \<and> objects_seq (db w') = objects_seq (db w) \<and> tags_seq (db w') = tags_seq (db w)
    \<and> (\<forall>j. tags_of j (db w') = tags_of j (db w) - {sint (flat_id (db w) n)}) \<and> fs w' = fs w"
proof -
  let ?q = "(new_querytree (path_of [''tags'', n]))\<lparr>q_dbi := True, q_transaction_started := True, q_type := QTYPE_TAGS, q_first_tag := Some n\<rparr>"
  let ?w1 = "tagsistant_db_connection True w"
  let ?w2 = "tagsistant_sql_delete_tag env True (Some n) None None ?w1"
  let ?w' = "tagsistant_querytree_destroy env ?q True ?w2"
  have run: "tagsistant_rmdir env (path_of [''tags'', n]) w = Done (None, ?w')"
    by (simp add: tagsistant_rmdir_def run_operation_def tag_tree[OF assms(2)] rmdir_body_def rmdir_tags_def new_querytree_def
        exit_operation_def del: path_of_simps)
  have s: "served env ?w1" using assms(1) by simp
  note D = served_delete_tag[OF s assms(2) refl]
  have pk: "plain_key (n, '''', '''')" and inv: "store_inv env ?w1"
    using s assms(2) by (simp_all add: served_def flat_name_def plain_key_def plain_def)
  have "?w2 = tagsistant_sql_delete_tag env True (Some n) (Some '''') (Some '''') ?w1" by (simp add: tagsistant_sql_delete_tag_def)
  then have d: "db ?w2 = (let t = sint (flat_id (db w) n) in delete_relations_of_tag t (delete_tagging_of_tag t (delete_tag_rows n '''' '''' (db w))))"
    using delete_tag_db[OF inv pk] by (simp add: flat_id_def)
  have "fs ?w2 = fs w" using same_frame_delete_tag[of ?w1 env True "Some n" None None] by (simp add: same_frame_def)
  then have w': "db ?w' = db ?w2" "fs ?w' = fs w" by (simp_all add: new_querytree_def)
  have "objects (db ?w2) = objects (db w) \<and> objects_seq (db ?w2) = objects_seq (db w) \<and> tags_seq (db ?w2) = tags_seq (db w)
      \<and> (\<forall>j. tags_of j (db ?w2) = tags_of j (db w) - {sint (flat_id (db w) n)})"
    unfolding d Let_def
    by (auto simp: delete_relations_of_tag_def delete_tagging_of_tag_def delete_tag_rows_def tags_of_def)
  moreover have "served env ?w'" using D(1) by (simp add: served_destroy new_querytree_def)
  ultimately show ?thesis using run D(2) w' by (intro exI[of _ ?w']) simp
qed

text \<open>C12: A tag directory lives from its mkdir to its rmdir: both succeed, after the first getattr finds
  \<^verbatim>\<open>tags/n\<close> and every directory it found before and no other, and after the second everything it
  found before but \<^verbatim>\<open>tags/n\<close>.\<close>

theorem tag_directory_lifecycle:
  assumes "served env w" "store_room w" "flat_name n" "flat_name m"
  shows "\<exists>w1 w2. tagsistant_mkdir env (path_of [''tags'', n]) mode w = Done (None, w1)
    \<and> tagsistant_rmdir env (path_of [''tags'', n]) w1 = Done (None, w2)
    \<and> (found env (path_of [''tags'', m]) w1 \<longleftrightarrow> m = n \<or> found env (path_of [''tags'', m]) w)
    \<and> (found env (path_of [''tags'', m]) w2 \<longleftrightarrow> m \<noteq> n \<and> found env (path_of [''tags'', m]) w)"
proof -
  obtain w1 where 1: "tagsistant_mkdir env (path_of [''tags'', n]) mode w = Done (None, w1)" "served env w1"
      "db w1 = insert_tag n '''' '''' (db w)"
    using mkdir_tag[OF assms(1,3,2)] by blast
  obtain w2 where 2: "tagsistant_rmdir env (path_of [''tags'', n]) w1 = Done (None, w2)" "served env w2"
      "\<forall>m. flat_id (db w2) m = (if m = n then 0 else flat_id (db w1) m)"
    using rmdir_tag[OF 1(2) assms(3)] by blast
  have ok: "db_ok (db w)" using assms(1) by (simp add: served_def store_inv_def)
  obtain r where r: "r \<in> set (tags (db w1))" "tag_triple r = (n, '''', '''')" using row_inserted 1(3) by metis
  have "flat_id (db w1) n \<noteq> 0"
    using tag_id_of_nonzero[of "db w1" r] r 1(2) by (auto simp: served_def store_inv_def tags_plain_def flat_id_def)
  moreover have "flat_id (db w1) m = flat_id (db w) m" if "m \<noteq> n"
    using that by (simp add: 1(3) flat_id_def tag_id_of_insert_tag[OF ok])
  ultimately have i: "flat_id (db w1) m \<noteq> 0 \<longleftrightarrow> m = n \<or> flat_id (db w) m \<noteq> 0" by (cases "m = n") simp_all
  show ?thesis using 1 2 i tag_found[OF _ assms(4)] assms(1) by auto
qed


subsection \<open>relations/\<close>

definition linked :: "database \<Rightarrow> string \<Rightarrow> string \<Rightarrow> string \<Rightarrow> bool" where
  "linked d a rel b \<longleftrightarrow> flat_id d a \<noteq> 0 \<and> flat_id d b \<noteq> 0 \<and> has_relation (sint (flat_id d a)) rel (sint (flat_id d b)) d"

definition relation_name :: "string \<Rightarrow> bool" where
  "relation_name rel \<longleftrightarrow> rel \<in> {''includes'', ''excludes'', ''is_equivalent''}"

lemma relation_found:
  assumes "served env w" "flat_name a" "flat_name b" "relation_name rel"
  shows "found env (path_of [''relations'', a, rel, b]) w \<longleftrightarrow> linked (db w) a rel b"
proof -
  obtain st where st: "os_lstat (sys env) (Some (archive env)) (fs w) = Inr st" using assms(1) by (auto simp: served_def)
  obtain out w' where "tagsistant_getattr env (path_of [''relations'', a, rel, b]) blank_stat w
      = Done ((if linked (db w) a rel b then None else Some ENOENT, out), w')"
    using relation_path_exists[of env w a b rel st blank_stat] flat_name_components(2)[OF assms(2,3)] assms st
    by (auto simp: served_def flat_name_def relation_name_def linked_def flat_id_def)
  then show ?thesis by (simp add: found_def)
qed

lemma relation_tree_any:
  assumes "flat_name a" "flat_name b" "relation_name rel"
  shows "tagsistant_querytree_new env (path_of [''relations'', a, rel, b]) True True dr w
    = Done ((relation_tree [''relations'', a, rel, b] a rel b)\<lparr>q_transaction_started := True\<rparr>, tagsistant_db_connection True w)"
  using relation_tree_writer[OF flat_name_components(2)[OF assms(1,2)]] assms by (simp add: flat_name_def relation_name_def)

lemma served_relations:
  assumes "served env w" "tags (db w') = tags (db w)" "tags_seq (db w') = tags_seq (db w)" "db_ok (db w')"
    "tag_cache w' = tag_cache w" "fs w' = fs w"
  shows "served env w'" "flat_id (db w') n = flat_id (db w) n"
proof -
  have id: "tag_id_of (db w') = tag_id_of (db w)" by (rule tag_id_of_tags) (rule assms(2))
  show "served env w'" using assms unfolding served_def store_inv_def tags_plain_def cache_coherent_def id by simp
  show "flat_id (db w') n = flat_id (db w) n" by (simp add: flat_id_def id)
qed

lemma mkdir_relation:
  assumes "served env w" "flat_name a" "flat_name b" "relation_name rel" "flat_id (db w) a \<noteq> 0" "flat_id (db w) b \<noteq> 0"
  shows "\<exists>w'. tagsistant_mkdir env (path_of [''relations'', a, rel, b]) mode w = Done (None, w')
    \<and> served env w' \<and> (\<forall>n. flat_id (db w') n = flat_id (db w) n)
    \<and> (\<forall>i r j. has_relation i r j (db w') \<longleftrightarrow>
         (i, r, j) = (sint (flat_id (db w) a), rel, sint (flat_id (db w) b)) \<or> has_relation i r j (db w))"
proof -
  let ?q = "(relation_tree [''relations'', a, rel, b] a rel b)\<lparr>q_transaction_started := True\<rparr>"
  let ?w1 = "tagsistant_db_connection True w"
  let ?g1 = "tagsistant_sql_get_tag_id env True (Some a) None None ?w1"
  let ?g2 = "tagsistant_sql_get_tag_id env True (Some b) None None (snd ?g1)"
  have s1: "served env ?w1" using assms(1) by simp
  note A = served_get[OF s1 assms(2)]
  note B = served_get[OF A(2) assms(3)]
  have i: "fst ?g1 = flat_id (db w) a" "fst ?g2 = flat_id (db w) b" "db (snd ?g2) = db w" using A B by simp_all
  let ?w2 = "sql_exec True (insert_relation (sint (fst ?g1)) (sint (fst ?g2)) rel) (snd ?g2)"
  let ?w' = "tagsistant_querytree_destroy env ?q True ?w2"
  have q: "q_first_tag ?q = Some a" "q_second_tag ?q = Some b" "q_relation ?q = Some rel" "q_dbi ?q" "q_type ?q = QTYPE_RELATIONS"
    "\<not> q_points_to_object ?q" "\<not> q_schedule_for_unlink ?q"
    by (simp_all add: relation_tree_def new_querytree_def)
  have v: "IS_VALID_RELATION (Some rel)" using assms(4) by (auto simp: relation_name_def IS_VALID_RELATION_def)
  have "mkdir_body mode env ?q ?w1 = Done (Exit_ok, ?q, ?w2)"
    using assms(5,6) i v by (simp add: mkdir_body_def mkdir_relations_def q get_or_create_def Let_def split_beta
        printf_s_def del: connection_simps)
  then have run: "tagsistant_mkdir env (path_of [''relations'', a, rel, b]) mode w = Done (None, ?w')"
    unfolding tagsistant_mkdir_def run_operation_def relation_tree_any[OF assms(2-4)] by (simp add: exit_operation_def)
  have d: "db ?w' = insert_relation (sint (flat_id (db w) a)) (sint (flat_id (db w) b)) rel (db w)" using i by simp
  have ok: "db_ok (db ?w')" using assms(1) unfolding d by (simp add: served_def store_inv_def db_ok_statements)
  have "served env ?w'"
    by (rule served_relations(1)[OF B(2)]) (use d i ok q in \<open>simp_all add: insert_relation_def\<close>)
  moreover have "flat_id (db ?w') n = flat_id (db w) n" for n
    by (simp add: d flat_id_def tag_id_of_def insert_relation_def)
  moreover have "has_relation x r y (db ?w') \<longleftrightarrow>
      (x, r, y) = (sint (flat_id (db w) a), rel, sint (flat_id (db w) b)) \<or> has_relation x r y (db w)" for x r y
    unfolding d by (auto simp: insert_relation_def has_relation_def)
  ultimately show ?thesis using run by blast
qed

lemma rmdir_relation:
  assumes "served env w" "flat_name a" "flat_name b" "relation_name rel" "flat_id (db w) a \<noteq> 0" "flat_id (db w) b \<noteq> 0"
  shows "\<exists>w'. tagsistant_rmdir env (path_of [''relations'', a, rel, b]) w = Done (None, w')
    \<and> served env w' \<and> (\<forall>n. flat_id (db w') n = flat_id (db w) n)
    \<and> (\<forall>i r j. has_relation i r j (db w') \<longleftrightarrow>
         (i, r, j) \<noteq> (sint (flat_id (db w) a), rel, sint (flat_id (db w) b)) \<and> has_relation i r j (db w))"
proof -
  let ?q = "(relation_tree [''relations'', a, rel, b] a rel b)\<lparr>q_transaction_started := True\<rparr>"
  let ?w1 = "tagsistant_db_connection True w"
  let ?g1 = "tagsistant_sql_get_tag_id env True (Some a) None None ?w1"
  let ?g2 = "tagsistant_sql_get_tag_id env True (Some b) None None (snd ?g1)"
  have s1: "served env ?w1" using assms(1) by simp
  note A = served_get[OF s1 assms(2)]
  note B = served_get[OF A(2) assms(3)]
  have i: "fst ?g1 = flat_id (db w) a" "fst ?g2 = flat_id (db w) b" "db (snd ?g2) = db w" using A B by simp_all
  let ?w2 = "sql_exec True (delete_relation (sint (fst ?g1)) (sint (fst ?g2)) rel) (snd ?g2)"
  let ?w' = "tagsistant_querytree_destroy env ?q True ?w2"
  have q: "q_first_tag ?q = Some a" "q_second_tag ?q = Some b" "q_relation ?q = Some rel" "q_dbi ?q" "q_type ?q = QTYPE_RELATIONS"
    "\<not> q_schedule_for_unlink ?q"
    by (simp_all add: relation_tree_def new_querytree_def)
  have v: "IS_VALID_RELATION (Some rel)" using assms(4) by (auto simp: relation_name_def IS_VALID_RELATION_def)
  have "rmdir_body env ?q ?w1 = Done (Exit_ok, ?q, ?w2)"
    using assms(5,6) i v by (simp add: rmdir_body_def rmdir_relations_def q Let_def split_beta
        printf_s_def del: connection_simps)
  then have run: "tagsistant_rmdir env (path_of [''relations'', a, rel, b]) w = Done (None, ?w')"
    unfolding tagsistant_rmdir_def run_operation_def relation_tree_any[OF assms(2-4)] by (simp add: exit_operation_def)
  have d: "db ?w' = delete_relation (sint (flat_id (db w) a)) (sint (flat_id (db w) b)) rel (db w)" using i by simp
  have ok: "db_ok (db ?w')" using assms(1) unfolding d by (simp add: served_def store_inv_def db_ok_statements)
  have "served env ?w'"
    by (rule served_relations(1)[OF B(2)]) (use d i ok q in \<open>simp_all add: delete_relation_def\<close>)
  moreover have "flat_id (db ?w') n = flat_id (db w) n" for n
    by (simp add: d flat_id_def tag_id_of_def delete_relation_def)
  moreover have "has_relation x r y (db ?w') \<longleftrightarrow>
      (x, r, y) \<noteq> (sint (flat_id (db w) a), rel, sint (flat_id (db w) b)) \<and> has_relation x r y (db w)" for x r y
    unfolding d by (auto simp: delete_relation_def has_relation_def)
  ultimately show ?thesis using run by blast
qed

text \<open>C13: A relation lives from its mkdir to its rmdir: between two tags that exist both requests succeed, after
  the first getattr finds \<^verbatim>\<open>relations/a/rel/b\<close> and every relation it found before and no other, and
  after the second everything it found before but that one, for all three relations.\<close>

theorem relation_directory_lifecycle:
  assumes "served env w" "flat_name a" "flat_name b" "relation_name rel" "flat_name c" "flat_name e" "relation_name rel'"
    and t: "found env (path_of [''tags'', a]) w" "found env (path_of [''tags'', b]) w"
  shows "\<exists>w1 w2. tagsistant_mkdir env (path_of [''relations'', a, rel, b]) mode w = Done (None, w1)
    \<and> tagsistant_rmdir env (path_of [''relations'', a, rel, b]) w1 = Done (None, w2)
    \<and> (found env (path_of [''relations'', c, rel', e]) w1 \<longleftrightarrow>
         (c, rel', e) = (a, rel, b) \<or> found env (path_of [''relations'', c, rel', e]) w)
    \<and> (found env (path_of [''relations'', c, rel', e]) w2 \<longleftrightarrow>
         (c, rel', e) \<noteq> (a, rel, b) \<and> found env (path_of [''relations'', c, rel', e]) w)"
proof -
  have t: "flat_id (db w) a \<noteq> 0" "flat_id (db w) b \<noteq> 0" using t tag_found[OF assms(1)] assms(2,3) by simp_all
  obtain w1 where 1: "tagsistant_mkdir env (path_of [''relations'', a, rel, b]) mode w = Done (None, w1)" "served env w1"
      "\<forall>n. flat_id (db w1) n = flat_id (db w) n"
      "\<forall>i r j. has_relation i r j (db w1) \<longleftrightarrow>
         (i, r, j) = (sint (flat_id (db w) a), rel, sint (flat_id (db w) b)) \<or> has_relation i r j (db w)"
    using mkdir_relation[OF assms(1-4) t] by blast
  obtain w2 where 2: "tagsistant_rmdir env (path_of [''relations'', a, rel, b]) w1 = Done (None, w2)" "served env w2"
      "\<forall>n. flat_id (db w2) n = flat_id (db w) n"
      "\<forall>i r j. has_relation i r j (db w2) \<longleftrightarrow>
         (i, r, j) \<noteq> (sint (flat_id (db w) a), rel, sint (flat_id (db w) b)) \<and> has_relation i r j (db w1)"
    using rmdir_relation[OF 1(2) assms(2-4)] t 1(3) by auto
  have inj: "x = y" if "flat_id (db w) x \<noteq> 0" "sint (flat_id (db w) x) = sint (flat_id (db w) y)" for x y
    using flat_id_inj[of "db w" x y] that assms(1) by (simp add: served_def store_inv_def tags_plain_def)
  have same: "(sint (flat_id (db w) c), rel', sint (flat_id (db w) e)) = (sint (flat_id (db w) a), rel, sint (flat_id (db w) b))
      \<longleftrightarrow> (c, rel', e) = (a, rel, b)"
    using inj[of a c] inj[of b e] t by auto
  have l1: "linked (db w1) c rel' e \<longleftrightarrow> (c, rel', e) = (a, rel, b) \<or> linked (db w) c rel' e"
    using 1(3,4) t same by (auto simp: linked_def)
  have l2: "linked (db w2) c rel' e \<longleftrightarrow> (c, rel', e) \<noteq> (a, rel, b) \<and> linked (db w) c rel' e"
    using 1(4) 2(3,4) same by (auto simp: linked_def)
  show ?thesis using 1(1,2) 2(1,2) l1 l2 relation_found[OF _ assms(5,6,7)] assms(1) by auto
qed


subsection \<open>Concrete instances\<close>

lemma served_sample: "db_ok d \<Longrightarrow> tags_plain d \<Longrightarrow> served sample_env (sample_world d [''/r/archive/''])"
  by (simp add: served_def) (simp add: sample_env_def sample_os_def sample_touch_def)

lemma flat_name_letters: "flat_name ''a''" "flat_name ''b''"
  by (simp_all add: flat_name_def plain_def triple_token_eval)

lemma one_way_facts: "db_ok one_way" "tags_plain one_way" "flat_id one_way ''a'' = 1" "flat_id one_way ''b'' = 2" "tags_seq one_way = 2"
proof -
  have t: "tags one_way = [\<lparr>tr_id = 1, tr_name = ''a'', tr_key = '''', tr_value = ''''\<rparr>, \<lparr>tr_id = 2, tr_name = ''b'', tr_key = '''', tr_value = ''''\<rparr>]"
    "tags_seq one_way = 2"
    by (simp_all add: one_way_def empty_db_def insert_tag_def insert_relation_def tag_triple_def)
  show "db_ok one_way" by (simp add: one_way_def db_ok_statements db_ok_empty)
  show "tags_plain one_way" by (simp add: tags_plain_def plain_def t triple_token_eval)
  show "flat_id one_way ''a'' = 1" "flat_id one_way ''b'' = 2" by (simp_all add: flat_id_def tag_id_of_def t tag_triple_def)
  show "tags_seq one_way = 2" by (rule t)
qed

theorem tag_directory_lifecycle_witness:
  "\<exists>w1 w2. tagsistant_mkdir sample_env ''/tags/c'' 493 (sample_world one_way [''/r/archive/'']) = Done (None, w1)
    \<and> tagsistant_rmdir sample_env ''/tags/c'' w1 = Done (None, w2)
    \<and> found sample_env ''/tags/a'' w1 \<and> found sample_env ''/tags/a'' w2"
proof -
  have c: "flat_name ''c''" by (simp add: flat_name_def plain_def triple_token_eval)
  let ?w = "sample_world one_way [''/r/archive/'']"
  have s: "served sample_env ?w" by (rule served_sample[OF one_way_facts(1,2)])
  have "found sample_env (path_of [''tags'', ''a'']) ?w" using tag_found[OF s flat_name_letters(1)] by (simp add: one_way_facts)
  moreover have "store_room ?w" by (simp add: store_room_def one_way_facts)
  ultimately show ?thesis using tag_directory_lifecycle[OF s _ c flat_name_letters(1), of 493] by auto
qed

theorem relation_directory_lifecycle_witness:
  "\<exists>w1 w2. tagsistant_mkdir sample_env ''/relations/b/includes/a'' 493 (sample_world one_way [''/r/archive/'']) = Done (None, w1)
    \<and> tagsistant_rmdir sample_env ''/relations/b/includes/a'' w1 = Done (None, w2)
    \<and> found sample_env ''/relations/b/includes/a'' w1 \<and> \<not> found sample_env ''/relations/b/includes/a'' w2"
proof -
  let ?w = "sample_world one_way [''/r/archive/'']"
  have s: "served sample_env ?w" by (rule served_sample[OF one_way_facts(1,2)])
  have t: "found sample_env (path_of [''tags'', ''a'']) ?w" "found sample_env (path_of [''tags'', ''b'']) ?w"
    using tag_found[OF s] flat_name_letters by (simp_all add: one_way_facts)
  have "relation_name ''includes''" by (simp add: relation_name_def)
  then show ?thesis
    using relation_directory_lifecycle[OF s flat_name_letters(2,1) _ flat_name_letters(2,1) _ t(2,1), of "''includes''" "''includes''" 493] by auto
qed


subsection \<open>Names after a triple tag\<close>

definition after_triple :: "string \<Rightarrow> string \<Rightarrow> string \<Rightarrow> string \<Rightarrow> string list" where
  "after_triple ns k v n = [''store'', ns, k, ''eq'', v, n]"

definition after_triple_tree :: "database \<Rightarrow> bool \<Rightarrow> string \<Rightarrow> string \<Rightarrow> string \<Rightarrow> string \<Rightarrow> querytree" where
  "after_triple_tree d st ns k v n = (new_querytree (path_of (after_triple ns k v n)))\<lparr>q_dbi := True, q_transaction_started := st,
     q_type := QTYPE_STORE, q_valid := True, q_namespace := Some ns, q_key := Some k, q_value := Some v,
     q_operator := TAGSISTANT_EQUAL_TO, q_last_tag := Some n,
     q_tree := [[And_node (atom_data d False (Triple ns k TAGSISTANT_EQUAL_TO v)) None None, And_node (atom_data d False (Flat n)) None None]]\<rparr>"

text \<open>The first name of a store path after a triple tag, which the parser leaves in the query tree.\<close>

definition triple_path_ok :: "string \<Rightarrow> string \<Rightarrow> string \<Rightarrow> string \<Rightarrow> bool" where
  "triple_path_ok ns k v n \<longleftrightarrow> components_ok (after_triple ns k v n) \<and> is_triple_token ns \<and> plain ns \<and> plain k \<and>
     flat_name n \<and> n \<notin> {''-'', ''+'', ''{'', ''}'', ''ALL''} \<and> \<not> prefix ''='' n"

lemma hd_not_at: "s \<noteq> '''' \<Longrightarrow> \<not> prefix ''@'' s \<Longrightarrow> hd s \<noteq> CHR ''@''"
  by (cases s) simp_all

lemma after_triple_new:
  assumes "served env w" "triple_path_ok ns k v n"
  shows "\<exists>w1. tagsistant_querytree_new env (path_of (after_triple ns k v n)) st True False w
      = Done (after_triple_tree (db w) st ns k v n, w1)
    \<and> served env w1 \<and> db w1 = db w \<and> same_frame (tagsistant_db_connection st w) w1"
proof -
  let ?w0 = "tagsistant_db_connection st w"
  have s0: "served env ?w0" using assms(1) by simp
  then have w0: "store_inv env ?w0" "tags_plain (db ?w0)" "served env ?w0" unfolding served_def by blast+
  have t: "is_triple_token ns" "plain_key (ns, k, v)" "flat_name n" "n \<notin> {''-'', ''+'', ''{'', ''}''}"
    and c: "components_ok (''store'' # [ns, k, ''eq'', v, n])"
    using assms(2) by (simp_all add: triple_path_ok_def plain_key_def after_triple_def)
  have "\<not> prefix ''@'' ns" using c by (simp add: components_ok_def)
  with t triple_token_nonempty[OF t(1)]
  have ns: "is_triple_token ns" "plain_key (ns, k, v)" "ns \<notin> {'''', ''-'', ''+'', ''{'', ''}''}" "hd ns \<noteq> CHR ''@''"
    by (simp_all add: hd_not_at)
  have n: "plain n" "\<not> is_triple_token n" "n \<notin> {'''', ''-'', ''+'', ''{'', ''}''}" "hd n \<noteq> CHR ''@''"
    using t(3,4) by (simp_all add: flat_name_def hd_not_at)
  let ?q = "(new_querytree (path_of (after_triple ns k v n)))\<lparr>q_dbi := True, q_transaction_started := st, q_type := QTYPE_STORE\<rparr>"
  let ?q1 = "?q\<lparr>q_valid := True\<rparr>"
  let ?s = "\<lparr>ps_qtree = ?q1, ps_done = [], ps_cur = [], ps_group = TAG_GROUP_DONT_ADD\<rparr>"
  let ?g = "tagsistant_sql_get_tag_id env True (Some ns) (Some k) (Some v) ?w0"
  note G = get_exact[OF w0(1) ns(2)]
  let ?nd = "And_node (atom_data (db w) False (Triple ns k TAGSISTANT_EQUAL_TO v)) None None"
  let ?q2 = "?q1\<lparr>q_namespace := Some ns, q_key := Some k, q_value := Some v, q_operator := TAGSISTANT_EQUAL_TO\<rparr>"
  have "store_token env ns [k, ''eq'', v, n] ?s ?w0 = Done (Inr (?s\<lparr>ps_qtree := ?q2, ps_cur := [?nd]\<rparr>, [v, n]), snd ?g)"
    using ns G(1) by (simp add: store_token_def store_tag_def store_triple_def store_operator_def parse_operator_def store_place_def
        store_reason_def Let_def split_beta new_querytree_def new_and_data_def)
  then have 1: "parse_store_loop env [ns, k, ''eq'', v, n] ?s ?w0
      = parse_store_loop env [n] (?s\<lparr>ps_qtree := ?q2\<lparr>q_last_tag := Some v\<rparr>, ps_cur := [?nd]\<rparr>) (snd ?g)"
    using loop_step[of ns env "[k, ''eq'', v, n]" ?s ?w0 _ v "[n]"] ns(4) by simp
  let ?s2 = "?s\<lparr>ps_qtree := ?q2\<lparr>q_last_tag := Some v\<rparr>, ps_cur := [?nd]\<rparr>"
  have i2: "store_inv env (snd ?g)" using w0(1) G(2) by (simp add: store_inv_def)
  have f2: "fs (snd ?g) = fs ?w0" using same_frame_get_tag_id[of ?w0 env True "Some ns" "Some k" "Some v"] by (simp add: same_frame_def)
  have s2: "served env (snd ?g)" using i2 w0 f2 by (simp add: served_def)
  let ?h = "tagsistant_sql_get_tag_id env True (Some n) None None (snd ?g)"
  have fn: "flat_name n" using assms(2) by (simp add: triple_path_ok_def)
  note H = served_get[OF s2 fn]
  let ?nd2 = "And_node (atom_data (db w) False (Flat n)) None None"
  have "store_token env n [] ?s2 (snd ?g) = Done (Inr (?s2\<lparr>ps_cur := [?nd, ?nd2]\<rparr>, [n]), snd ?h)"
    using n H(1) by (simp add: store_token_def store_tag_def store_place_def store_reason_def Let_def split_beta new_querytree_def
        new_and_data_def flat_id_def)
  then have 2: "parse_store_loop env [n] ?s2 (snd ?g)
      = parse_store_loop env [] (?s2\<lparr>ps_cur := [?nd, ?nd2], ps_qtree := (ps_qtree ?s2)\<lparr>q_last_tag := Some n\<rparr>\<rparr>) (snd ?h)"
    using loop_step[of n env "[]" ?s2 "snd ?g" _ n "[]"] n(4) by simp
  have 3: "parse_store_loop env [] s x = Done ((True, finish_store s, []), x)" for s and x :: "'a world"
    by (subst parse_store_loop.simps) simp
  have no: "\<not> strstr ''/@'' (path_of (after_triple ns k v n))"
    using c by (intro no_query_delimiter) (simp add: components_ok_def after_triple_def)
  have parse: "parse_tokens env ?q [ns, k, ''eq'', v, n] False ?w0
      = Done ((True, after_triple_tree (db w) st ns k v n, []), snd ?h)"
    using 1 2 3 no by (simp add: parse_tokens_def tagsistant_querytree_parse_store_def Let_def finish_store_def after_triple_tree_def
        new_querytree_def del: path_of_simps)
  have g: "guess_type ''store'' = QTYPE_STORE" by (simp add: guess_type_def)
  have "tagsistant_querytree_new env (path_of (after_triple ns k v n)) st True False w
      = Done (after_triple_tree (db w) st ns k v n, snd ?h)"
    using parse unfolding after_triple_def querytree_new_eval[OF c]
    by (simp add: Let_def g resolve_object_def points_to_object_def qtree_return_def after_triple_tree_def after_triple_def new_querytree_def
        del: path_of_simps)
  moreover have "same_frame ?w0 (snd ?h)" by (meson same_frame_get_tag_id same_frame_trans)
  ultimately show ?thesis using H(2) by auto
qed

lemma found_after_triple:
  assumes "served env w" "triple_path_ok ns k v n" "tag_id_of (db w) (ns, k, v) \<noteq> 0"
  shows "found env (path_of (after_triple ns k v n)) w"
proof -
  let ?p = "path_of (after_triple ns k v n)"
  have fn: "flat_name n" and pk: "plain_key (ns, k, v)" and l1: "n \<notin> {''-'', ''+'', ''{'', ''}'', ''ALL''}" "\<not> prefix ''='' n"
    using assms(2) by (simp_all add: triple_path_ok_def plain_key_def)
  have "hd n \<noteq> CHR ''@''" using fn by (simp add: flat_name_def hd_not_at)
  then have "n \<noteq> ''@''" "n \<noteq> ''@@''" by auto
  then have l: "n \<notin> {''ALL'', ''+'', ''-'', ''@'', ''@@'', ''{'', ''}''}" "\<not> prefix ''='' n" using l1 by simp_all
  obtain w1 where 1: "tagsistant_querytree_new env ?p False True False w = Done (after_triple_tree (db w) False ns k v n, w1)"
      "served env w1" "db w1 = db w"
    using after_triple_new[OF assms(1,2), of False] by auto
  let ?q = "after_triple_tree (db w) False ns k v n"
  have q: "q_type ?q = QTYPE_STORE" "q_error_message ?q = None" "\<not> q_points_to_object ?q" "q_last_tag ?q = Some n"
    "q_namespace ?q = Some ns" "q_key ?q = Some k" "q_value ?q = Some v" "q_dbi ?q"
    by (simp_all add: after_triple_tree_def new_querytree_def)
  obtain st where st: "os_lstat (sys env) (Some (archive env)) (fs w1) = Inr st" using 1(2) by (auto simp: served_def)
  have id: "fst (tagsistant_sql_get_tag_id env True (Some ns) (Some k) (Some v) w1) \<noteq> 0"
    using get_exact(1)[OF _ pk, of env w1] 1(2,3) assms(3) by (simp add: served_def)
  then have post: "\<exists>st2 w2. getattr_post env ?q st w1 = (Inr st2, w2)"
    using l by (simp add: getattr_post_def post_store_def q post_store_tag_def Let_def split_beta)
  have path: "getattr_path ?p env ?q w1 = Done (Inr (Some (archive env)), ?q, w1)"
    by (simp add: getattr_path_def q del: path_of_simps)
  show ?thesis
    using 1(1) path st post
    by (auto simp: found_def tagsistant_getattr_def run_reader_def getattr_body_def leave_reader_def exit_operation_def Let_def
        simp del: path_of_simps)
qed

lemma mkdir_after_triple:
  assumes "served env w" "triple_path_ok ns k v n" "tag_id_of (db w) (ns, k, v) \<noteq> 0" "flat_id (db w) n = 0"
  shows "\<exists>w'. tagsistant_mkdir env (path_of (after_triple ns k v n)) mode w = Done (None, w') \<and> db w' = db w
    \<and> \<not> found env (path_of [''tags'', n]) w'"
proof -
  let ?p = "path_of (after_triple ns k v n)"
  have fn: "flat_name n" using assms(2) by (simp add: triple_path_ok_def)
  obtain w1 where 1: "tagsistant_querytree_new env ?p True True False w = Done (after_triple_tree (db w) True ns k v n, w1)"
      "served env w1" "db w1 = db w"
    using after_triple_new[OF assms(1,2), of True] by auto
  let ?q = "after_triple_tree (db w) True ns k v n"
  have q: "q_type ?q = QTYPE_STORE" "\<not> q_points_to_object ?q" "q_namespace ?q = Some ns" "q_key ?q = Some k" "q_value ?q = Some v"
    "q_dbi ?q" "\<not> q_schedule_for_unlink ?q"
    by (simp_all add: after_triple_tree_def new_querytree_def)
  let ?w2 = "tagsistant_sql_create_tag True (Some ns) (Some k) (Some v) w1"
  let ?w' = "tagsistant_querytree_destroy env ?q True ?w2"
  have "(ns, k, v) \<in> set (map tag_triple (tags (db w)))"
    using tag_id_of_other[OF _ assms(3)] assms(1) by (simp add: served_def store_inv_def)
  then have w2: "?w2 = w1" by (simp add: tagsistant_sql_create_tag_def insert_tag_def sql_exec_def 1(3))
  have "tagsistant_mkdir env ?p mode w = Done (None, ?w')"
    by (simp add: tagsistant_mkdir_def run_operation_def 1(1) mkdir_body_def q mkdir_store_def exit_operation_def del: path_of_simps)
  moreover have "served env ?w'" using 1(2) q(7) by (simp only: w2 served_destroy not_False_eq_True)
  moreover have "db ?w' = db w" using 1(3) by (simp only: w2 destroy_simps)
  ultimately show ?thesis
    using tag_found[OF _ fn, of env ?w'] assms(4) by (intro exI[of _ ?w']) simp
qed

text \<open>C31: After a triple tag every name exists. The parser keeps the names of the triple tag in the query
  tree, and getattr and mkdir look at them before the last tag: when the triple is in the table, getattr
  finds \<^verbatim>\<open>store/ns:/k/eq/v/n\<close> for every name \<open>n\<close>, mkdir of it succeeds and changes
  no table, and after it the tag \<open>n\<close> still does not exist in \<^verbatim>\<open>tags/\<close>.\<close>

theorem names_after_triple_exist:
  assumes "served env w" "triple_path_ok ns k v n" "tag_id_of (db w) (ns, k, v) \<noteq> 0" "flat_id (db w) n = 0"
  shows "found env (path_of (after_triple ns k v n)) w
    \<and> (\<exists>w'. tagsistant_mkdir env (path_of (after_triple ns k v n)) mode w = Done (None, w') \<and> db w' = db w
         \<and> \<not> found env (path_of [''tags'', n]) w')"
  using found_after_triple[OF assms(1-3)] mkdir_after_triple[OF assms] by blast


theorem names_after_triple_exist_witness:
  "found sample_env ''/store/t:/k/eq/v/b'' (sample_world one_triple_tag [''/r/archive/''])
   \<and> (\<exists>w'. tagsistant_mkdir sample_env ''/store/t:/k/eq/v/b'' 493 (sample_world one_triple_tag [''/r/archive/'']) = Done (None, w')
        \<and> db w' = one_triple_tag \<and> \<not> found sample_env ''/tags/b'' w')"
proof -
  have s: "served sample_env (sample_world one_triple_tag [''/r/archive/''])" by (rule served_sample) simp_all
  have p: "triple_path_ok ''t:'' ''k'' ''v'' ''b''"
    by (simp add: triple_path_ok_def components_ok_def after_triple_def flat_name_def plain_def triple_token_eval)
  show ?thesis using names_after_triple_exist[OF s p, of 493] by (simp add: after_triple_def flat_id_def)
qed

end
