(* ===== verification/File_Lifecycle.thy ===== *)
theory File_Lifecycle
  imports Directory_Lifecycle
begin

section \<open>The life of a file\<close>

text \<open>
  A file of \<^verbatim>\<open>store/\<close> from its mknod through getattr to its unlink, each request the whole way
  through path resolution, the tables and the file system: the file is found under exactly the
  conjunctions of its tags. The paths are those of flat tags without reasoning, which end with
  \<^verbatim>\<open>@@\<close> and the name of the file.
\<close>

subsection \<open>The query tree of a file\<close>

definition tag_token :: "string \<Rightarrow> bool" where
  "tag_token t \<longleftrightarrow> flat_name t \<and> CHR ''='' \<notin> set t \<and> t \<notin> {''-'', ''+'', ''{'', ''}'', ''ALL''}"

definition tag_tokens :: "string list \<Rightarrow> bool" where
  "tag_tokens ts \<longleftrightarrow> ts \<noteq> [] \<and> length ts \<le> 500 \<and> (\<forall>t \<in> set ts. tag_token t)"

definition file_name :: "'fs env \<Rightarrow> string \<Rightarrow> bool" where
  "file_name env f \<longleftrightarrow> f \<noteq> '''' \<and> CHR ''/'' \<notin> set f \<and> CHR ''='' \<notin> set f \<and> f \<noteq> ''ALL'' \<and> f \<noteq> ''ALL'' @ newline \<and>
     inode_rx_1 f = None \<and> CHR ''/'' \<notin> set (tags_suffix env) \<and> \<not> suffix (tags_suffix env) f"

definition file_path :: "string list \<Rightarrow> string \<Rightarrow> string" where
  "file_path ts f = path_of (''store'' # ts @ [''@@'', f])"

definition flat_node :: "database \<Rightarrow> string \<Rightarrow> qtree_and_node" where
  "flat_node d t = And_node (new_and_data\<lparr>an_tag := Some t, an_tag_id := flat_id d t\<rparr>) None None"

lemma tag_token_step:
  assumes "tag_token t" "store_inv env w" "tags_plain (db w)" "q_dbi (ps_qtree s)" "\<not> q_do_reasoning (ps_qtree s)"
    "\<not> q_negate_next_tag (ps_qtree s)" "ps_group s = TAG_GROUP_DONT_ADD"
  shows "\<exists>w1. parse_store_loop env (t # ts) s w
      = parse_store_loop env ts (s\<lparr>ps_cur := ps_cur s @ [flat_node (db w) t], ps_qtree := (ps_qtree s)\<lparr>q_last_tag := Some t\<rparr>\<rparr>) w1
    \<and> store_inv env w1 \<and> db w1 = db w \<and> same_frame w w1"
proof -
  let ?g = "tagsistant_sql_get_tag_id env True (Some t) None None w"
  have t: "plain t" "\<not> is_triple_token t" "t \<noteq> ''''" "hd t \<noteq> CHR ''@''" "t \<notin> {'''', ''-'', ''+'', ''{'', ''}''}"
    using assms(1) by (auto simp: tag_token_def flat_name_def neq_Nil_conv)
  note g = flat_get[OF assms(2,3) t(1,2)]
  have "store_token env t ts s w
      = Done (Inr (s\<lparr>ps_cur := ps_cur s @ [flat_node (db w) t]\<rparr>, t # ts), snd ?g)"
    using assms(4-7) t g by (simp add: store_token_def store_tag_def store_place_def store_reason_def Let_def split_beta
        flat_node_def flat_id_def)
  then have "parse_store_loop env (t # ts) s w
      = parse_store_loop env ts (s\<lparr>ps_cur := ps_cur s @ [flat_node (db w) t], ps_qtree := (ps_qtree s)\<lparr>q_last_tag := Some t\<rparr>\<rparr>) (snd ?g)"
    using loop_step[of t env ts s w _ t ts] t(4) by simp
  then show ?thesis using g(2) by auto
qed

lemma tag_tokens_loop:
  assumes "\<forall>t \<in> set ts. tag_token t" "store_inv env w" "tags_plain (db w)" "q_dbi (ps_qtree s)" "\<not> q_do_reasoning (ps_qtree s)"
    "\<not> q_negate_next_tag (ps_qtree s)" "ps_group s = TAG_GROUP_DONT_ADD"
  shows "\<exists>w1. parse_store_loop env (ts @ ''@@'' # rest) s w
      = Done ((True, (ps_qtree s)\<lparr>q_last_tag := (if ts = [] then q_last_tag (ps_qtree s) else Some (last ts)),
          q_tree := ps_done s @ [ps_cur s @ map (flat_node (db w)) ts]\<rparr>, rest), w1)
    \<and> store_inv env w1 \<and> db w1 = db w \<and> same_frame w w1"
  using assms
proof (induction ts arbitrary: s w)
  case Nil
  have "parse_store_loop env (''@@'' # rest) s w = Done ((True, finish_store s, rest), w)"
    by (subst parse_store_loop.simps) simp
  then show ?case using Nil by (auto simp: finish_store_def)
next
  case (Cons t ts)
  let ?s = "s\<lparr>ps_cur := ps_cur s @ [flat_node (db w) t], ps_qtree := (ps_qtree s)\<lparr>q_last_tag := Some t\<rparr>\<rparr>"
  obtain w1 where 1: "parse_store_loop env (t # ts @ ''@@'' # rest) s w = parse_store_loop env (ts @ ''@@'' # rest) ?s w1"
      "store_inv env w1" "db w1 = db w" "same_frame w w1"
    using tag_token_step[of t env w s "ts @ ''@@'' # rest"] Cons.prems by auto
  obtain w2 where 2: "parse_store_loop env (ts @ ''@@'' # rest) ?s w1
      = Done ((True, (ps_qtree ?s)\<lparr>q_last_tag := (if ts = [] then q_last_tag (ps_qtree ?s) else Some (last ts)),
          q_tree := ps_done ?s @ [ps_cur ?s @ map (flat_node (db w1)) ts]\<rparr>, rest), w2)"
      "store_inv env w2" "db w2 = db w1" "same_frame w1 w2"
    using Cons.IH[of w1 ?s] Cons.prems 1(2,3) by auto
  then show ?case using 1 same_frame_trans[OF 1(4) 2(4)] by auto
qed


text \<open>The tree of a path whose lookup gives the inode \<open>i\<close>.\<close>

definition object_file :: "'fs env \<Rightarrow> tagsistant_inode \<Rightarrow> string \<Rightarrow> string" where
  "object_file env i f = archive_hierarchy env i @ ''/'' @ fmt_d i @ ''___'' @ f"

definition file_tree :: "'fs env \<Rightarrow> string list \<Rightarrow> string \<Rightarrow> bool \<Rightarrow> database \<Rightarrow> tagsistant_inode \<Rightarrow> querytree" where
  "file_tree env ts f st d i = (new_querytree (file_path ts f))\<lparr>q_dbi := True, q_transaction_started := st, q_type := QTYPE_STORE,
     q_complete := True, q_valid := True, q_last_tag := Some (last ts), q_tree := [map (flat_node d) ts], q_object_path := Some f,
     q_inode := i, q_points_to_object := True,
     q_archive_path := (if i = 0 then None else Some (fmt_d i @ ''___'' @ f)),
     q_full_archive_path := (if i = 0 then None else Some (object_file env i f))\<rparr>"

lemma compress_same:
  "\<forall>t \<in> set ts. t \<noteq> '''' \<and> CHR ''/'' \<notin> set t \<Longrightarrow> compress_slashes (path_of ts) = path_of ts"
proof -
  assume a: "\<forall>t \<in> set ts. t \<noteq> '''' \<and> CHR ''/'' \<notin> set t"
  have *: "compress_slashes (c # s) = c # s" if "\<not> sublist ''//'' (c # s)" for c s
    using that
  proof (induction "c # s" arbitrary: c s rule: compress_slashes.induct)
    case (1 c d s)
    then have "\<not> sublist ''//'' (d # s)" by (meson sublist_Cons_right)
    moreover have "\<not> (c = CHR ''/'' \<and> d = CHR ''/'')" using 1 by auto
    ultimately show ?case using 1(2) by auto
  qed simp
  have "\<not> sublist ''//'' (u @ path_of ts)" if "CHR ''/'' \<notin> set u" for u
    using a that
  proof (induction ts arbitrary: u)
    case Nil
    then show ?case by (auto simp: sublist_def)
  next
    case (Cons t ts)
    have n: "\<not> sublist ''//'' (t @ path_of ts)" using Cons by simp
    have h: "t \<noteq> ''''" "hd t \<noteq> CHR ''/''" using Cons.prems(1) by (auto simp: neq_Nil_conv)
    have "\<not> sublist ''//'' (CHR ''/'' # t @ path_of ts)"
      using n h by (cases t) (auto simp: sublist_Cons_right)
    then show ?case using Cons.prems(2)
      by (induction u) (auto simp: sublist_Cons_right)
  qed
  from this[of "[]"] show ?thesis using * by (cases ts) simp_all
qed

lemma file_tokens:
  assumes "tag_tokens ts" "file_name env f"
  shows "tl (g_strsplit (CHR ''/'') 512 (file_path ts f)) = ''store'' # ts @ [''@@'', f]"
    and "strstr ''/@'' (file_path ts f)" "strstr ''/@@'' (file_path ts f)"
    and "tagsistant_expand_path env conn w (file_path ts f) = Done (file_path ts f)"
proof -
  let ?c = "''store'' # ts @ [''@@'', f]"
  have c: "\<forall>t \<in> set ?c. t \<noteq> '''' \<and> CHR ''/'' \<notin> set t \<and> CHR ''='' \<notin> set t" "length ?c \<le> 511"
    using assms by (auto simp: tag_tokens_def tag_token_def flat_name_def file_name_def)
  have "g_strjoinv (CHR ''/'') ([] # ?c) = path_of ?c" by (simp add: g_strjoinv_Cons path_of_joinv)
  then have "split_upto 511 (CHR ''/'') (path_of ?c) = [] # ?c"
    using split_joinv[of "[] # ?c" "CHR ''/''" 511] c by auto
  then show "tl (g_strsplit (CHR ''/'') 512 (file_path ts f)) = ?c"
    by (simp only: g_strsplit_def file_path_def) (simp add: path_of_def)
  have p: "path_of (us @ vs) = path_of us @ path_of vs" for us vs by (induction us) simp_all
  have s: "file_path ts f = (''/store'' @ path_of ts) @ ''/@'' @ (''@/'' @ f)" "file_path ts f = (''/store'' @ path_of ts) @ ''/@@'' @ (''/'' @ f)"
    by (simp_all add: file_path_def p)
  then show "strstr ''/@'' (file_path ts f)" "strstr ''/@@'' (file_path ts f)" unfolding strstr_iff by blast+
  have "CHR ''='' \<notin> set (path_of cs)" if "\<forall>t \<in> set cs. CHR ''='' \<notin> set t" for cs using that by (induction cs) auto
  then have "alias_rx (path_of ?c) = None" using c(1) by (intro alias_rx_None) blast
  then have "expand_loop env conn w (path_of ?c) = Some (Some (path_of ?c))" by (subst expand_loop.simps) simp
  moreover have "compress_slashes (path_of ?c) = path_of ?c" using c(1) by (intro compress_same) blast
  ultimately show "tagsistant_expand_path env conn w (file_path ts f) = Done (file_path ts f)"
    by (simp add: tagsistant_expand_path_def file_path_def del: path_of_simps)
qed

lemma file_tree_new:
  assumes "served env w" "tag_tokens ts" "file_name env f"
    and guess: "\<And>w1. db w1 = db w \<Longrightarrow> tagsistant_guess_inode_from_and_set env (map (flat_node (db w)) ts) True f w1 = Done i"
  shows "\<exists>w1. tagsistant_querytree_new env (file_path ts f) st True False w = Done (file_tree env ts f st (db w) i, w1)
    \<and> store_inv env w1 \<and> db w1 = db w \<and> snapshot w1 = (if st then Some (db w) else snapshot w)
    \<and> fs w1 = (if i = 0 then fs w else os_mkdir_with_parents (sys env) (archive_hierarchy env i) (fs w))"
proof -
  note F = file_tokens[OF assms(2,3)]
  define w0 where "w0 = tagsistant_db_connection st w"
  have w0: "store_inv env w0" "tags_plain (db w0)" "db w0 = db w" "snapshot w0 = (if st then Some (db w) else snapshot w)" "fs w0 = fs w"
    using assms(1) by (simp_all add: w0_def served_def store_inv_def cache_coherent_def)
  let ?q = "(new_querytree (file_path ts f))\<lparr>q_dbi := True, q_transaction_started := st, q_type := QTYPE_STORE\<rparr>"
  let ?q1 = "?q\<lparr>q_complete := True, q_valid := True\<rparr>"
  have "\<forall>t \<in> set ts. tag_token t" "ts \<noteq> []" using assms(2) by (simp_all add: tag_tokens_def)
  then obtain w1 where 1: "parse_store_loop env (ts @ [''@@'', f]) \<lparr>ps_qtree = ?q1, ps_done = [], ps_cur = [], ps_group = TAG_GROUP_DONT_ADD\<rparr> w0
      = Done ((True, ?q1\<lparr>q_last_tag := Some (last ts), q_tree := [map (flat_node (db w)) ts]\<rparr>, [f]), w1)"
      "store_inv env w1" "db w1 = db w" "same_frame w0 w1"
    using tag_tokens_loop[of ts env w0 "\<lparr>ps_qtree = ?q1, ps_done = [], ps_cur = [], ps_group = TAG_GROUP_DONT_ADD\<rparr>" "[f]"] w0
    by (auto simp: new_querytree_def)
  let ?q2 = "?q1\<lparr>q_last_tag := Some (last ts), q_tree := [map (flat_node (db w)) ts]\<rparr>"
  have parse: "parse_tokens env ?q (ts @ [''@@'', f]) False w0 = Done ((True, ?q2, [f]), w1)"
  proof -
    have "?q\<lparr>q_complete := True, q_do_reasoning := False\<rparr> = ?q\<lparr>q_complete := True\<rparr>" by (simp add: new_querytree_def)
    then show ?thesis using 1(1) F(2,3)
      by (simp add: parse_tokens_def tagsistant_querytree_parse_store_def Let_def new_querytree_def)
  qed
  have x: "tagsistant_inode_extract_from_path (Some f) = 0"
    using assms(3) inode_rx_2_no_slash[of f] by (simp add: file_name_def tagsistant_inode_extract_from_path_def)
  have f: "f \<noteq> ''''" using assms(3) by (simp add: file_name_def)
  have inode: "store_inode env ?q2 [f] w1 = Done (?q2\<lparr>q_object_path := Some f, q_inode := i\<rparr>)"
    using x f guess[OF 1(3)] by (simp add: store_inode_def)
  let ?w2 = "if i = 0 then w1 else w1\<lparr>fs := os_mkdir_with_parents (sys env) (archive_hierarchy env i) (fs w1)\<rparr>"
  have res: "resolve_object env ?q2 [f] w1 = Done (file_tree env ts f st (db w) i, ?w2)"
    using inode f by (simp add: resolve_object_def store_object_def store_finish_def tagsistant_querytree_set_inode_def
        tagsistant_querytree_rebuild_paths_def Let_def points_to_object_def file_tree_def object_file_def new_querytree_def
        printf_s_def strlen_def)
  have g: "guess_type ''store'' = QTYPE_STORE" by (simp add: guess_type_def)
  have "tagsistant_querytree_new env (file_path ts f) st True False w = Done (file_tree env ts f st (db w) i, ?w2)"
    unfolding tagsistant_querytree_new_def resolve_path_def Let_def
    using F parse res by (simp add: w0_def[symmetric] new_querytree_def g qtree_return_def file_tree_def)
  moreover have "store_inv env ?w2" using 1(2) by (simp add: store_inv_def cache_coherent_def)
  ultimately show ?thesis using 1(3,4) w0 by (intro exI[of _ ?w2]) (auto simp: same_frame_def)
qed


subsection \<open>Where a file is\<close>

definition no_file :: "database \<Rightarrow> string \<Rightarrow> bool" where
  "no_file d f \<longleftrightarrow> (\<forall>r \<in> set (objects d). ob_name r \<noteq> f)"

text \<open>The file \<open>f\<close> is the object \<open>i\<close> and no other, and has the tags \<open>T\<close>.\<close>

definition file_at :: "database \<Rightarrow> string \<Rightarrow> tagsistant_inode \<Rightarrow> string set \<Rightarrow> bool" where
  "file_at d f i T \<longleftrightarrow> only_object d f i \<and> (\<forall>t \<in> T. flat_id d t \<noteq> 0) \<and> tags_of (sint i) d = (\<lambda>t. sint (flat_id d t)) ` T"

text \<open>What a request on the object \<open>i\<close> with the names \<open>F\<close> leaves alone: the objects with other names, the tags of
  the other objects, and the ids of the tags that exist. It makes the tags \<open>N\<close> that do not, at most \<open>n\<close>, and \<open>m\<close> objects.\<close>

definition file_step :: "tagsistant_inode \<Rightarrow> string set \<Rightarrow> string set \<Rightarrow> nat \<Rightarrow> nat \<Rightarrow> database \<Rightarrow> database \<Rightarrow> bool" where
  "file_step i F N n m d d' \<longleftrightarrow>
     (\<forall>f. f \<notin> F \<longrightarrow> filter (\<lambda>r. ob_name r = f) (objects d') = filter (\<lambda>r. ob_name r = f) (objects d)) \<and>
     (\<forall>t. flat_id d t \<noteq> 0 \<longrightarrow> flat_id d' t = flat_id d t) \<and>
     (\<forall>t. flat_id d' t \<noteq> 0 \<longleftrightarrow> flat_id d t \<noteq> 0 \<or> t \<in> N) \<and>
     (\<forall>j. j \<noteq> sint i \<longrightarrow> tags_of j d' = tags_of j d) \<and>
     tags_seq d' \<le> tags_seq d + int n \<and> objects_seq d' = objects_seq d + int m"

lemma file_step_trans:
  assumes "file_step i F N n m d e" "file_step i G N' n' m' e d'"
  shows "file_step i (F \<union> G) (N \<union> N') (n + n') (m + m') d d'"
  using assms unfolding file_step_def by auto

lemma objects_seq_nodes:
  assumes "\<And>n k v w. objects_seq (db (h n k v w)) = objects_seq (db w)"
  shows "objects_seq (db (fold (traverse_node h) as w)) = objects_seq (db w)"
  by (induction as arbitrary: w) (simp_all add: traverse_node_def assms)

lemma objects_seq_tagging:
  "objects_seq (db (tagsistant_sql_tag_object env conn n k v i w)) = objects_seq (db w)"
  "objects_seq (db (tagsistant_sql_untag_object env conn n k v i w)) = objects_seq (db w)"
  by (simp_all add: tagsistant_sql_tag_object_def tagsistant_sql_untag_object_def tagsistant_sql_create_tag_def Let_def split_beta
      insert_tagging_def insert_tag_def delete_tagging_def split: option.splits)

lemma tags_seq_nodes:
  "tags_seq (db (fold (traverse_node (\<lambda>n k v. tagsistant_sql_tag_object env conn n k v i)) as w)) \<le> tags_seq (db w) + int (length as)"
proof (induction as arbitrary: w)
  case (Cons a as)
  have "tags_seq (db (traverse_node (\<lambda>n k v. tagsistant_sql_tag_object env conn n k v i) a w)) \<le> tags_seq (db w) + 1"
    by (simp add: traverse_node_def seq_tag_object)
  then show ?case using Cons.IH[of "traverse_node (\<lambda>n k v. tagsistant_sql_tag_object env conn n k v i) a w"] by simp
qed simp

lemma only_object_rows:
  assumes "only_object d f i" "r \<in> set (objects d)"
  shows "ob_name r = f \<Longrightarrow> ob_inode r = sint i" "db_ok d \<Longrightarrow> ob_inode r = sint i \<Longrightarrow> ob_name r = f"
proof -
  have o: "map ob_inode (filter (\<lambda>r. ob_name r = f) (objects d)) = [sint i]" using assms(1) by (simp add: only_object_def)
  show "ob_inode r = sint i" if "ob_name r = f"
  proof -
    have "ob_inode r \<in> set (map ob_inode (filter (\<lambda>r. ob_name r = f) (objects d)))" using assms(2) that by auto
    then show ?thesis using o by simp
  qed
  show "ob_name r = f" if "db_ok d" "ob_inode r = sint i"
  proof -
    have "sint i \<in> ob_inode ` set (filter (\<lambda>r. ob_name r = f) (objects d))" using o by (metis image_set list.set_intros(1))
    then obtain y where "y \<in> set (objects d)" "ob_name y = f" "ob_inode y = sint i" by auto
    moreover have "distinct (map ob_inode (objects d))" using that(1) by (simp add: db_ok_def)
    ultimately show ?thesis using that(2) assms(2) by (metis inj_onD distinct_map)
  qed
qed

lemma flat_node_simps [simp]:
  "and_data (flat_node d t) = new_and_data\<lparr>an_tag := Some t, an_tag_id := flat_id d t\<rparr>" "and_negated (flat_node d t) = None"
  "and_related (flat_node d t) = None" "chain_data (flat_node d t) = [new_and_data\<lparr>an_tag := Some t, an_tag_id := flat_id d t\<rparr>]"
  "node_key (a\<lparr>an_tag := Some t, an_tag_id := j\<rparr>) = (t, '''', '''')"
  by (simp_all add: flat_node_def chain_data_def node_key_def)

lemma lookup_set_flat: "tag_tokens ts \<Longrightarrow> lookup_set (map (flat_node d) ts)"
  by (auto simp: lookup_set_def tag_tokens_def tag_token_def new_and_data_def exact_def hd_map)

lemma guess_none:
  assumes "row_order env" "no_file (db w) f" "tag_tokens ts"
  shows "tagsistant_guess_inode_from_and_set env (map (flat_node d) ts) True f w = Done 0"
proof -
  have s: "select_tagged_named f t (db w) = []" for t
    using assms(2) by (auto simp: select_tagged_named_def no_file_def filter_empty_conv)
  have "first_match env True f w (chain_data (flat_node d t)) = 0" for t
    by (simp add: tagsistant_check_single_tagging_def new_and_data_def s return_integer_single[OF assms(1)])
  moreover obtain t us where "ts = t # us" "t \<noteq> ''ALL''" using assms(3) by (cases ts) (auto simp: tag_tokens_def tag_token_def)
  ultimately show ?thesis by (simp add: tagsistant_guess_inode_from_and_set_def new_and_data_def)
qed

lemma guess_file:
  assumes "row_order env" "db_ok (db w)" "tags_seq (db w) < 2 ^ 31" "file_at (db w) f i T" "tag_tokens us" "db w = d"
  shows "tagsistant_guess_inode_from_and_set env (map (flat_node d) us) True f w = Done (if set us \<subseteq> T then i else 0)"
proof -
  have o: "only_object (db w) f i" using assms(4) by (simp add: file_at_def)
  have sat: "satisfied (db w) (sint i) (flat_node d u) \<longleftrightarrow> u \<in> T" for u
  proof
    assume "satisfied (db w) (sint i) (flat_node d u)"
    then obtain t where "t \<in> T" "sint (flat_id d u) = sint (flat_id d t)" "flat_id d t \<noteq> 0"
      using assms(4,6) by (auto simp: satisfied_def file_at_def new_and_data_def)
    then show "u \<in> T" using flat_id_inj[of d t u] assms(2,3,6) by auto
  qed (use assms(4,6) in \<open>auto simp: satisfied_def file_at_def new_and_data_def\<close>)
  have "us \<noteq> []" using assms(5) by (simp add: tag_tokens_def)
  then have n: "and_negated (hd (map (flat_node d) us)) = None" by (simp add: hd_map)
  show ?thesis unfolding guess_inode_facts[OF assms(1,2) o lookup_set_flat[OF assms(5)]] n by (auto simp: sat)
qed

lemma not_all_path:
  assumes "tag_tokens ts" "file_name env f"
  shows "\<not> is_all_path (file_path ts f)"
proof -
  let ?c = "''store'' # ts @ [''@@'', f]"
  have c: "\<forall>t \<in> set ?c. t \<noteq> ''ALL'' \<and> CHR ''/'' \<notin> set t"
    using assms by (auto simp: tag_tokens_def tag_token_def flat_name_def file_name_def)
  have "strstr ''/ALL/'' (path_of cs @ ''/'') \<longleftrightarrow> ''ALL'' \<in> set cs" if "\<forall>t \<in> set cs. CHR ''/'' \<notin> set t" for cs
    using that
  proof (induction cs)
    case (Cons t us)
    obtain s where s: "path_of us @ ''/'' = CHR ''/'' # s" by (cases us) simp_all
    show ?case using Cons strstr_token[of t s] s by auto
  qed simp
  then have "\<not> strstr ''/ALL/'' (path_of ?c @ ''/'')" using c by blast
  then have 1: "\<not> strstr ''/ALL/'' (file_path ts f)" unfolding strstr_iff file_path_def by (metis append.assoc)
  have p: "file_path ts f = path_of (''store'' # ts @ [''@@'']) @ CHR ''/'' # f"
  proof -
    have "path_of (us @ vs) = path_of us @ path_of vs" for us vs by (induction us) simp_all
    then show ?thesis by (simp add: file_path_def)
  qed
  have "\<not> suffix (CHR ''/'' # x) (u @ CHR ''/'' # f)" if "CHR ''/'' \<notin> set x" "f \<noteq> x" for x u
  proof
    assume "suffix (CHR ''/'' # x) (u @ CHR ''/'' # f)"
    then obtain v where v: "u @ CHR ''/'' # f = v @ CHR ''/'' # x" by (auto simp: suffix_def)
    have "CHR ''/'' \<notin> set f" using assms(2) by (simp add: file_name_def)
    then show False using v that by (auto simp: append_eq_append_conv2 append_eq_Cons_conv Cons_eq_append_conv)
  qed
  from this[of "''ALL''"] this[of "''ALL'' @ newline"] have "\<not> ends_dollar ''/ALL'' (file_path ts f)" using assms(2)
    unfolding p ends_dollar_def by (simp add: file_name_def newline_def del: path_of_simps)
  with 1 show ?thesis by (simp add: is_all_path_def)
qed

lemma not_tags_list:
  assumes "file_name env f" "q_full_path q = file_path ts f"
  shows "\<not> tagsistant_is_tags_list_file env q"
proof -
  let ?s = "tags_suffix env"
  obtain u where p: "file_path ts f = u @ CHR ''/'' # f"
  proof -
    have "path_of (us @ vs) = path_of us @ path_of vs" for us vs by (induction us) simp_all
    then show thesis using that[of "path_of (''store'' # ts @ [''@@''])"] by (simp add: file_path_def)
  qed
  have "\<not> suffix ?s (u @ CHR ''/'' # f)"
  proof
    assume "suffix ?s (u @ CHR ''/'' # f)"
    then have "suffix ?s f \<or> (\<exists>v. ?s = v @ CHR ''/'' # f)" by (auto simp: suffix_append suffix_Cons)
    then show False using assms(1) by (auto simp: file_name_def)
  qed
  then show ?thesis by (simp add: tagsistant_is_tags_list_file_def assms(2) p)
qed

lemma file_tree_simps [simp]:
  "q_dbi (file_tree env ts f st d i)" "q_transaction_started (file_tree env ts f st d i) = st" "q_type (file_tree env ts f st d i) = QTYPE_STORE"
  "q_points_to_object (file_tree env ts f st d i)" "q_object_path (file_tree env ts f st d i) = Some f"
  "q_tree (file_tree env ts f st d i) = [map (flat_node d) ts]" "q_inode (file_tree env ts f st d i) = i"
  "q_full_path (file_tree env ts f st d i) = file_path ts f" "q_error_message (file_tree env ts f st d i) = None"
  "\<not> q_schedule_for_unlink (file_tree env ts f st d i)" "q_complete (file_tree env ts f st d i)"
  "q_full_archive_path (file_tree env ts f st d i) = (if i = 0 then None else Some (object_file env i f))"
  by (simp_all add: file_tree_def new_querytree_def)

lemma check_file:
  assumes "file_name env f" and "tagsistant_guess_inode_from_and_set env (map (flat_node d) ts) True f w = Done i"
  shows "tagsistant_querytree_check_tagging_consistency env (file_tree env ts f st d j) w
    = Done (i \<noteq> 0, (file_tree env ts f st d j)\<lparr>q_is_taggable := True, q_exists := (i \<noteq> 0)\<rparr>)"
proof -
  have f: "f \<noteq> ''''" "CHR ''/'' \<notin> set f" using assms(1) by (simp_all add: file_name_def)
  then have "first_element f = f" by (auto simp: first_element_def intro: takeWhile_eq_all_conv[THEN iffD2])
  then show ?thesis using f assms(2) by (simp add: tagsistant_querytree_check_tagging_consistency_def)
qed

text \<open>What is used of the file system: making directories and nodes loses no file, and a node that was made is there.\<close>

definition present :: "'fs env \<Rightarrow> string \<Rightarrow> 'fs \<Rightarrow> bool" where
  "present env p f = (case os_lstat (sys env) (Some p) f of Inr _ \<Rightarrow> True | Inl _ \<Rightarrow> False)"

definition os_contract :: "'fs env \<Rightarrow> bool" where
  "os_contract env \<longleftrightarrow>
     (\<forall>p d f. present env p f \<longrightarrow> present env p (os_mkdir_with_parents (sys env) d f)) \<and>
     (\<forall>p n m dev f. present env p f \<longrightarrow> present env p (snd (os_mknod (sys env) (Some n) m dev f))) \<and>
     (\<forall>n m dev f. fst (os_mknod (sys env) (Some n) m dev f) = None \<longrightarrow> present env n (snd (os_mknod (sys env) (Some n) m dev f))) \<and>
     (\<forall>p n f. present env p f \<and> p \<noteq> n \<longrightarrow> present env p (snd (os_unlink (sys env) (Some n) f)))"

lemma present_iff: "present env p f \<longleftrightarrow> (\<exists>st. os_lstat (sys env) (Some p) f = Inr st)"
  by (simp add: present_def split: sum.splits)

lemma present_dirs: "os_contract env \<Longrightarrow> present env p f \<Longrightarrow> present env p (os_mkdir_with_parents (sys env) d f)"
  by (simp add: os_contract_def)

lemma getattr_run:
  assumes "served env w" "os_contract env" "tag_tokens us" "file_name env f"
    and guess: "\<And>w1. db w1 = db w \<Longrightarrow> tagsistant_guess_inode_from_and_set env (map (flat_node (db w)) us) True f w1 = Done i"
    and p: "i \<noteq> 0 \<Longrightarrow> present env (object_file env i f) (fs w)"
  shows "\<exists>out w'. tagsistant_getattr env (file_path us f) st w = Done ((if i \<noteq> 0 then None else Some ENOENT, out), w')
    \<and> served env w' \<and> db w' = db w \<and> fs w' = (if i = 0 then fs w else os_mkdir_with_parents (sys env) (archive_hierarchy env i) (fs w))"
proof -
  obtain w1 where 1: "tagsistant_querytree_new env (file_path us f) False True False w = Done (file_tree env us f False (db w) i, w1)"
      "store_inv env w1" "db w1 = db w" "fs w1 = (if i = 0 then fs w else os_mkdir_with_parents (sys env) (archive_hierarchy env i) (fs w))"
    using file_tree_new[OF assms(1,3,4) guess, of False] by auto
  let ?q = "file_tree env us f False (db w) i"
  let ?q1 = "?q\<lparr>q_is_taggable := True, q_exists := (i \<noteq> 0)\<rparr>"
  note c = check_file[OF assms(4) guess[OF 1(3)], of False i]
  have path: "getattr_path (file_path us f) env ?q w1
      = Done (if i \<noteq> 0 then Inr (Some (object_file env i f)) else Inl ENOENT, ?q1, w1)"
    using c not_all_path[OF assms(3,4)] not_tags_list[OF assms(4), of ?q us]
    by (simp add: getattr_path_def getattr_object_def)
  have "present env (archive env) (fs w1)" using 1(4) present_dirs[OF assms(2)] assms(1) by (auto simp: served_def present_iff)
  then have s: "served env w1" using assms(1) 1(2,3) by (simp add: served_def present_iff)
  have w': "served env (tagsistant_querytree_destroy env ?q1 b w1)" "db (tagsistant_querytree_destroy env ?q1 b w1) = db w"
      "fs (tagsistant_querytree_destroy env ?q1 b w1) = fs w1" for b
    using s 1(3) by (simp_all add: destroy_reading)
  show ?thesis
  proof (cases "i = 0")
    case True
    then have "tagsistant_getattr env (file_path us f) st w = Done ((Some ENOENT, st), tagsistant_querytree_destroy env ?q1 False w1)"
      using 1(1) path
      by (simp add: tagsistant_getattr_def run_reader_def getattr_body_def leave_reader_def exit_operation_def abort_operation_def)
    then show ?thesis using w'[of False] 1(4) True by auto
  next
    case False
    have "present env (object_file env i f) (fs w1)" using present_dirs[OF assms(2) p[OF False]] False 1(4) by simp
    then obtain x where x: "os_lstat (sys env) (Some (object_file env i f)) (fs w1) = Inr x" by (auto simp: present_iff)
    have n: "\<not> tagsistant_is_tags_list_file env ?q1" by (rule not_tags_list[OF assms(4), of _ us]) simp
    then have post: "getattr_post env ?q1 x w1 = (Inr x, w1)" by (simp add: getattr_post_def post_store_def)
    have "tagsistant_getattr env (file_path us f) st w = Done ((None, x), tagsistant_querytree_destroy env ?q1 True w1)"
      using 1(1) path x post False by (simp add: tagsistant_getattr_def run_reader_def getattr_body_def leave_reader_def exit_operation_def)
    then show ?thesis using w'[of True] 1(4) False by auto
  qed
qed

lemma getattr_file:
  assumes "served env w" "os_contract env" "tag_tokens us" "file_name env f"
    and guess: "\<And>w1. db w1 = db w \<Longrightarrow> tagsistant_guess_inode_from_and_set env (map (flat_node (db w)) us) True f w1 = Done i"
    and p: "i \<noteq> 0 \<Longrightarrow> present env (object_file env i f) (fs w)"
  shows "found env (file_path us f) w \<longleftrightarrow> i \<noteq> 0"
  using getattr_run[OF assms, of blank_stat] by (auto simp: found_def)


subsection \<open>mknod\<close>

lemma create_tags_plain:
  assumes "tags_plain (db w)" "flat_name n" "store_room w"
  shows "tags_plain (db (tagsistant_sql_tag_object env True (Some n) (Some '''') (Some '''') i w))"
proof -
  have "tags_plain (insert_tag n '''' '''' d)" if "tags_plain d" "tags_seq d < 2 ^ 31 - 1" for d
    using that assms(2) by (auto simp: tags_plain_def insert_tag_def flat_name_def plain_def)
  moreover have "\<exists>a b. db (tagsistant_sql_tag_object env True (Some n) (Some '''') (Some '''') i w) = insert_tagging a b (db w)
      \<or> db (tagsistant_sql_tag_object env True (Some n) (Some '''') (Some '''') i w) = insert_tagging a b (insert_tag n '''' '''' (db w))"
    by (cases "fst (tagsistant_sql_get_tag_id env True (Some n) (Some '''') (Some '''') w) = 0")
      (auto simp: tagsistant_sql_tag_object_def tagsistant_sql_create_tag_def Let_def split_beta)
  moreover have "tags_plain (insert_tagging a b d) = tags_plain d" for a b d by (simp add: tags_plain_def insert_tagging_def)
  ultimately show ?thesis using assms by (auto simp: store_room_def)
qed

lemma tag_all_plain:
  assumes "tags_plain (db w)" "\<forall>a \<in> set as. \<exists>t. an_tag a = Some t \<and> flat_name t" "tags_seq (db w) + int (length as) < 2 ^ 31 - 1"
  shows "tags_plain (db (fold (traverse_node (\<lambda>n k v. tagsistant_sql_tag_object env True n k v i)) as w))
    \<and> fs (fold (traverse_node (\<lambda>n k v. tagsistant_sql_tag_object env True n k v i)) as w) = fs w"
  using assms
proof (induction as arbitrary: w)
  case (Cons a as)
  obtain t where t: "an_tag a = Some t" "flat_name t" using Cons.prems(2) by auto
  let ?w1 = "tagsistant_sql_tag_object env True (Some t) (Some '''') (Some '''') i w"
  have e: "traverse_node (\<lambda>n k v. tagsistant_sql_tag_object env True n k v i) a w = ?w1"
    using tag_object_safe[of env True "Some t" None None i w] t by (simp add: traverse_node_def)
  have "tags_seq (db ?w1) \<le> tags_seq (db w) + 1" by (rule seq_tag_object)
  then have "tags_plain (db ?w1)" "tags_seq (db ?w1) + int (length as) < 2 ^ 31 - 1"
    using create_tags_plain[of w t env i] Cons.prems t by (simp_all add: store_room_def)
  moreover have "fs ?w1 = fs w" using same_frame_tag_object[of w env True "Some t" "Some ''''" "Some ''''" i] by (simp add: same_frame_def)
  ultimately show ?case using Cons.IH[of ?w1] Cons.prems(2) e by simp
qed simp

text \<open>The inode the next object gets.\<close>

definition next_inode :: "database \<Rightarrow> tagsistant_inode" where
  "next_inode d = word_of_int (objects_seq d + 1)"

definition new_file_fs :: "'fs env \<Rightarrow> string \<Rightarrow> nat \<Rightarrow> nat \<Rightarrow> 'fs world \<Rightarrow> errno option \<times> 'fs" where
  "new_file_fs env f mode rdev w =
     (let i = next_inode (db w)
      in os_mknod (sys env) (Some (object_file env i f)) (or mode 128) rdev
           (os_mkdir_with_parents (sys env) (archive_hierarchy env i) (fs w)))"

definition object_room :: "database \<Rightarrow> nat \<Rightarrow> bool" where
  "object_room d n \<longleftrightarrow> tags_seq d + int n < 2 ^ 31 - 1 \<and> objects_seq d < 2 ^ 31 - 1 \<and> tags_of (objects_seq d + 1) d = {}"

lemma next_inode_facts:
  assumes "db_ok d" "objects_seq d < 2 ^ 31 - 1"
  shows "sint (next_inode d) = objects_seq d + 1" "next_inode d \<noteq> 0"
proof -
  have pos: "1 \<le> objects_seq d + 1" "objects_seq d + 1 < 2 ^ 31" using assms by (auto simp: db_ok_def)
  then show s: "sint (next_inode d) = objects_seq d + 1" unfolding next_inode_def by (intro sint_word_of_int32) simp_all
  then show "next_inode d \<noteq> 0" using pos by (metis not_one_le_zero signed_0)
qed

lemma create_file:
  assumes "served env w" "no_file (db w) f" "tag_tokens ts" "object_room (db w) (length ts)" "d = db w"
    and q: "q = (file_tree env ts f True d 0)\<lparr>q_is_taggable := True, q_exists := False\<rparr>"
    and c: "tagsistant_inner_create_and_tag_object env q True w = (r, q', w')"
  shows "q_inode q' = next_inode d" "q_full_archive_path q' = Some (object_file env (next_inode d) f)"
    "file_at (db w') f (next_inode d) (set ts)" "store_inv env w'" "tags_plain (db w')"
    "fs w' = os_mkdir_with_parents (sys env) (archive_hierarchy env (next_inode d)) (fs w)"
    "file_step (next_inode d) {f} (set ts) (length ts) 1 d (db w')"
proof -
  have inv: "store_inv env w" and ok: "db_ok d" using assms(1,5) by (simp_all add: served_def store_inv_def)
  have seq: "objects_seq d < 2 ^ 31 - 1" using assms(4,5) by (simp add: object_room_def)
  note I = next_inode_facts[OF ok seq]
  have flat: "\<forall>t \<in> set ts. flat_name t" using assms(3) by (simp add: tag_tokens_def tag_token_def)
  let ?w1 = "sql_exec True (\<lambda>d. snd (insert_object f d)) w"
  let ?s = "tagsistant_querytree_set_inode env q (next_inode d) ?w1"
  have n: "word_of_int (fst (insert_object f (db w))) = next_inode d" by (simp add: insert_object_def next_inode_def assms(5))
  have qs: "q_dbi q" "printf_s (q_object_path q) = f" by (simp_all add: q printf_s_def)
  have res: "q' = fst ?s" "w' = tagsistant_querytree_traverse (fst ?s) (tagsistant_sql_tag_object env) (next_inode d) (snd ?s)"
    using c I(2) n qs by (auto simp: tagsistant_inner_create_and_tag_object_def Let_def split_beta)
  show "q_inode q' = next_inode d" "q_full_archive_path q' = Some (object_file env (next_inode d) f)"
    using I(2) by (simp_all add: res(1) q tagsistant_querytree_set_inode_def tagsistant_querytree_rebuild_paths_def Let_def object_file_def printf_s_def)
  have w': "w' = fold (traverse_node (\<lambda>n k v. tagsistant_sql_tag_object env True n k v (next_inode d))) (map (and_data \<circ> flat_node d) ts) (snd ?s)"
    by (simp add: res(2) q tagsistant_querytree_traverse_def)
  have fs1: "fs (snd ?s) = os_mkdir_with_parents (sys env) (archive_hierarchy env (next_inode d)) (fs w)"
    using I(2) by (simp add: tagsistant_querytree_set_inode_def tagsistant_querytree_rebuild_paths_def Let_def)
  have pl: "tags_plain (db (snd ?s))" using assms(1) by (simp add: served_def tags_plain_def insert_object_def)
  have "\<forall>a \<in> set (map (and_data \<circ> flat_node d) ts). \<exists>t. an_tag a = Some t \<and> flat_name t" using flat by auto
  note P = tag_all_plain[OF pl this, of env "next_inode d", folded w']
  then show "tags_plain (db w')" "fs w' = os_mkdir_with_parents (sys env) (archive_hierarchy env (next_inode d)) (fs w)"
    using assms(4,5) fs1 by (simp_all add: object_room_def)
  have named: "\<forall>a \<in> set (map and_data (concat (q_tree q))). named a"
    using flat by (auto simp: q named_def new_and_data_def plain_key_def flat_name_def plain_def node_key_def)
  note C = create_facts[OF inv _ named _ _ _ c[symmetric]]
  have C: "tags_of (sint (next_inode d)) (db w') = (\<lambda>t. sint (flat_id (db w') t)) ` set ts" "store_inv env w'"
      "\<forall>t \<in> set ts. flat_id (db w') t \<noteq> 0" "\<forall>j. j \<noteq> sint (next_inode d) \<longrightarrow> tags_of j (db w') = tags_of j d"
      "\<forall>t. flat_id d t \<noteq> 0 \<longrightarrow> flat_id (db w') t = flat_id d t" "\<forall>t. t \<notin> set ts \<longrightarrow> flat_id (db w') t = flat_id d t"
    using C assms(4,5) I(1) by (auto simp: q object_room_def flat_id_def image_iff)
  show "store_inv env w'" by (rule C(2))
  have o: "objects (db w') = objects d @ [\<lparr>ob_inode = objects_seq d + 1, ob_name = f, ob_checksum = '''', ob_symlink = ''''\<rparr>]"
    using create_objects(2)[of q w env r q' w'] c seq ok assms(5) by (simp add: q printf_s_def)
  moreover have "filter (\<lambda>r. ob_name r = f) (objects d) = []" using assms(2,5) by (auto simp: no_file_def filter_empty_conv)
  ultimately have "only_object (db w') f (next_inode d)" using I by (simp add: only_object_def)
  then show "file_at (db w') f (next_inode d) (set ts)" using C by (simp add: file_at_def)
  have "tags_seq (db (snd ?s)) = tags_seq d" "objects_seq (db (snd ?s)) = objects_seq d + 1" by (simp_all add: insert_object_def assms(5))
  then have "tags_seq (db w') \<le> tags_seq d + int (length ts)" "objects_seq (db w') = objects_seq d + 1"
    using tags_seq_nodes[of env True "next_inode d" "map (and_data \<circ> flat_node d) ts" "snd ?s"] unfolding w'
    by (simp_all add: objects_seq_nodes objects_seq_tagging)
  then show "file_step (next_inode d) {f} (set ts) (length ts) 1 d (db w')" using C by (auto simp: file_step_def o)
qed

lemma mknod_file:
  assumes "served env w" "os_contract env" "no_file (db w) f" "tag_tokens ts" "file_name env f" "object_room (db w) (length ts)"
    and m: "fst (new_file_fs env f mode rdev w) = None"
  shows "\<exists>w'. tagsistant_mknod env (file_path ts f) mode rdev w = Done (None, w') \<and> served env w'
    \<and> file_at (db w') f (next_inode (db w)) (set ts) \<and> present env (object_file env (next_inode (db w)) f) (fs w')
    \<and> file_step (next_inode (db w)) {f} (set ts) (length ts) 1 (db w) (db w') \<and> fs w' = snd (new_file_fs env f mode rdev w)"
proof -
  have ro: "row_order env" using assms(1) by (simp add: served_def store_inv_def)
  let ?i = "next_inode (db w)"
  have ok: "db_ok (db w)" using assms(1) by (simp_all add: served_def store_inv_def)
  have i0: "?i \<noteq> 0" using next_inode_facts[OF ok] assms(6) by (simp add: object_room_def)
  have guess: "tagsistant_guess_inode_from_and_set env (map (flat_node (db w)) ts) True f w1 = Done 0" if "db w1 = db w" for w1
    using guess_none[OF ro _ assms(4), of w1] assms(3) that by simp
  obtain w1 where 1: "tagsistant_querytree_new env (file_path ts f) True True False w = Done (file_tree env ts f True (db w) 0, w1)"
      "store_inv env w1" "db w1 = db w" "fs w1 = fs w"
    using file_tree_new[OF assms(1,4,5) guess, of True] by auto
  let ?q = "(file_tree env ts f True (db w) 0)\<lparr>q_is_taggable := True, q_exists := False\<rparr>"
  note c = check_file[OF assms(5) guess[OF 1(3)], of True 0]
  obtain r q2 w2 where 2: "tagsistant_inner_create_and_tag_object env ?q True w1 = (r, q2, w2)" by (metis prod_cases3)
  have s1: "served env w1" using assms(1) 1 by (simp add: served_def)
  note C = create_file[OF s1 _ assms(4) _ _ refl 2, unfolded 1(3), OF assms(3,6) refl]
  obtain fs2 where k: "os_mknod (sys env) (Some (object_file env ?i f)) (or mode 128) rdev (fs w2) = (None, fs2)"
    using m by (metis (no_types, lifting) C(6) 1(4) new_file_fs_def prod.collapse)
  let ?w3 = "w2\<lparr>fs := fs2\<rparr>"
  have body: "mknod_body (or mode 128) rdev env (file_tree env ts f True (db w) 0) w1 = Done (Exit_ok, q2, ?w3)"
    using c not_all_path[OF assms(4,5)] 2 C(1,2) i0 k
    by (simp add: mknod_body_def mknod_object_def Let_def sys_exit_def)
  let ?w' = "tagsistant_querytree_destroy env q2 True ?w3"
  have run: "tagsistant_mknod env (file_path ts f) mode rdev w = Done (None, ?w')"
    by (simp add: tagsistant_mknod_def run_operation_def 1(1) body exit_operation_def)
  have "\<not> q_schedule_for_unlink q2"
    using 2 by (auto simp: tagsistant_inner_create_and_tag_object_def Let_def split_beta split: if_splits)
  then have w': "fs ?w' = fs2" "db ?w' = db w2" "tag_cache ?w' = tag_cache w2" by simp_all
  have a: "present env (archive env) (fs w2)"
    unfolding C(6) 1(4) using present_dirs[OF assms(2)] assms(1) by (auto simp: served_def present_iff)
  have "present env (archive env) fs2" "present env (object_file env ?i f) fs2"
    using a assms(2) k unfolding os_contract_def by (metis fst_conv snd_conv)+
  then have "served env ?w'" using C(4,5) w' by (simp add: served_def store_inv_def cache_coherent_def present_iff)
  moreover have "fs2 = snd (new_file_fs env f mode rdev w)" using k by (simp add: new_file_fs_def Let_def C(6) 1(4))
  ultimately show ?thesis using run C(3,7) w' \<open>present env (object_file env ?i f) fs2\<close> by (intro exI[of _ ?w']) simp
qed


subsection \<open>unlink\<close>

lemma untag_all_seq:
  "tags_seq (db (fold (traverse_node (\<lambda>n k v. tagsistant_sql_untag_object env True n k v i)) as w)) = tags_seq (db w)"
proof (induction as arbitrary: w)
  case (Cons a as)
  have "tags_seq (db (tagsistant_sql_untag_object env True n k v i w)) = tags_seq (db w)" for n k v and w :: "'a world"
    by (simp add: tagsistant_sql_untag_object_def Let_def split_beta delete_tagging_def)
  then show ?case using Cons by (simp add: traverse_node_def)
qed simp

lemma untag_nodes:
  assumes "store_inv env w" "tags_plain (db w)" "file_at (db w) f i T" "tag_tokens us"
    and w1_def: "w1 = fold (traverse_node (\<lambda>n k v. tagsistant_sql_untag_object env True n k v i)) (map (and_data \<circ> flat_node d) us) w"
  shows "store_inv env w1" "tags_plain (db w1)" "fs w1 = fs w" "objects (db w1) = objects (db w)" "tags_seq (db w1) = tags_seq (db w)"
    "file_at (db w1) f i (T - set us)" "file_step i {} {} 0 0 (db w) (db w1)"
proof -
  let ?as = "map (and_data \<circ> flat_node d) us"
  have ro: "row_order env" and ok: "db_ok (db w)" using assms(1) by (simp_all add: store_inv_def)
  have T: "\<forall>t \<in> T. flat_id (db w) t \<noteq> 0" "tags_of (sint i) (db w) = (\<lambda>t. sint (flat_id (db w) t)) ` T"
    using assms(3) by (auto simp: file_at_def)
  have named: "\<forall>a \<in> set ?as. named a"
    using assms(4) by (auto simp: tag_tokens_def tag_token_def named_def new_and_data_def plain_key_def flat_name_def plain_def node_key_def)
  note U = untag_all[OF assms(1) named w1_def]
  have id: "flat_id (db w1) t = flat_id (db w) t" for t
    using U tag_id_of_tags[of "db w1" "db w"] by (simp add: flat_id_def)
  have inj: "sint (flat_id (db w) t) = sint (flat_id (db w) u) \<Longrightarrow> t \<in> T \<Longrightarrow> t = u" for t u
    using flat_id_inj[of "db w" t u] ok assms(2) T(1) by (simp add: tags_plain_def)
  have "(\<lambda>a. sint (tag_id_of (db w) (node_key a))) ` set ?as = (\<lambda>t. sint (flat_id (db w) t)) ` set us"
    by (auto simp: flat_id_def image_iff)
  then have "tags_of (sint i) (db w1) = (\<lambda>t. sint (flat_id (db w) t)) ` T - (\<lambda>t. sint (flat_id (db w) t)) ` set us"
    using U T(2) by simp
  also have "\<dots> = (\<lambda>t. sint (flat_id (db w) t)) ` (T - set us)"
    by (intro set_eqI iffI) (use inj in \<open>auto simp: image_iff\<close>)
  finally have tags1: "tags_of (sint i) (db w1) = (\<lambda>t. sint (flat_id (db w1) t)) ` (T - set us)" by (simp add: id)
  have pl: "tags_plain (db w1)" using assms(2) U untag_all_seq[of env i ?as w] by (simp add: tags_plain_def w1_def)
  show "store_inv env w1" "fs w1 = fs w" "objects (db w1) = objects (db w)" using U by simp_all
  show seq: "tags_seq (db w1) = tags_seq (db w)" unfolding w1_def by (rule untag_all_seq)
  show "tags_plain (db w1)" using assms(2) U seq by (simp add: tags_plain_def)
  have "objects_seq (db w1) = objects_seq (db w)" unfolding w1_def by (intro objects_seq_nodes objects_seq_tagging)
  then show "file_step i {} {} 0 0 (db w) (db w1)" using U id seq by (simp add: file_step_def)
  have "only_object (db w1) f i" using assms(3) U by (simp add: file_at_def only_object_def)
  then show "file_at (db w1) f i (T - set us)" using tags1 T(1) by (simp add: file_at_def id)
qed

lemma untag_file:
  assumes "store_inv env w" "tags_plain (db w)" "file_at (db w) f i T" "tag_tokens us"
    and q: "q_dbi q" "q_tree q = [map (flat_node d) us]" "q_inode q = i"
    and u: "untag_and_forget env q w = (gone, w')"
  shows "store_inv env w' \<and> tags_plain (db w') \<and> fs w' = fs w \<and> (gone \<longleftrightarrow> T \<subseteq> set us)
    \<and> (if gone then no_file (db w') f else file_at (db w') f i (T - set us)) \<and> file_step i {f} {} 0 0 (db w) (db w')"
proof -
  define w1 where "w1 = fold (traverse_node (\<lambda>n k v. tagsistant_sql_untag_object env True n k v i)) (map (and_data \<circ> flat_node d) us) w"
  note U = untag_nodes[OF assms(1-4) w1_def]
  have ro: "row_order env" using assms(1) by (simp add: store_inv_def)
  have o: "only_object (db w1) f i" "tags_of (sint i) (db w1) = (\<lambda>t. sint (flat_id (db w1) t)) ` (T - set us)"
    using U(6) by (auto simp: file_at_def)
  then have i: "i \<noteq> 0" by (simp add: only_object_def)
  have e: "tagsistant_object_is_tagged env True i w1 \<longleftrightarrow> \<not> T \<subseteq> set us" using is_tagged_iff[OF ro i] o(2) by auto
  have r: "(gone, w') = (if T \<subseteq> set us then (True, sql_exec True (delete_object (sint i)) w1) else (False, w1))"
    using u q e by (auto simp: untag_and_forget_def tagsistant_querytree_traverse_def w1_def[symmetric] Let_def split: if_splits)
  have ok: "db_ok (db w1)" using U(1) by (simp add: store_inv_def)
  note only = only_object_rows(2)[OF o(1) _ ok]
  have "file_step i {f} {} 0 0 (db w1) (delete_object (sint i) (db w1))"
    using only by (auto simp: file_step_def delete_object_def flat_id_def tag_id_of_def tags_of_def intro!: filter_cong)
  from file_step_trans[OF U(7) this] U(7) have step: "file_step i {f} {} 0 0 (db w) (db w')"
    using r by (auto simp: file_step_def split: if_splits)
  show ?thesis
  proof (cases "T \<subseteq> set us")
    case True
    have "no_file (delete_object (sint i) (db w1)) f"
      using only_object_rows(1)[OF o(1)] by (auto simp: no_file_def delete_object_def)
    moreover have "tag_id_of (delete_object (sint i) x) v = tag_id_of x v" for x v by (simp add: tag_id_of_def delete_object_def)
    then have "store_inv env (sql_exec True (delete_object (sint i)) w1)"
      by (intro store_inv_exec) (use U in \<open>simp_all add: db_ok_statements\<close>)
    moreover have "tags_plain (delete_object (sint i) (db w1))" using U(2) by (simp add: tags_plain_def delete_object_def)
    ultimately show ?thesis using r True U step by simp
  next
    case False
    then show ?thesis using r U step by simp
  qed
qed

lemma present_unlink:
  "os_contract env \<Longrightarrow> present env p f \<Longrightarrow> p \<noteq> n \<Longrightarrow> present env p (snd (os_unlink (sys env) (Some n) f))"
  by (simp add: os_contract_def)

lemma archive_not_object: "archive env \<noteq> object_file env i f"
  by (simp add: object_file_def archive_hierarchy_def)

lemma unlink_file:
  assumes "served env w" "os_contract env" "file_at (db w) f i T" "tag_tokens us" "set us \<subseteq> T" "file_name env f"
    and p: "present env (object_file env i f) (fs w)"
    and m: "\<And>fs. present env (object_file env i f) fs \<Longrightarrow> fst (os_unlink (sys env) (Some (object_file env i f)) fs) = None"
  shows "\<exists>w'. tagsistant_unlink env (file_path us f) w = Done (None, w') \<and> served env w'
    \<and> (if T = set us then no_file (db w') f
       else file_at (db w') f i (T - set us) \<and> present env (object_file env i f) (fs w'))
    \<and> file_step i {f} {} 0 0 (db w) (db w')
    \<and> fs w' = (if T = set us then snd (os_unlink (sys env) (Some (object_file env i f)) (os_mkdir_with_parents (sys env) (archive_hierarchy env i) (fs w)))
        else os_mkdir_with_parents (sys env) (archive_hierarchy env i) (fs w))"
proof -
  have ro: "row_order env" "db_ok (db w)" "tags_seq (db w) < 2 ^ 31" using assms(1) by (simp_all add: served_def store_inv_def tags_plain_def)
  have i: "i \<noteq> 0" using assms(3) by (simp add: file_at_def only_object_def)
  have guess: "tagsistant_guess_inode_from_and_set env (map (flat_node (db w)) us) True f w1 = Done i" if "db w1 = db w" for w1
    using guess_file[OF ro(1) _ _ _ assms(4) that, of f i T] ro assms(3,5) that by simp
  obtain w1 where 1: "tagsistant_querytree_new env (file_path us f) True True False w = Done (file_tree env us f True (db w) i, w1)"
      "store_inv env w1" "db w1 = db w" "fs w1 = os_mkdir_with_parents (sys env) (archive_hierarchy env i) (fs w)"
    using file_tree_new[OF assms(1,4,6) guess, of True] i by auto
  let ?q = "(file_tree env us f True (db w) i)\<lparr>q_is_taggable := True, q_exists := True\<rparr>"
  have c: "tagsistant_querytree_check_tagging_consistency env (file_tree env us f True (db w) i) w1 = Done (True, ?q)"
    using check_file[OF assms(6) guess[OF 1(3)], of True i] i by simp
  obtain gone w2 where u: "untag_and_forget env ?q w1 = (gone, w2)" by (metis surj_pair)
  have pl: "tags_plain (db w1)" "file_at (db w1) f i T" using assms(1,3) 1(3) by (simp_all add: served_def)
  have F: "store_inv env w2" "tags_plain (db w2)" "fs w2 = fs w1" "gone \<longleftrightarrow> T \<subseteq> set us"
      "if gone then no_file (db w2) f else file_at (db w2) f i (T - set us)" "file_step i {f} {} 0 0 (db w) (db w2)"
    using untag_file[OF 1(2) pl assms(4) _ _ _ u, of "db w"] 1(3) by simp_all
  have a: "present env (archive env) (fs w2)" "present env (object_file env i f) (fs w2)"
    unfolding F(3) 1(4) using present_dirs[OF assms(2)] assms(1) p by (auto simp: served_def present_iff)
  define w3 where "w3 = (if gone then w2\<lparr>fs := snd (os_unlink (sys env) (Some (object_file env i f)) (fs w2))\<rparr> else w2)"
  have body: "unlink_body env (file_tree env us f True (db w) i) w1 = Done (Exit_ok, ?q, w3)"
    using c u m[OF a(2)] i not_all_path[OF assms(4,6)]
    by (simp add: unlink_body_def unlink_store_def unlink_taggable_def Let_def split_beta sys_exit_def w3_def)
  let ?w' = "tagsistant_querytree_destroy env ?q True w3"
  have run: "tagsistant_unlink env (file_path us f) w = Done (None, ?w')"
    by (simp add: tagsistant_unlink_def run_operation_def 1(1) body exit_operation_def)
  have w': "fs ?w' = fs w3" "db ?w' = db w2" "tag_cache ?w' = tag_cache w2" by (simp_all add: w3_def)
  have "present env (archive env) (fs w3)"
    using a(1) present_unlink[OF assms(2) a(1) archive_not_object] by (simp add: w3_def)
  then have s: "served env ?w'" using F(1,2) w' by (simp add: served_def store_inv_def cache_coherent_def present_iff)
  show ?thesis
  proof (cases "T = set us")
    case True
    then have "gone" using F(4) by simp
    then show ?thesis using run s w' F(5,6) True 1(4) F(3) by (intro exI[of _ ?w']) (simp add: w3_def)
  next
    case False
    then have "\<not> gone" using F(4) assms(5) by auto
    then show ?thesis using run s w' F(5,6) a(2) False 1(4) F(3) by (intro exI[of _ ?w']) (simp add: w3_def)
  qed
qed

text \<open>What getattr says of a file: nothing of a name no object has, and of an object that it is under the
  conjunctions of its tags.\<close>

lemma absent_file:
  assumes "served env w" "os_contract env" "no_file (db w) f" "tag_tokens vs" "file_name env f"
  shows "\<not> found env (file_path vs f) w"
proof -
  have "tagsistant_guess_inode_from_and_set env (map (flat_node (db w)) vs) True f y = Done 0" if "db y = db w" for y
    using guess_none[of env y f vs] assms that by (simp add: served_def store_inv_def)
  then show ?thesis using getattr_file[OF assms(1,2,4,5), of 0] by simp
qed

lemma found_file:
  assumes "served env w" "os_contract env" "file_at (db w) f i T" "present env (object_file env i f) (fs w)" "tag_tokens vs" "file_name env f"
  shows "found env (file_path vs f) w \<longleftrightarrow> set vs \<subseteq> T"
proof -
  have i: "i \<noteq> 0" using assms(3) by (simp add: file_at_def only_object_def)
  have "tagsistant_guess_inode_from_and_set env (map (flat_node (db w)) vs) True f y = Done (if set vs \<subseteq> T then i else 0)"
    if "db y = db w" for y
    using guess_file[of env y f i T vs] assms that by (simp add: served_def store_inv_def tags_plain_def)
  from getattr_file[OF assms(1,2,5,6) this] show ?thesis using assms(4) i by (cases "set vs \<subseteq> T") simp_all
qed



subsection \<open>Concrete instances\<close>

lemma present_sample [simp]: "present sample_env p xs \<longleftrightarrow> p \<in> set xs"
  by (simp add: present_def sample_env_def sample_os_def sample_touch_def)

lemma sample_contract: "os_contract sample_env"
  unfolding os_contract_def present_sample
  by (auto simp: sample_env_def sample_os_def sample_add_def sample_remove_def split: if_splits)

lemma empty_simps: "db_ok empty_db" "tags_plain empty_db" "n < 1000 \<Longrightarrow> object_room empty_db n" "no_file empty_db f"
  by (rule db_ok_empty) (simp_all add: tags_plain_def empty_db_def object_room_def tags_of_def no_file_def)


end
