(* ===== verification/File_Rename.thy ===== *)
theory File_Rename
  imports File_Lifecycle
begin

section \<open>Renaming a file\<close>

text \<open>
  The rename of a file of \<^verbatim>\<open>store/\<close>, the whole way: the query tree of the new path is built with no
  connection, so that it knows no object and only the tag ids that are cached; it borrows the connection
  of the old path for the statements. The file keeps its inode, gets the new name, loses the tags of the
  old path and gets those of the new one.
\<close>

subsection \<open>A path parsed with no connection\<close>

definition cached_id :: "'fs world \<Rightarrow> string \<Rightarrow> tagsistant_tag_id" where
  "cached_id w t = (case tag_cache w (tagsistant_make_tag_key t '''' '''') of None \<Rightarrow> 0 | Some i \<Rightarrow> i)"

definition cached_node :: "'fs world \<Rightarrow> string \<Rightarrow> qtree_and_node" where
  "cached_node w t = And_node (new_and_data\<lparr>an_tag := Some t, an_tag_id := cached_id w t\<rparr>) None None"

lemma get_cached_id: "tagsistant_sql_get_tag_id env False (Some t) None None w = (cached_id w t, w)"
  by (simp add: tagsistant_sql_get_tag_id_def cached_id_def sql_tag_id_def tagsistant_return_first_def Let_def)

lemma cached_loop:
  assumes "\<forall>t \<in> set ts. tag_token t" "\<not> q_dbi (ps_qtree s)" "\<not> q_do_reasoning (ps_qtree s)"
    "\<not> q_negate_next_tag (ps_qtree s)" "ps_group s = TAG_GROUP_DONT_ADD"
  shows "parse_store_loop env (ts @ ''@@'' # rest) s w
      = Done ((True, (ps_qtree s)\<lparr>q_last_tag := (if ts = [] then q_last_tag (ps_qtree s) else Some (last ts)),
          q_tree := ps_done s @ [ps_cur s @ map (cached_node w) ts]\<rparr>, rest), w)"
  using assms
proof (induction ts arbitrary: s)
  case Nil
  have "parse_store_loop env (''@@'' # rest) s w = Done ((True, finish_store s, rest), w)"
    by (subst parse_store_loop.simps) simp
  then show ?case by (simp add: finish_store_def)
next
  case (Cons t ts)
  have tok: "tag_token t" using Cons.prems(1) by simp
  then have t: "\<not> is_triple_token t" "hd t \<noteq> CHR ''@''" "t \<notin> {'''', ''-'', ''+'', ''{'', ''}''}"
    by (auto simp: tag_token_def flat_name_def neq_Nil_conv)
  have "store_token env t (ts @ ''@@'' # rest) s w = Done (Inr (s\<lparr>ps_cur := ps_cur s @ [cached_node w t]\<rparr>, t # ts @ ''@@'' # rest), w)"
    using Cons.prems t by (simp add: store_token_def store_tag_def store_place_def store_reason_def Let_def get_cached_id cached_node_def)
  then have "parse_store_loop env (t # ts @ ''@@'' # rest) s w = parse_store_loop env (ts @ ''@@'' # rest)
      (s\<lparr>ps_cur := ps_cur s @ [cached_node w t], ps_qtree := (ps_qtree s)\<lparr>q_last_tag := Some t\<rparr>\<rparr>) w"
    using loop_step[of t env "ts @ ''@@'' # rest" s w _ t "ts @ ''@@'' # rest"] t(2) by simp
  then show ?case using Cons.IH Cons.prems by simp
qed

text \<open>No lookup finds anything.\<close>

lemma guess_disconnected:
  assumes "tag_tokens ts"
  shows "tagsistant_guess_inode_from_and_set env (map (cached_node w') ts) False f w = Done 0"
proof -
  have "first_match env False f w (chain_data (cached_node w' t)) = 0" for t
    by (simp add: cached_node_def chain_data_def tagsistant_check_single_tagging_def new_and_data_def tagsistant_return_integer_def)
  moreover obtain t us where "ts = t # us" "t \<noteq> ''ALL''" using assms by (cases ts) (auto simp: tag_tokens_def tag_token_def)
  ultimately show ?thesis by (simp add: tagsistant_guess_inode_from_and_set_def cached_node_def new_and_data_def)
qed

definition new_name_tree :: "string list \<Rightarrow> string \<Rightarrow> 'fs world \<Rightarrow> querytree" where
  "new_name_tree ts f w = (new_querytree (file_path ts f))\<lparr>q_type := QTYPE_STORE, q_complete := True, q_valid := True,
     q_last_tag := Some (last ts), q_tree := [map (cached_node w) ts], q_object_path := Some f, q_points_to_object := True\<rparr>"

lemma new_name_tree_new:
  assumes "tag_tokens ts" "file_name env f"
  shows "tagsistant_querytree_new env (file_path ts f) False False False w = Done (new_name_tree ts f w, w)"
proof -
  note F = file_tokens[OF assms]
  let ?q = "(new_querytree (file_path ts f))\<lparr>q_type := QTYPE_STORE\<rparr>"
  let ?q1 = "?q\<lparr>q_complete := True, q_valid := True\<rparr>"
  let ?q2 = "?q1\<lparr>q_last_tag := Some (last ts), q_tree := [map (cached_node w) ts]\<rparr>"
  have "\<forall>t \<in> set ts. tag_token t" "ts \<noteq> []" using assms(1) by (simp_all add: tag_tokens_def)
  then have 1: "parse_store_loop env (ts @ [''@@'', f]) \<lparr>ps_qtree = ?q1, ps_done = [], ps_cur = [], ps_group = TAG_GROUP_DONT_ADD\<rparr> w
      = Done ((True, ?q2, [f]), w)"
    using cached_loop[of ts "\<lparr>ps_qtree = ?q1, ps_done = [], ps_cur = [], ps_group = TAG_GROUP_DONT_ADD\<rparr>" env "[f]" w]
    by (simp add: new_querytree_def)
  have parse: "parse_tokens env ?q (ts @ [''@@'', f]) False w = Done ((True, ?q2, [f]), w)"
  proof -
    have "?q\<lparr>q_complete := True, q_do_reasoning := False\<rparr> = ?q\<lparr>q_complete := True\<rparr>" by (simp add: new_querytree_def)
    then show ?thesis using 1 F(2,3)
      by (simp add: parse_tokens_def tagsistant_querytree_parse_store_def Let_def new_querytree_def)
  qed
  have x: "tagsistant_inode_extract_from_path (Some f) = 0"
    using assms(2) inode_rx_2_no_slash[of f] by (simp add: file_name_def tagsistant_inode_extract_from_path_def)
  have f: "f \<noteq> ''''" using assms(2) by (simp add: file_name_def)
  have res: "resolve_object env ?q2 [f] w = Done (new_name_tree ts f w, w)"
    using x f guess_disconnected[OF assms(1), of env w f w]
    by (simp add: resolve_object_def store_object_def store_inode_def store_finish_def tagsistant_querytree_set_inode_def
        tagsistant_querytree_rebuild_paths_def Let_def points_to_object_def new_name_tree_def new_querytree_def strlen_def)
  have g: "guess_type ''store'' = QTYPE_STORE" by (simp add: guess_type_def)
  show ?thesis unfolding tagsistant_querytree_new_def resolve_path_def Let_def
    using F parse res by (simp add: new_querytree_def g qtree_return_def new_name_tree_def)
qed

subsection \<open>What the statements do\<close>

lemma new_name_tree_simps [simp]:
  "\<not> q_dbi (new_name_tree ts f w)" "q_type (new_name_tree ts f w) = QTYPE_STORE" "q_complete (new_name_tree ts f w)"
  "q_points_to_object (new_name_tree ts f w)" "q_object_path (new_name_tree ts f w) = Some f"
  "q_tree (new_name_tree ts f w) = [map (cached_node w) ts]" "q_inode (new_name_tree ts f w) = 0"
  by (simp_all add: new_name_tree_def new_querytree_def)

lemma check_new_name:
  assumes "tag_tokens ts" "file_name env f"
  shows "tagsistant_querytree_check_tagging_consistency env (new_name_tree ts f w') w
    = Done (False, (new_name_tree ts f w')\<lparr>q_is_taggable := True, q_exists := False\<rparr>)"
proof -
  have f: "f \<noteq> ''''" "CHR ''/'' \<notin> set f" using assms(2) by (simp_all add: file_name_def)
  then have "first_element f = f" by (auto simp: first_element_def intro: takeWhile_eq_all_conv[THEN iffD2])
  then show ?thesis using f guess_disconnected[OF assms(1), of env w' f w]
    by (simp add: tagsistant_querytree_check_tagging_consistency_def)
qed

text \<open>The object gets another name, which no other object has.\<close>

lemma file_renamed:
  assumes "db_ok d" "file_at d f i T" "g = f \<or> no_file d g"
    and d': "d' = update_object (sint i) (\<lambda>r. r\<lparr>ob_name := g\<rparr>) d"
  shows "file_at d' g i T" "f \<noteq> g \<Longrightarrow> no_file d' f" "file_step i {f, g} {} 0 0 d d'"
proof -
  define h where "h = (\<lambda>r :: object_row. if ob_inode r = sint i then r\<lparr>ob_name := g\<rparr> else r)"
  have o: "map ob_inode (filter (\<lambda>r. ob_name r = f) (objects d)) = [sint i]" "i \<noteq> 0"
    using assms(2) by (auto simp: file_at_def only_object_def)
  have obj: "objects d' = map h (objects d)" by (simp add: d' update_object_def h_def)
  have oo: "only_object d f i" using assms(2) by (simp add: file_at_def)
  note named = only_object_rows(1)[OF oo] and only = only_object_rows(2)[OF oo _ assms(1)]
  have "sint i \<in> set (map ob_inode (filter (\<lambda>r. ob_name r = f) (objects d)))" using o by simp
  then have mem: "sint i \<in> set (map ob_inode (objects d))" by auto
  have iff: "ob_name (h r) = g \<longleftrightarrow> ob_inode r = sint i" if "r \<in> set (objects d)" for r
    using that assms(3) named by (auto simp: h_def no_file_def)
  have inode: "ob_inode (h r) = ob_inode r" for r by (simp add: h_def)
  have "filter (\<lambda>r. ob_name r = g) (map h (objects d)) = map h (filter (\<lambda>r. ob_inode r = sint i) (objects d))"
    using iff by (simp add: filter_map comp_def cong: filter_cong)
  then have "map ob_inode (filter (\<lambda>r. ob_name r = g) (map h (objects d))) = filter (\<lambda>y. y = sint i) (map ob_inode (objects d))"
    by (simp add: filter_map comp_def inode)
  also have "\<dots> = [sint i]" by (rule filter_eq_single) (use assms(1) mem in \<open>simp_all add: db_ok_def\<close>)
  finally have "only_object d' g i" using o by (simp add: only_object_def obj)
  moreover have "flat_id d' t = flat_id d t" "tags_of j d' = tags_of j d" for t j
    by (simp_all add: d' flat_id_def tag_id_of_def tags_of_def update_object_def)
  ultimately show "file_at d' g i T" using assms(2) by (simp add: file_at_def)
  show "no_file d' f" if "f \<noteq> g"
    using that named by (auto simp: no_file_def obj h_def split: if_splits)
  have "filter (\<lambda>r. ob_name r = x) (map h (objects d)) = filter (\<lambda>r. ob_name r = x) (objects d)" if "x \<notin> {f, g}" for x
  proof -
    have "ob_name (h r) = x \<longleftrightarrow> ob_name r = x" if "r \<in> set (objects d)" for r using that only \<open>x \<notin> {f, g}\<close> by (auto simp: h_def)
    then have "filter (\<lambda>r. ob_name r = x) (map h (objects d)) = map h (filter (\<lambda>r. ob_name r = x) (objects d))"
      by (simp add: filter_map comp_def cong: filter_cong)
    also have "\<dots> = map id (filter (\<lambda>r. ob_name r = x) (objects d))" using that only by (intro map_cong) (auto simp: h_def)
    finally show ?thesis by simp
  qed
  then show "file_step i {f, g} {} 0 0 d d'"
    by (simp add: file_step_def obj) (simp add: d' flat_id_def tag_id_of_def tags_of_def update_object_def)
qed

text \<open>The object gets the tags of a path.\<close>

lemma tag_nodes:
  assumes "store_inv env w" "tags_plain (db w)" "file_at (db w) f i T" "tag_tokens us" "tags_seq (db w) + int (length us) < 2 ^ 31 - 1"
    and q: "q_dbi q" "q_tree q = [map (cached_node w0) us]"
    and w1: "w1 = tagsistant_querytree_traverse q (tagsistant_sql_tag_object env) i w"
  shows "store_inv env w1" "tags_plain (db w1)" "fs w1 = fs w" "objects (db w1) = objects (db w)" "file_at (db w1) f i (T \<union> set us)"
    "file_step i {} (set us) (length us) 0 (db w) (db w1)"
proof -
  let ?as = "map (and_data \<circ> cached_node w0) us"
  have w1': "w1 = fold (traverse_node (\<lambda>n k v. tagsistant_sql_tag_object env True n k v i)) ?as w"
    by (simp add: w1 q tagsistant_querytree_traverse_def)
  have flat: "\<forall>t \<in> set us. flat_name t" using assms(4) by (simp add: tag_tokens_def tag_token_def)
  have named: "\<forall>a \<in> set ?as. named a"
    using flat by (auto simp: cached_node_def named_def new_and_data_def plain_key_def flat_name_def plain_def node_key_def)
  have room: "tags_seq (db w) + int (length ?as) < 2 ^ 31 - 1" using assms(5) by simp
  note T = tag_all[OF assms(1) named room w1']
  have key: "node_key (and_data (cached_node w0 t)) = (t, '''', '''')" for t by (simp add: cached_node_def)
  show "store_inv env w1" using T by simp
  have "\<forall>a \<in> set ?as. \<exists>t. an_tag a = Some t \<and> flat_name t" using flat by (simp add: cached_node_def)
  note P = tag_all_plain[OF assms(2) this room, of env i, folded w1']
  then show "tags_plain (db w1)" "fs w1 = fs w" by simp_all
  show obj: "objects (db w1) = objects (db w)" unfolding w1 by (rule tag_all_objects)
  have old: "\<forall>t \<in> T. flat_id (db w) t \<noteq> 0" "tags_of (sint i) (db w) = (\<lambda>t. sint (flat_id (db w) t)) ` T" "only_object (db w) f i"
    using assms(3) by (auto simp: file_at_def)
  have id: "flat_id (db w1) t = flat_id (db w) t" if "t \<in> T" for t using T old(1) that by (simp add: flat_id_def)
  have new: "\<forall>t \<in> set us. flat_id (db w1) t \<noteq> 0" using T by (simp add: flat_id_def key)
  have "tags_of (sint i) (db w1) = (\<lambda>t. sint (flat_id (db w) t)) ` T \<union> (\<lambda>t. sint (flat_id (db w1) t)) ` set us"
    using T old(2) by (simp add: flat_id_def key image_image)
  also have "(\<lambda>t. sint (flat_id (db w) t)) ` T = (\<lambda>t. sint (flat_id (db w1) t)) ` T" using id by (intro image_cong) simp_all
  finally have "tags_of (sint i) (db w1) = (\<lambda>t. sint (flat_id (db w1) t)) ` (T \<union> set us)" by (simp add: image_Un)
  then show "file_at (db w1) f i (T \<union> set us)"
    using old id new obj by (auto simp: file_at_def only_object_def)
  have "tags_seq (db w1) \<le> tags_seq (db w) + int (length us)" using tags_seq_nodes[of env True i ?as w] by (simp add: w1')
  moreover have "objects_seq (db w1) = objects_seq (db w)" unfolding w1' by (intro objects_seq_nodes objects_seq_tagging)
  moreover have "flat_id (db w1) t = flat_id (db w) t" if "t \<notin> set us" for t
  proof -
    have "(t, '''', '''') \<notin> node_key ` set ?as" using that by (auto simp: key)
    then show ?thesis using T unfolding flat_id_def by blast
  qed
  then have "flat_id (db w1) t \<noteq> 0 \<longleftrightarrow> flat_id (db w) t \<noteq> 0 \<or> t \<in> set us" for t using new T by (cases "t \<in> set us") auto
  moreover have "flat_id (db w) t \<noteq> 0 \<longrightarrow> flat_id (db w1) t = flat_id (db w) t" for t using T by (simp add: flat_id_def)
  ultimately show "file_step i {} (set us) (length us) 0 (db w) (db w1)" using T obj by (simp add: file_step_def)
qed

subsection \<open>The request\<close>

text \<open>What is used of the file system: a path that was renamed is there under the new name, and no path is lost but
  this one and what is below it.\<close>

definition rename_contract :: "'fs env \<Rightarrow> bool" where
  "rename_contract env \<longleftrightarrow>
     (\<forall>a b f. fst (os_rename (sys env) (Some a) (Some b) f) = None \<longrightarrow>
        present env b (snd (os_rename (sys env) (Some a) (Some b) f)) \<and>
        (\<forall>p. p \<noteq> a \<and> \<not> prefix (a @ ''/'') p \<and> present env p f \<longrightarrow> present env p (snd (os_rename (sys env) (Some a) (Some b) f))))"

lemma rename_file:
  assumes "served env w" "os_contract env" "rename_contract env" "file_name env f" "file_name env g"
    and at: "file_at (db w) f i T" "present env (object_file env i f) (fs w)" "g = f \<or> no_file (db w) g"
    and t: "tag_tokens ts" "tag_tokens us" "set ts \<subseteq> T" "tags_seq (db w) + int (length us) < 2 ^ 31 - 1"
    and m: "\<And>fs. present env (object_file env i f) fs \<Longrightarrow>
      fst (os_rename (sys env) (Some (object_file env i f)) (Some (object_file env i g)) fs) = None"
  shows "\<exists>w'. tagsistant_rename env (file_path ts f) (file_path us g) w = Done (None, w') \<and> served env w'
    \<and> file_at (db w') g i (T - set ts \<union> set us) \<and> present env (object_file env i g) (fs w') \<and> (f \<noteq> g \<longrightarrow> no_file (db w') f)
    \<and> file_step i {f, g} (set us) (length us) 0 (db w) (db w')
    \<and> fs w' = snd (os_rename (sys env) (Some (object_file env i f)) (Some (object_file env i g))
        (os_mkdir_with_parents (sys env) (archive_hierarchy env i) (os_mkdir_with_parents (sys env) (archive_hierarchy env i) (fs w))))"
proof -
  have ro: "row_order env" "db_ok (db w)" "tags_seq (db w) < 2 ^ 31" using assms(1) by (simp_all add: served_def store_inv_def tags_plain_def)
  have i: "i \<noteq> 0" using at(1) by (simp add: file_at_def only_object_def)
  have guess: "tagsistant_guess_inode_from_and_set env (map (flat_node (db w)) ts) True f w1 = Done i" if "db w1 = db w" for w1
    using guess_file[OF ro(1) _ _ _ t(1) that, of f i T] ro at(1) t(3) that by simp
  obtain w1 where 1: "tagsistant_querytree_new env (file_path ts f) True True False w = Done (file_tree env ts f True (db w) i, w1)"
      "store_inv env w1" "db w1 = db w" "fs w1 = os_mkdir_with_parents (sys env) (archive_hierarchy env i) (fs w)"
    using file_tree_new[OF assms(1) t(1) assms(4) guess, of True] i by auto
  let ?from = "(file_tree env ts f True (db w) i)\<lparr>q_is_taggable := True, q_exists := True\<rparr>"
  let ?to = "(new_name_tree us g w1)\<lparr>q_is_taggable := True, q_exists := False, q_dbi := True\<rparr>"
  let ?s = "tagsistant_querytree_set_inode env ?to i w1"
  define w2 where "w2 = sql_exec True (update_object (sint i) (\<lambda>r. r\<lparr>ob_name := g\<rparr>)) (snd ?s)"
  define w3 where "w3 = tagsistant_querytree_traverse ?from (tagsistant_sql_untag_object env) i w2"
  define w4 where "w4 = tagsistant_querytree_traverse (fst ?s) (tagsistant_sql_tag_object env) i w3"
  have s: "fs (snd ?s) = os_mkdir_with_parents (sys env) (archive_hierarchy env i) (fs w1)"
      "q_full_archive_path (fst ?s) = Some (object_file env i g)" "q_object_path (fst ?s) = Some g"
    using i by (simp_all add: tagsistant_querytree_set_inode_def tagsistant_querytree_rebuild_paths_def Let_def object_file_def printf_s_def)
  have pl: "tags_plain (db w1)" "file_at (db w1) f i T" "g = f \<or> no_file (db w1) g" using assms(1) at 1(3) by (simp_all add: served_def)
  have db2: "db w2 = update_object (sint i) (\<lambda>r. r\<lparr>ob_name := g\<rparr>) (db w1)" by (simp add: w2_def)
  have tagid: "tag_id_of (update_object j h d) v = tag_id_of d v" for j h d v by (simp add: tag_id_of_def update_object_def)
  have inv2: "store_inv env w2" unfolding w2_def
    by (intro store_inv_exec store_inv_set_inode 1(2) db_ok_update_object) (simp_all add: tagid)
  have pl2: "tags_plain (db w2)" "tags_seq (db w2) = tags_seq (db w)" using pl(1) 1(3) by (simp_all add: db2 tags_plain_def update_object_def)
  have ok1: "db_ok (db w1)" using 1(2) by (simp add: store_inv_def)
  note R = file_renamed[OF ok1 pl(2,3) db2]
  have w3: "w3 = fold (traverse_node (\<lambda>n k v. tagsistant_sql_untag_object env True n k v i)) (map (and_data \<circ> flat_node (db w)) ts) w2"
    by (simp add: w3_def tagsistant_querytree_traverse_def)
  note U = untag_nodes[OF inv2 pl2(1) R(1) t(1) w3]
  have "q_dbi (fst ?s)" "q_tree (fst ?s) = [map (cached_node w1) us]" by simp_all
  note G = tag_nodes[OF U(1,2,6) t(2) _ this w4_def, unfolded U(5) pl2(2), OF t(4)]
  have fs4: "fs w4 = fs (snd ?s)" by (simp add: G(3) U(3) w2_def)
  have a: "present env (archive env) (fs w4)" "present env (object_file env i f) (fs w4)"
    unfolding fs4 s(1) 1(4) using present_dirs[OF assms(2)] assms(1) at(2) by (auto simp: served_def present_iff)
  obtain fs5 where r: "os_rename (sys env) (Some (object_file env i f)) (Some (object_file env i g)) (fs w4) = (None, fs5)"
    using m[OF a(2)] by (metis prod.collapse)
  have "fst (os_rename (sys env) (Some (object_file env i f)) (Some (object_file env i g)) (fs w4)) = None" by (simp add: r)
  moreover have "\<not> prefix (object_file env i f @ ''/'') (archive env)"
    by (auto simp: object_file_def archive_hierarchy_def dest: prefix_length_le)
  ultimately have p5: "present env (object_file env i g) fs5" "present env (archive env) fs5"
    using assms(3) a(1) archive_not_object[of env i f] unfolding rename_contract_def by (metis r snd_conv)+
  have obj: "rename_object env ?from ?to w1 = Done (Exit_ok, ?from, w4\<lparr>fs := fs5\<rparr>)"
    using i s r by (simp add: rename_object_def Let_def split_beta w2_def[symmetric] w3_def[symmetric] w4_def[symmetric] printf_s_def sys_exit_def)
  have body: "rename_body (file_path us g) env (file_tree env ts f True (db w) i) w1 = Done (Exit_ok, ?from, w4\<lparr>fs := fs5\<rparr>)"
    using check_file[OF assms(4) guess[OF 1(3)], of True i] i new_name_tree_new[OF t(2) assms(5), of w1] check_new_name[OF t(2) assms(5), of w1 w1] obj
    by (simp add: rename_body_def rename_dispatch_def)
  let ?w' = "tagsistant_querytree_destroy env ?from True (w4\<lparr>fs := fs5\<rparr>)"
  have run: "tagsistant_rename env (file_path ts f) (file_path us g) w = Done (None, ?w')"
    by (simp add: tagsistant_rename_def run_operation_def 1(1) body exit_operation_def)
  have w': "fs ?w' = fs5" "db ?w' = db w4" "tag_cache ?w' = tag_cache w4" by simp_all
  have "served env ?w'" using G(1,2) w' p5(2) by (simp add: served_def store_inv_def cache_coherent_def present_iff)
  moreover have "no_file (db w4) f" if "f \<noteq> g" using R(2)[OF that] G(4) U(4) by (simp add: no_file_def)
  moreover have "file_step i {f, g} (set us) (length us) 0 (db w) (db w4)"
    using file_step_trans[OF file_step_trans[OF R(3) U(7)] G(6)] 1(3) by simp
  moreover have "fs5 = snd (os_rename (sys env) (Some (object_file env i f)) (Some (object_file env i g))
      (os_mkdir_with_parents (sys env) (archive_hierarchy env i) (os_mkdir_with_parents (sys env) (archive_hierarchy env i) (fs w))))"
    using r by (simp add: fs4 s(1) 1(4))
  ultimately show ?thesis using run G(5) w' p5(1) by (intro exI[of _ ?w']) simp
qed



subsection \<open>A concrete instance\<close>

lemma sample_rename_contract: "rename_contract sample_env"
  unfolding rename_contract_def present_sample
  by (auto simp: sample_env_def sample_os_def sample_rename_def split: if_splits)


end
