(* ===== verification/Store_Sessions.thy ===== *)
theory Store_Sessions
  imports File_Rename Fuse_Server
begin

section \<open>Sessions over tags/ and the files of store/\<close>

text \<open>
  Tagsistant as its users see it: a set of tags and a map from the names of files to sets of tags. The requests of a session that
  make, remove, look up and list tags of \<^verbatim>\<open>tags/\<close> and that make, remove, rename and look up files of
  \<^verbatim>\<open>store/\<close> are each an operation on the two, and the daemon, the table of operations with path
  resolution, the tables and the underlying file system below it, implements them.
\<close>

subsection \<open>The paths of objects\<close>

lemma fmt_d_chars: "CHR ''/'' \<notin> set (fmt_d i)" "CHR ''_'' \<notin> set (fmt_d i)"
  using dec_digits[of "nat (- sint i)"] dec_digits[of "nat (sint i)"] by (auto simp: fmt_d_def)

lemma fmt_d_inj: "fmt_d i = fmt_d j \<Longrightarrow> i = j"
proof -
  assume a: "fmt_d i = fmt_d j"
  have h: "CHR ''-'' # s \<noteq> dec n" for s n using dec_digits[of n] by (metis list.set_intros(1) not_digit_simps(3))
  have "sint i = sint j"
    using a h h[symmetric] by (auto simp: fmt_d_def dec_inj split: if_splits)
  then show "i = j" by (rule signed_word_eqI)
qed

definition object_dir :: "tagsistant_inode \<Rightarrow> string" where
  "object_dir i = concat (map (\<lambda>c. [CHR ''/'', c]) (rev (fmt_u (i mod TAGSISTANT_ARCHIVE_DEPTH)))) @ ''/'' @ fmt_d i"

lemma object_file_dir: "object_file env i f = archive env @ object_dir i @ ''___'' @ f"
  by (simp add: object_file_def archive_hierarchy_def object_dir_def)

lemma fmt_u_chars: "CHR ''/'' \<notin> set (fmt_u k)" "CHR ''_'' \<notin> set (fmt_u k)"
  using dec_digits[of "unat k"] by (auto simp: fmt_u_def)

lemma object_dir_chars: "CHR ''_'' \<notin> set (object_dir i)"
  using fmt_u_chars(2) fmt_d_chars(2)[of i] by (auto simp: object_dir_def)

lemma object_dir_inj: "object_dir i = object_dir j \<Longrightarrow> i = j"
proof -
  have "takeWhile (\<lambda>c. c \<noteq> CHR ''/'') (rev (object_dir i)) = rev (fmt_d i)" for i
  proof -
    have "\<forall>c \<in> set (rev (fmt_d i)). c \<noteq> CHR ''/''" using fmt_d_chars(1)[of i] by auto
    then show ?thesis by (simp add: object_dir_def takeWhile_append)
  qed
  then show "object_dir i = object_dir j \<Longrightarrow> i = j" by (metis fmt_d_inj rev_rev_ident)
qed

lemma upto_underscore: "takeWhile (\<lambda>c. c \<noteq> CHR ''_'') (object_dir i @ ''___'' @ s) = object_dir i"
  using object_dir_chars[of i] by (subst takeWhile_append2) auto

lemma object_file_inj: "object_file env i f = object_file env j g \<longleftrightarrow> i = j \<and> f = g"
proof
  assume a: "object_file env i f = object_file env j g"
  then have "object_dir i @ ''___'' @ f = object_dir j @ ''___'' @ g" by (simp add: object_file_dir)
  moreover from this have "object_dir i = object_dir j" by (metis upto_underscore)
  ultimately show "i = j \<and> f = g" using object_dir_inj by simp
qed simp

lemma object_not_dir: "\<not> prefix (object_file env i f) (archive_hierarchy env j)"
proof
  assume "prefix (object_file env i f) (archive_hierarchy env j)"
  then have "CHR ''_'' \<in> set (concat (map (\<lambda>c. [CHR ''/'', c]) (rev (fmt_u (j mod TAGSISTANT_ARCHIVE_DEPTH)))))"
    by (simp add: object_file_dir archive_hierarchy_def prefix_def del: set_concat set_map) (metis in_set_conv_decomp append.assoc append_Cons)
  then show False using fmt_u_chars(2)[of "j mod TAGSISTANT_ARCHIVE_DEPTH"] by (auto split: if_splits)
qed

lemma object_not_below: "CHR ''/'' \<notin> set g \<Longrightarrow> \<not> prefix (object_file env i f @ ''/'') (object_file env j g)"
proof
  assume g: "CHR ''/'' \<notin> set g" and "prefix (object_file env i f @ ''/'') (object_file env j g)"
  then obtain s where s: "object_dir j @ ''___'' @ g = object_dir i @ ''___'' @ f @ ''/'' @ s"
    by (auto simp: object_file_dir prefix_def)
  then have "object_dir j = object_dir i" by (metis upto_underscore)
  then have "g = f @ ''/'' @ s" using s by simp
  then show False using g by simp
qed

subsection \<open>The underlying file system\<close>

text \<open>
  A disk that does what POSIX says of the files of the archive and has room for them: making the directories of a
  path makes nothing else; a node is made in a directory that was made if nothing has its name; the file of an object can be
  removed and renamed; and none of the calls touches another path, what is below a renamed one aside.
\<close>

definition makes_directories :: "'fs env \<Rightarrow> bool" where
  "makes_directories env \<longleftrightarrow> (\<forall>p d f.
     (present env p f \<longrightarrow> present env p (os_mkdir_with_parents (sys env) d f)) \<and>
     (present env p (os_mkdir_with_parents (sys env) d f) \<longrightarrow> present env p f \<or> prefix p d))"

definition makes_nodes :: "'fs env \<Rightarrow> bool" where
  "makes_nodes env \<longleftrightarrow>
     (\<forall>d x m dev f. CHR ''/'' \<notin> set x \<and> \<not> present env (d @ ''/'' @ x) (os_mkdir_with_parents (sys env) d f) \<longrightarrow>
        fst (os_mknod (sys env) (Some (d @ ''/'' @ x)) m dev (os_mkdir_with_parents (sys env) d f)) = None) \<and>
     (\<forall>p n m dev f. present env p (snd (os_mknod (sys env) (Some n) m dev f)) \<longleftrightarrow>
        present env p f \<or> p = n \<and> fst (os_mknod (sys env) (Some n) m dev f) = None)"

definition removes_files :: "'fs env \<Rightarrow> bool" where
  "removes_files env \<longleftrightarrow>
     (\<forall>i x f. present env (object_file env i x) f \<longrightarrow> fst (os_unlink (sys env) (Some (object_file env i x)) f) = None) \<and>
     (\<forall>p n f. present env p (snd (os_unlink (sys env) (Some n) f)) \<longleftrightarrow>
        present env p f \<and> (p \<noteq> n \<or> fst (os_unlink (sys env) (Some n) f) \<noteq> None))"

definition renames_files :: "'fs env \<Rightarrow> bool" where
  "renames_files env \<longleftrightarrow>
     (\<forall>i x y f. present env (object_file env i x) f \<longrightarrow>
        fst (os_rename (sys env) (Some (object_file env i x)) (Some (object_file env i y)) f) = None) \<and>
     (\<forall>p a b f. fst (os_rename (sys env) (Some a) (Some b) f) = None \<longrightarrow>
        present env b (snd (os_rename (sys env) (Some a) (Some b) f)) \<and>
        (p \<noteq> a \<and> \<not> prefix (a @ ''/'') p \<and> present env p f \<longrightarrow> present env p (snd (os_rename (sys env) (Some a) (Some b) f))) \<and>
        (p \<noteq> b \<and> \<not> prefix (b @ ''/'') p \<and> present env p (snd (os_rename (sys env) (Some a) (Some b) f)) \<longrightarrow> present env p f))"

definition disk :: "'fs env \<Rightarrow> bool" where
  "disk env \<longleftrightarrow> makes_directories env \<and> makes_nodes env \<and> removes_files env \<and> renames_files env"

lemma disk_contracts:
  assumes "disk env"
  shows "os_contract env" "rename_contract env"
  using assms by (simp_all add: disk_def os_contract_def makes_directories_def makes_nodes_def removes_files_def
      rename_contract_def renames_files_def)

lemma disk_dirs:
  assumes "disk env"
  shows "present env (object_file env i f) (os_mkdir_with_parents (sys env) (archive_hierarchy env j) s) \<longleftrightarrow> present env (object_file env i f) s"
  using assms object_not_dir[of env i f j] unfolding disk_def makes_directories_def by blast

lemma disk_mknod:
  assumes "disk env" "CHR ''/'' \<notin> set f" "\<not> present env (object_file env i f) s"
  shows "fst (os_mknod (sys env) (Some (object_file env i f)) mode rdev (os_mkdir_with_parents (sys env) (archive_hierarchy env i) s)) = None"
proof -
  have "CHR ''/'' \<notin> set (fmt_d i @ ''___'' @ f)" using assms(2) fmt_d_chars(1)[of i] by auto
  moreover have "object_file env i f = archive_hierarchy env i @ ''/'' @ (fmt_d i @ ''___'' @ f)" by (simp add: object_file_def)
  moreover have "\<not> present env (object_file env i f) (os_mkdir_with_parents (sys env) (archive_hierarchy env i) s)"
    using assms(3) disk_dirs[OF assms(1), of i f i s] by simp
  ultimately show ?thesis using assms(1) unfolding disk_def makes_nodes_def by metis
qed

subsection \<open>The abstract machine\<close>

record tag_store =
  ts_tags :: "string set"
  ts_files :: "string \<Rightarrow> string set option"

datatype user_request =
    Make_tag string nat
  | Drop_tag string
  | Look_tag string stat
  | List_tags
  | Create "string list" string nat nat
  | Remove "string list" string
  | Move "string list" string "string list" string
  | Look "string list" string stat

text \<open>The request to the daemon.\<close>

fun request_of :: "user_request \<Rightarrow> request" where
  "request_of (Make_tag n mode) = Mkdir (path_of [''tags'', n]) mode"
| "request_of (Drop_tag n) = Rmdir (path_of [''tags'', n])"
| "request_of (Look_tag n st) = Getattr (path_of [''tags'', n]) st"
| "request_of List_tags = Readdir ''/tags''"
| "request_of (Create ts f mode rdev) = Mknod (file_path ts f) mode rdev"
| "request_of (Remove ts f) = Unlink (file_path ts f)"
| "request_of (Move ts f us g) = Rename (file_path ts f) (file_path us g)"
| "request_of (Look ts f st) = Getattr (file_path ts f) st"

text \<open>What the requests need: the kernel looks a file or a tag up before it removes or renames it, and makes no
  file that exists.\<close>

definition has_tags :: "tag_store \<Rightarrow> string \<Rightarrow> string list \<Rightarrow> bool" where
  "has_tags A f ts \<longleftrightarrow> (case ts_files A f of None \<Rightarrow> False | Some T \<Rightarrow> set ts \<subseteq> T)"

fun allowed :: "'fs env \<Rightarrow> tag_store \<Rightarrow> user_request \<Rightarrow> bool" where
  "allowed env A (Make_tag n mode) \<longleftrightarrow> flat_name n"
| "allowed env A (Drop_tag n) \<longleftrightarrow> flat_name n \<and> n \<in> ts_tags A"
| "allowed env A (Look_tag n st) \<longleftrightarrow> flat_name n"
| "allowed env A List_tags \<longleftrightarrow> True"
| "allowed env A (Create ts f mode rdev) \<longleftrightarrow> tag_tokens ts \<and> file_name env f \<and> ts_files A f = None"
| "allowed env A (Remove ts f) \<longleftrightarrow> tag_tokens ts \<and> file_name env f \<and> has_tags A f ts"
| "allowed env A (Move ts f us g) \<longleftrightarrow> tag_tokens ts \<and> tag_tokens us \<and> file_name env f \<and> file_name env g \<and>
     has_tags A f ts \<and> (g = f \<or> ts_files A g = None)"
| "allowed env A (Look ts f st) \<longleftrightarrow> tag_tokens ts \<and> file_name env f"

text \<open>What they do: a file takes the tags of its path, which are made with it, and dropping a tag takes it from
  every file, which stays even with none left.\<close>

fun effect :: "user_request \<Rightarrow> tag_store \<Rightarrow> tag_store" where
  "effect (Make_tag n mode) A = A\<lparr>ts_tags := insert n (ts_tags A)\<rparr>"
| "effect (Drop_tag n) A = \<lparr>ts_tags = ts_tags A - {n}, ts_files = map_option (\<lambda>T. T - {n}) \<circ> ts_files A\<rparr>"
| "effect (Look_tag n st) A = A"
| "effect List_tags A = A"
| "effect (Create ts f mode rdev) A = \<lparr>ts_tags = ts_tags A \<union> set ts, ts_files = (ts_files A)(f \<mapsto> set ts)\<rparr>"
| "effect (Remove ts f) A = A\<lparr>ts_files := (ts_files A)(f :=
     (let T = the (ts_files A f) in if T = set ts then None else Some (T - set ts)))\<rparr>"
| "effect (Move ts f us g) A = \<lparr>ts_tags = ts_tags A \<union> set us,
     ts_files = ((ts_files A)(f := None))(g \<mapsto> the (ts_files A f) - set ts \<union> set us)\<rparr>"
| "effect (Look ts f st) A = A"

text \<open>What a client sees of a reply: the error, and of a listing the names of flat tags.\<close>

definition listed :: "string \<Rightarrow> bool" where
  "listed n \<longleftrightarrow> flat_name n \<and> n \<noteq> ''.'' \<and> n \<noteq> ''..''"

fun seen :: "errno option \<times> payload \<Rightarrow> errno option \<times> string set" where
  "seen (e, Names ns) = (e, {n \<in> set ns. listed n})"
| "seen (e, x) = (e, {})"

fun reply :: "tag_store \<Rightarrow> user_request \<Rightarrow> errno option \<times> string set" where
  "reply A (Look_tag n st) = (if n \<in> ts_tags A then None else Some ENOENT, {})"
| "reply A (Look ts f st) = (if has_tags A f ts then None else Some ENOENT, {})"
| "reply A List_tags = (None, {n \<in> ts_tags A. listed n})"
| "reply A r = (None, {})"

fun all_allowed :: "'fs env \<Rightarrow> tag_store \<Rightarrow> user_request list \<Rightarrow> bool" where
  "all_allowed env A [] \<longleftrightarrow> True"
| "all_allowed env A (r # rs) \<longleftrightarrow> allowed env A r \<and> all_allowed env (effect r A) rs"

fun replies :: "tag_store \<Rightarrow> user_request list \<Rightarrow> (errno option \<times> string set) list" where
  "replies A [] = []"
| "replies A (r # rs) = reply A r # replies (effect r A) rs"

fun new_tags :: "user_request \<Rightarrow> nat" where
  "new_tags (Make_tag n mode) = 1"
| "new_tags (Create ts f mode rdev) = length ts"
| "new_tags (Move ts f us g) = length us"
| "new_tags r = 0"

text \<open>The daemon: the replies to the requests, one after the other.\<close>

fun serve :: "'fs env \<Rightarrow> configuration \<Rightarrow> request list \<Rightarrow> 'fs world \<Rightarrow> ((errno option \<times> payload) list \<times> 'fs world) run" where
  "serve env c [] w = Done ([], w)"
| "serve env c (r # rs) w = run_bind (tagsistant_oper env c r w)
     (\<lambda>(x, w1). run_bind (serve env c rs w1) (\<lambda>(xs, w2). Done (x # xs, w2)))"

subsection \<open>The relation between the two\<close>

definition stored_file :: "'fs env \<Rightarrow> string \<Rightarrow> string set option \<Rightarrow> 'fs world \<Rightarrow> bool" where
  "stored_file env f a w = (case a of None \<Rightarrow> no_file (db w) f
     | Some T \<Rightarrow> \<exists>i. file_at (db w) f i T \<and> present env (object_file env i f) (fs w))"

definition unused :: "'fs env \<Rightarrow> int \<Rightarrow> 'fs world \<Rightarrow> bool" where
  "unused env j w \<longleftrightarrow> tags_of j (db w) = {} \<and>
     (\<forall>f. CHR ''/'' \<notin> set f \<longrightarrow> \<not> present env (object_file env (word_of_int j) f) (fs w))"

definition stored :: "'fs env \<Rightarrow> tag_store \<Rightarrow> 'fs world \<Rightarrow> bool" where
  "stored env A w \<longleftrightarrow> served env w \<and> (\<forall>n. flat_name n \<longrightarrow> (flat_id (db w) n \<noteq> 0 \<longleftrightarrow> n \<in> ts_tags A)) \<and>
     (\<forall>f. CHR ''/'' \<notin> set f \<longrightarrow> stored_file env f (ts_files A f) w) \<and>
     (\<forall>j. objects_seq (db w) < j \<and> j < 2 ^ 31 \<longrightarrow> unused env j w)"

lemma file_at_step:
  assumes "file_step i F N n m d d'" "file_at d f j T" "f \<notin> F" "j \<noteq> i"
  shows "file_at d' f j T"
proof -
  have "sint j \<noteq> sint i" using assms(4) signed_word_eqI by blast
  then show ?thesis using assms by (auto simp: file_at_def file_step_def only_object_def)
qed

lemma no_file_filter: "no_file d f \<longleftrightarrow> filter (\<lambda>r. ob_name r = f) (objects d) = []"
  by (simp add: no_file_def filter_empty_conv)

lemma stored_same:
  assumes "stored env A w" "served env w'" "db w' = db w" "fs w' = fs w"
  shows "stored env A w'"
proof -
  have "stored_file env f a w' = stored_file env f a w" for f a by (simp add: stored_file_def assms(3,4) split: option.split)
  then show ?thesis using assms by (simp add: stored_def unused_def)
qed

text \<open>A request on the object \<open>i\<close> keeps the relation when it does for the names it is about.\<close>

lemma stored_step:
  assumes S: "stored env A w" and w': "served env w'" "file_step i F N n m (db w) (db w')"
    and names: "\<forall>f. f \<notin> F \<longrightarrow> ts_files A' f = ts_files A f" and new: "ts_tags A' = ts_tags A \<union> N"
    and own: "\<forall>f \<in> F. CHR ''/'' \<notin> set f \<longrightarrow> stored_file env f (ts_files A' f) w'"
    and i: "sint i \<le> objects_seq (db w')" "\<forall>f T. f \<notin> F \<longrightarrow> \<not> file_at (db w) f i T"
    and fs: "\<forall>f j. CHR ''/'' \<notin> set f \<longrightarrow> j \<noteq> i \<longrightarrow> present env (object_file env j f) (fs w') = present env (object_file env j f) (fs w)"
  shows "stored env A' w'"
  unfolding stored_def
proof (intro conjI allI impI)
  show "served env w'" by (rule w'(1))
  show "flat_id (db w') n \<noteq> 0 \<longleftrightarrow> n \<in> ts_tags A'" if "flat_name n" for n
    using S w'(2) new that by (auto simp: stored_def file_step_def)
next
  fix f assume f: "CHR ''/'' \<notin> set f"
  show "stored_file env f (ts_files A' f) w'"
  proof (cases "f \<in> F")
    case False
    then have old: "stored_file env f (ts_files A f) w" "ts_files A' f = ts_files A f" using S f names by (simp_all add: stored_def)
    have none: "no_file (db w') f" if "no_file (db w) f" using that w'(2) False by (simp add: no_file_filter file_step_def)
    have some: "file_at (db w') f j T \<and> present env (object_file env j f) (fs w')"
      if "file_at (db w) f j T" "present env (object_file env j f) (fs w)" for j T
    proof -
      have "j \<noteq> i" using i(2) False that(1) by blast
      then show ?thesis using file_at_step[OF w'(2) that(1) False] fs f that(2) by simp
    qed
    show ?thesis using old none some by (auto simp: stored_file_def split: option.splits)
  qed (use own f in simp)
next
  fix j assume j: "objects_seq (db w') < j \<and> j < 2 ^ 31"
  have seq: "objects_seq (db w) \<le> objects_seq (db w')" using w'(2) by (simp add: file_step_def)
  then have u: "unused env j w" using S j by (simp add: stored_def)
  have ji: "j \<noteq> sint i" using i(1) j by simp
  have "0 \<le> objects_seq (db w')" using w'(1) by (simp add: served_def store_inv_def db_ok_def)
  then have "sint (word_of_int j :: 32 word) = j" using j by (intro sint_word_of_int32) simp_all
  then have "word_of_int j \<noteq> i" using ji by auto
  then show "unused env j w'" using u w'(2) ji fs by (simp add: unused_def file_step_def)
qed

text \<open>An object has one name, and its inode was given out.\<close>

lemma file_at_inode:
  assumes "served env w" "file_at (db w) f i T"
  shows "sint i \<le> objects_seq (db w)" "file_at (db w) g i U \<Longrightarrow> g = f"
proof -
  have o: "only_object (db w) f i" and ok: "db_ok (db w)" using assms by (simp_all add: file_at_def served_def store_inv_def)
  then have "sint i \<in> ob_inode ` set (filter (\<lambda>r. ob_name r = f) (objects (db w)))" by (metis image_set list.set_intros(1) only_object_def)
  then obtain r where r: "r \<in> set (objects (db w))" "ob_inode r = sint i" "ob_name r = f" by auto
  then show "sint i \<le> objects_seq (db w)" using ok by (auto simp: db_ok_def)
  show "g = f" if "file_at (db w) g i U"
    using only_object_rows(2)[of "db w" g i r] that r ok by (simp add: file_at_def)
qed

subsection \<open>The requests\<close>

definition simulates :: "'fs env \<Rightarrow> configuration \<Rightarrow> tag_store \<Rightarrow> user_request \<Rightarrow> 'fs world \<Rightarrow> bool" where
  "simulates env c A r w \<longleftrightarrow> (\<exists>x w'. tagsistant_oper env c (request_of r) w = Done (x, w') \<and> seen x = reply A r \<and> stored env (effect r A) w' \<and>
     tags_seq (db w') \<le> tags_seq (db w) + int (new_tags r) \<and> objects_seq (db w') \<le> objects_seq (db w) + 1)"

lemma simulatesI:
  assumes "tagsistant_oper env c (request_of r) w = Done ((e, x), w')" "seen (e, x) = reply A r" "stored env (effect r A) w'"
    and "tags_seq (db w') \<le> tags_seq (db w) + int (new_tags r)" "objects_seq (db w') \<le> objects_seq (db w) + 1"
  shows "simulates env c A r w"
  using assms unfolding simulates_def by blast

lemma file_name_slash: "file_name env f \<Longrightarrow> CHR ''/'' \<notin> set f"
  by (simp add: file_name_def)

lemma stored_at: "stored env A w \<Longrightarrow> CHR ''/'' \<notin> set f \<Longrightarrow> stored_file env f (ts_files A f) w"
  by (simp add: stored_def)

lemma stored_some:
  assumes "stored env A w" "ts_files A f = Some T" "CHR ''/'' \<notin> set f"
  obtains i where "file_at (db w) f i T" "present env (object_file env i f) (fs w)"
  using stored_at[OF assms(1,3)] assms(2) by (auto simp: stored_file_def)

lemma stored_none: "stored env A w \<Longrightarrow> ts_files A f = None \<Longrightarrow> CHR ''/'' \<notin> set f \<Longrightarrow> no_file (db w) f"
  using stored_at[of env A w f] by (simp add: stored_file_def)

lemma create_simulates:
  assumes "disk env" "stored env A w" "allowed env A (Create ts f mode rdev)"
    and room: "tags_seq (db w) + int (length ts) < 2 ^ 31 - 1" "objects_seq (db w) < 2 ^ 31 - 1"
  shows "simulates env c A (Create ts f mode rdev) w"
proof -
  let ?i = "next_inode (db w)"
  have sl: "CHR ''/'' \<notin> set f" and t: "tag_tokens ts" "file_name env f" "ts_files A f = None" using assms(3) by (auto dest: file_name_slash)
  have s: "served env w" using assms(2) by (simp add: stored_def)
  then have ok: "db_ok (db w)" by (simp add: served_def store_inv_def)
  note I = next_inode_facts[OF ok room(2)]
  have u: "unused env (objects_seq (db w) + 1) w" using assms(2) room(2) by (simp add: stored_def)
  then have free: "\<not> present env (object_file env ?i f) (fs w)" using sl by (simp add: unused_def next_inode_def)
  have "object_room (db w) (length ts)" using u room by (simp add: object_room_def unused_def)
  moreover have "fst (new_file_fs env f mode rdev w) = None"
    using disk_mknod[OF assms(1) sl free] by (simp add: new_file_fs_def Let_def)
  ultimately obtain w' where 1: "tagsistant_mknod env (file_path ts f) mode rdev w = Done (None, w')" "served env w'"
      "file_at (db w') f ?i (set ts)" "present env (object_file env ?i f) (fs w')" "file_step ?i {f} (set ts) (length ts) 1 (db w) (db w')"
      "fs w' = snd (new_file_fs env f mode rdev w)"
    using mknod_file[OF s disk_contracts(1)[OF assms(1)] stored_none[OF assms(2) t(3) sl] t(1,2)] by blast
  have seq: "objects_seq (db w') = objects_seq (db w) + 1" "tags_seq (db w') \<le> tags_seq (db w) + int (length ts)"
    using 1(5) by (simp_all add: file_step_def)
  have "stored env (effect (Create ts f mode rdev) A) w'"
  proof (rule stored_step[OF assms(2) 1(2,5)])
    show "\<forall>x \<in> {f}. CHR ''/'' \<notin> set x \<longrightarrow> stored_file env x (ts_files (effect (Create ts f mode rdev) A) x) w'"
      using 1(3,4) by (auto simp: stored_file_def)
    show "sint ?i \<le> objects_seq (db w')" using I(1) seq(1) by simp
    show "\<forall>x T. x \<notin> {f} \<longrightarrow> \<not> file_at (db w) x ?i T" using file_at_inode(1)[OF s, of _ ?i] I(1) by force
    show "\<forall>x j. CHR ''/'' \<notin> set x \<longrightarrow> j \<noteq> ?i \<longrightarrow> present env (object_file env j x) (fs w') = present env (object_file env j x) (fs w)"
    proof (intro allI impI)
      fix x j assume "j \<noteq> ?i"
      then have "object_file env j x \<noteq> object_file env ?i f" by (simp add: object_file_inj)
      moreover have "present env p (snd (os_mknod (sys env) (Some q) m rdev z)) \<longleftrightarrow> present env p z" if "p \<noteq> q" for p q m z
        using assms(1) that by (simp add: disk_def makes_nodes_def)
      ultimately show "present env (object_file env j x) (fs w') = present env (object_file env j x) (fs w)"
        by (simp add: 1(6) new_file_fs_def Let_def disk_dirs[OF assms(1)])
    qed
  qed simp_all
  then show ?thesis using 1(1) seq by (intro simulatesI[of env c _ w None Empty w']) (simp_all add: oper_simps)
qed

lemma remove_simulates:
  assumes "disk env" "stored env A w" "allowed env A (Remove ts f)"
  shows "simulates env c A (Remove ts f) w"
proof -
  obtain T where T: "ts_files A f = Some T" "set ts \<subseteq> T" using assms(3) by (auto simp: has_tags_def split: option.splits)
  have sl: "CHR ''/'' \<notin> set f" and t: "tag_tokens ts" "file_name env f" using assms(3) by (auto dest: file_name_slash)
  have s: "served env w" using assms(2) by (simp add: stored_def)
  obtain i where i: "file_at (db w) f i T" "present env (object_file env i f) (fs w)" using stored_some[OF assms(2) T(1) sl] .
  have ok: "fst (os_unlink (sys env) (Some (object_file env i f)) z) = None" if "present env (object_file env i f) z" for z
    using assms(1) that by (simp add: disk_def removes_files_def)
  obtain w' where 1: "tagsistant_unlink env (file_path ts f) w = Done (None, w')" "served env w'"
      "if T = set ts then no_file (db w') f else file_at (db w') f i (T - set ts) \<and> present env (object_file env i f) (fs w')"
      "file_step i {f} {} 0 0 (db w) (db w')"
      "fs w' = (if T = set ts then snd (os_unlink (sys env) (Some (object_file env i f)) (os_mkdir_with_parents (sys env) (archive_hierarchy env i) (fs w)))
        else os_mkdir_with_parents (sys env) (archive_hierarchy env i) (fs w))"
    using unlink_file[OF s disk_contracts(1)[OF assms(1)] i(1) t(1) T(2) t(2) i(2) ok] by blast
  have seq: "objects_seq (db w') = objects_seq (db w)" "tags_seq (db w') \<le> tags_seq (db w)" using 1(4) by (simp_all add: file_step_def)
  have "stored env (effect (Remove ts f) A) w'"
  proof (rule stored_step[OF assms(2) 1(2,4)])
    show "\<forall>x \<in> {f}. CHR ''/'' \<notin> set x \<longrightarrow> stored_file env x (ts_files (effect (Remove ts f) A) x) w'"
      using 1(3) T(1) by (cases "T = set ts") (auto simp: stored_file_def)
    show "sint i \<le> objects_seq (db w')" using file_at_inode(1)[OF s i(1)] seq by simp
    show "\<forall>x U. x \<notin> {f} \<longrightarrow> \<not> file_at (db w) x i U" using file_at_inode(2)[OF s i(1)] by blast
    show "\<forall>x j. CHR ''/'' \<notin> set x \<longrightarrow> j \<noteq> i \<longrightarrow> present env (object_file env j x) (fs w') = present env (object_file env j x) (fs w)"
    proof (intro allI impI)
      fix x j assume "j \<noteq> i"
      then have "object_file env j x \<noteq> object_file env i f" by (simp add: object_file_inj)
      moreover have "present env p (snd (os_unlink (sys env) (Some q) z)) \<longleftrightarrow> present env p z" if "p \<noteq> q" for p q z
        using assms(1) that by (simp add: disk_def removes_files_def)
      ultimately show "present env (object_file env j x) (fs w') = present env (object_file env j x) (fs w)"
        by (simp add: 1(5) disk_dirs[OF assms(1)])
    qed
  qed simp_all
  then show ?thesis using 1(1) seq by (intro simulatesI[of env c _ w None Empty w']) (simp_all add: oper_simps)
qed

lemma move_simulates:
  assumes "disk env" "stored env A w" "allowed env A (Move ts f us g)" and room: "tags_seq (db w) + int (length us) < 2 ^ 31 - 1"
  shows "simulates env c A (Move ts f us g) w"
proof -
  obtain T where T: "ts_files A f = Some T" "set ts \<subseteq> T" using assms(3) by (auto simp: has_tags_def split: option.splits)
  have sl: "CHR ''/'' \<notin> set f" "CHR ''/'' \<notin> set g" and t: "tag_tokens ts" "tag_tokens us" "file_name env f" "file_name env g"
    and g: "g = f \<or> ts_files A g = None"
    using assms(3) by (auto dest: file_name_slash)
  have s: "served env w" using assms(2) by (simp add: stored_def)
  obtain i where i: "file_at (db w) f i T" "present env (object_file env i f) (fs w)" using stored_some[OF assms(2) T(1) sl(1)] .
  have gf: "g = f \<or> no_file (db w) g" using g stored_none[OF assms(2) _ sl(2)] by blast
  have ok: "fst (os_rename (sys env) (Some (object_file env i f)) (Some (object_file env i g)) z) = None"
    if "present env (object_file env i f) z" for z
    using assms(1) that by (simp add: disk_def renames_files_def)
  let ?z = "os_mkdir_with_parents (sys env) (archive_hierarchy env i) (os_mkdir_with_parents (sys env) (archive_hierarchy env i) (fs w))"
  obtain w' where 1: "tagsistant_rename env (file_path ts f) (file_path us g) w = Done (None, w')" "served env w'"
      "file_at (db w') g i (T - set ts \<union> set us)" "present env (object_file env i g) (fs w')" "f \<noteq> g \<longrightarrow> no_file (db w') f"
      "file_step i {f, g} (set us) (length us) 0 (db w) (db w')"
      "fs w' = snd (os_rename (sys env) (Some (object_file env i f)) (Some (object_file env i g)) ?z)"
    using rename_file[OF s disk_contracts[OF assms(1)] t(3,4) i gf t(1,2) T(2) room ok] by blast
  have seq: "objects_seq (db w') = objects_seq (db w)" "tags_seq (db w') \<le> tags_seq (db w) + int (length us)"
    using 1(6) by (simp_all add: file_step_def)
  have "present env (object_file env i f) ?z" using i(2) by (simp add: disk_dirs[OF assms(1)])
  note moved = ok[OF this]
  have "stored env (effect (Move ts f us g) A) w'"
  proof (rule stored_step[OF assms(2) 1(2,6)])
    show "\<forall>x \<in> {f, g}. CHR ''/'' \<notin> set x \<longrightarrow> stored_file env x (ts_files (effect (Move ts f us g) A) x) w'"
      using 1(3-5) T(1) by (auto simp: stored_file_def)
    show "sint i \<le> objects_seq (db w')" using file_at_inode(1)[OF s i(1)] seq by simp
    show "\<forall>x U. x \<notin> {f, g} \<longrightarrow> \<not> file_at (db w) x i U" using file_at_inode(2)[OF s i(1)] by blast
    show "\<forall>x j. CHR ''/'' \<notin> set x \<longrightarrow> j \<noteq> i \<longrightarrow> present env (object_file env j x) (fs w') = present env (object_file env j x) (fs w)"
    proof (intro allI impI)
      fix x j assume x: "CHR ''/'' \<notin> set x" and j: "j \<noteq> i"
      let ?p = "object_file env j x"
      have "?p \<noteq> object_file env i h" "\<not> prefix (object_file env i h @ ''/'') ?p" for h
        using j object_not_below[OF x] by (simp_all add: object_file_inj)
      then have "present env ?p (fs w') \<longleftrightarrow> present env ?p ?z"
        using assms(1) moved unfolding disk_def renames_files_def 1(7) by blast
      then show "present env ?p (fs w') = present env ?p (fs w)" by (simp add: disk_dirs[OF assms(1)])
    qed
  qed simp_all
  then show ?thesis using 1(1) seq by (intro simulatesI[of env c _ w None Empty w']) (simp_all add: oper_simps)
qed

lemma look_simulates:
  assumes "disk env" "stored env A w" "allowed env A (Look ts f st)"
  shows "simulates env c A (Look ts f st) w"
proof -
  have sl: "CHR ''/'' \<notin> set f" and t: "tag_tokens ts" "file_name env f" using assms(3) by (auto dest: file_name_slash)
  have s: "served env w" using assms(2) by (simp add: stored_def)
  then have ro: "row_order env" and ok: "db_ok (db w)" "tags_seq (db w) < 2 ^ 31" by (simp_all add: served_def store_inv_def tags_plain_def)
  have "\<exists>j. (\<forall>w1. db w1 = db w \<longrightarrow> tagsistant_guess_inode_from_and_set env (map (flat_node (db w)) ts) True f w1 = Done j)
      \<and> (j \<noteq> 0 \<longrightarrow> present env (object_file env j f) (fs w)) \<and> (j \<noteq> 0 \<longleftrightarrow> has_tags A f ts)"
  proof (cases "ts_files A f")
    case None
    then have "no_file (db w) f" using stored_none[OF assms(2) _ sl] by simp
    then show ?thesis using guess_none[OF ro _ t(1)] None by (intro exI[of _ 0]) (auto simp: has_tags_def)
  next
    case (Some T)
    obtain i where i: "file_at (db w) f i T" "present env (object_file env i f) (fs w)" using stored_some[OF assms(2) Some sl] .
    have "i \<noteq> 0" using i(1) by (simp add: file_at_def only_object_def)
    then show ?thesis using guess_file[OF ro _ _ _ t(1), of _ f i T "db w"] i ok Some
      by (intro exI[of _ "if set ts \<subseteq> T then i else 0"]) (auto simp: has_tags_def)
  qed
  then obtain j where j: "\<And>w1. db w1 = db w \<Longrightarrow> tagsistant_guess_inode_from_and_set env (map (flat_node (db w)) ts) True f w1 = Done j"
      "j \<noteq> 0 \<Longrightarrow> present env (object_file env j f) (fs w)" "j \<noteq> 0 \<longleftrightarrow> has_tags A f ts" by blast
  obtain out w' where 1: "tagsistant_getattr env (file_path ts f) st w = Done ((if j \<noteq> 0 then None else Some ENOENT, out), w')" "served env w'"
      "db w' = db w" "fs w' = (if j = 0 then fs w else os_mkdir_with_parents (sys env) (archive_hierarchy env j) (fs w))"
    using getattr_run[OF s disk_contracts(1)[OF assms(1)] t j(1,2), of st] by blast
  have "present env (object_file env k x) (fs w') \<longleftrightarrow> present env (object_file env k x) (fs w)" for k x
    by (simp add: 1(4) disk_dirs[OF assms(1)])
  then have "stored_file env x a w' = stored_file env x a w" "unused env k w' = unused env k w" for x a k
    by (simp_all add: stored_file_def unused_def 1(3) split: option.split)
  then have "stored env A w'" using assms(2) 1(2,3) by (simp add: stored_def)
  then show ?thesis using 1(1,3) j(3)
    by (intro simulatesI[of env c _ w "if j \<noteq> 0 then None else Some ENOENT" "Attributes out" w']) (simp_all add: oper_simps)
qed

lemma no_zero: "\<not> file_at d f 0 T"
  by (simp add: file_at_def only_object_def)

lemma make_tag_simulates:
  assumes "stored env A w" "flat_name n" and room: "tags_seq (db w) + 1 < 2 ^ 31 - 1"
  shows "simulates env c A (Make_tag n mode) w"
proof -
  have s: "served env w" using assms(1) by (simp add: stored_def)
  then have ok: "db_ok (db w)" by (simp add: served_def store_inv_def)
  have sr: "store_room w" using room by (simp add: store_room_def)
  obtain w' where 1: "tagsistant_mkdir env (path_of [''tags'', n]) mode w = Done (None, w')" "served env w'"
      "db w' = insert_tag n '''' '''' (db w)" "fs w' = fs w"
    using mkdir_tag[OF s assms(2) sr] by blast
  have seq: "tags_seq (db w') \<le> tags_seq (db w) + 1" "objects_seq (db w') = objects_seq (db w)"
    by (simp_all add: 1(3) insert_tag_def)
  obtain r where r: "r \<in> set (tags (db w'))" "tag_triple r = (n, '''', '''')" using row_inserted 1(3) by metis
  have n: "flat_id (db w') n \<noteq> 0"
    using tag_id_of_nonzero[of "db w'" r] r 1(2) by (auto simp: served_def store_inv_def tags_plain_def flat_id_def)
  have same: "flat_id (db w') t = flat_id (db w) t" if "flat_id (db w) t \<noteq> 0 \<or> t \<noteq> n" for t
    using that flat_id_row[OF ok, of t] by (auto simp: 1(3) flat_id_def tag_id_of_insert_tag[OF ok])
  have "flat_id (db w') t \<noteq> 0 \<longleftrightarrow> flat_id (db w) t \<noteq> 0 \<or> t = n" for t
    using n same[of t] by (cases "t = n") auto
  moreover have "tags_of j (db w') = tags_of j (db w)" "objects (db w') = objects (db w)" for j
    by (simp_all add: 1(3) tags_of_def insert_tag_def)
  ultimately have "file_step 0 {} {n} 1 0 (db w) (db w')" using seq same by (simp add: file_step_def)
  then have "stored env (effect (Make_tag n mode) A) w'"
    by (rule stored_step[OF assms(1) 1(2)]) (use ok in \<open>simp_all add: no_zero 1(4) seq db_ok_def\<close>)
  then show ?thesis using 1(1) seq by (intro simulatesI[of env c _ w None Empty w']) (simp_all add: oper_simps)
qed

lemma file_at_dropped:
  assumes ok: "db_ok d" "tags_seq d < 2 ^ 31" and n: "flat_id d n \<noteq> 0" and f: "file_at d f i T"
    and d': "\<forall>m. flat_id d' m = (if m = n then 0 else flat_id d m)" "objects d' = objects d"
      "tags_of (sint i) d' = tags_of (sint i) d - {sint (flat_id d n)}"
  shows "file_at d' f i (T - {n})"
proof -
  have "sint (flat_id d t) = sint (flat_id d n) \<longleftrightarrow> t = n" for t
    using flat_id_inj[OF ok n, of t] by auto
  then show ?thesis using f d' by (auto simp: file_at_def only_object_def)
qed

lemma drop_tag_simulates:
  assumes "stored env A w" "flat_name n" "n \<in> ts_tags A"
  shows "simulates env c A (Drop_tag n) w"
proof -
  have s: "served env w" and n: "flat_id (db w) n \<noteq> 0" using assms by (simp_all add: stored_def)
  then have ok: "db_ok (db w)" "tags_seq (db w) < 2 ^ 31" by (simp_all add: served_def store_inv_def tags_plain_def)
  obtain w' where 1: "tagsistant_rmdir env (path_of [''tags'', n]) w = Done (None, w')" "served env w'"
      "\<forall>m. flat_id (db w') m = (if m = n then 0 else flat_id (db w) m)" "objects (db w') = objects (db w)"
      "objects_seq (db w') = objects_seq (db w)" "tags_seq (db w') = tags_seq (db w)"
      "\<forall>j. tags_of j (db w') = tags_of j (db w) - {sint (flat_id (db w) n)}" "fs w' = fs w"
    using rmdir_tag[OF s assms(2)] by blast
  have "stored_file env f (map_option (\<lambda>T. T - {n}) a) w'" if "stored_file env f a w" for f a
    using that file_at_dropped[OF ok n _ 1(3,4)] 1(4,7,8)
    by (fastforce simp: stored_file_def no_file_def split: option.splits)
  then have "stored env (effect (Drop_tag n) A) w'"
    using assms(1) 1(2,3,5,7,8) by (simp add: stored_def unused_def)
  then show ?thesis using 1(1,5,6) by (intro simulatesI[of env c _ w None Empty w']) (simp_all add: oper_simps)
qed

lemma look_tag_simulates:
  assumes "stored env A w" "flat_name n"
  shows "simulates env c A (Look_tag n st) w"
proof -
  have s: "served env w" and n: "flat_id (db w) n \<noteq> 0 \<longleftrightarrow> n \<in> ts_tags A" using assms by (simp_all add: stored_def)
  obtain out w' where 1: "tagsistant_getattr env (path_of [''tags'', n]) st w = Done ((if flat_id (db w) n \<noteq> 0 then None else Some ENOENT, out), w')"
      "served env w'" "db w' = db w" "fs w' = fs w"
    using tag_getattr[OF s assms(2), of st] by blast
  have "stored env A w'" by (rule stored_same[OF assms(1) 1(2-4)])
  then show ?thesis using 1(1,3) n
    by (intro simulatesI[of env c _ w "if flat_id (db w) n \<noteq> 0 then None else Some ENOENT" "Attributes out" w']) (simp_all add: oper_simps)
qed

lemma list_tags_simulates:
  assumes "stored env A w"
  shows "simulates env c A List_tags w"
proof -
  have s: "served env w" using assms by (simp add: stored_def)
  then have ok: "db_ok (db w)" "tags_plain (db w)" "row_order env" by (simp_all add: served_def store_inv_def)
  obtain names w' where 1: "tagsistant_readdir env ''/tags'' w = Done ((None, names), w')"
      "set names = {''.'', ''..''} \<union> (tr_name ` set (tags (db w)) - {''''})" "db w' = db w" "fs w' = fs w" "tag_cache w' = tag_cache w"
    using tags_listed[OF ok(3), of w] by (elim exE conjE) (rule that)
  have "n \<in> set names \<longleftrightarrow> n \<in> ts_tags A" if l: "listed n" for n
  proof -
    have n: "flat_name n" "n \<noteq> ''.''" "n \<noteq> ''..''" using l by (simp_all add: listed_def)
    then have "n \<noteq> ''''" "\<not> is_triple_token n" by (simp_all add: flat_name_def)
    then have "n \<in> set names \<longleftrightarrow> flat_id (db w) n \<noteq> 0" using n(2,3) flat_tag_row[OF ok(1,2)] by (simp add: 1(2) flat_id_def)
    then show ?thesis using assms n(1) by (simp add: stored_def)
  qed
  then have names: "{n \<in> set names. listed n} = {n \<in> ts_tags A. listed n}" by blast
  have "served env w'" using s 1(3-5) by (simp add: served_def store_inv_def cache_coherent_def)
  then have "stored env A w'" by (rule stored_same[OF assms _ 1(3,4)])
  then show ?thesis using 1(1,3) names by (intro simulatesI[of env c _ w None "Names names" w']) (simp_all add: oper_simps)
qed

lemmas simulations = create_simulates remove_simulates move_simulates look_simulates
  make_tag_simulates drop_tag_simulates look_tag_simulates list_tags_simulates

lemma request_simulates:
  assumes "disk env" "stored env A w" "allowed env A r"
    and "tags_seq (db w) + int (new_tags r) < 2 ^ 31 - 1" "objects_seq (db w) < 2 ^ 31 - 1"
  shows "simulates env c A r w"
  using assms by (cases r) (simp_all add: simulations)

subsection \<open>Sessions\<close>

text \<open>C1: Tagsistant implements a set of tags and a map from file names to sets of tags: in any session of mkdir, rmdir,
  getattr and readdir requests on \<^verbatim>\<open>tags/\<close> and mknod, unlink, rename and getattr requests on files
  of \<^verbatim>\<open>store/\<close>, each of which the two allow, the daemon gives each request the reply they give, and
  the world at the end still stores them: making a file enters it with the tags of its path, which come to be, unlinking
  it through some of its tags takes these away and the file with the last of them, renaming it moves what is left with
  the tags of the new path added, removing a tag takes it from every file, a file is found exactly under the tags it
  has, a tag exactly while it exists, and the tags listed are those that exist.\<close>

theorem store_implements_tagged_files:
  assumes "disk env" "stored env A w" "all_allowed env A rs"
    and "tags_seq (db w) + int (sum_list (map new_tags rs)) < 2 ^ 31 - 1" "objects_seq (db w) + int (length rs) < 2 ^ 31 - 1"
  shows "\<exists>xs w'. serve env c (map request_of rs) w = Done (xs, w') \<and> map seen xs = replies A rs \<and> stored env (fold effect rs A) w'"
  using assms(2-)
proof (induction rs arbitrary: A w)
  case (Cons r rs)
  have room: "tags_seq (db w) + int (new_tags r) < 2 ^ 31 - 1" "objects_seq (db w) < 2 ^ 31 - 1" using Cons.prems(3,4) by simp_all
  obtain x w1 where 1: "tagsistant_oper env c (request_of r) w = Done (x, w1)" "seen x = reply A r" "stored env (effect r A) w1"
      "tags_seq (db w1) \<le> tags_seq (db w) + int (new_tags r)" "objects_seq (db w1) \<le> objects_seq (db w) + 1"
    using request_simulates[OF assms(1) Cons.prems(1) _ room, of c] Cons.prems(2) by (auto simp: simulates_def)
  obtain xs w2 where "serve env c (map request_of rs) w1 = Done (xs, w2)" "map seen xs = replies (effect r A) rs"
      "stored env (fold effect rs (effect r A)) w2"
    using Cons.IH[OF 1(3)] Cons.prems(2-4) 1(4,5) by fastforce
  then show ?case using 1(1,2) by simp
qed simp

subsection \<open>A concrete instance\<close>

lemma sample_disk: "disk sample_env"
  unfolding disk_def makes_directories_def makes_nodes_def removes_files_def renames_files_def present_sample
  by (auto simp: sample_env_def sample_os_def sample_add_def sample_remove_def sample_rename_def split: if_splits)

definition sample_session :: "user_request list" where
  "sample_session = [Make_tag ''d'' 493, Look [''a''] ''f'' blank_stat, Create [''a'', ''b''] ''f'' 420 0, Look [''b''] ''f'' blank_stat,
     Move [''a''] ''f'' [''c''] ''g'', Look [''b'', ''c''] ''g'' blank_stat, Look [''a''] ''g'' blank_stat, Remove [''b''] ''g'',
     Create [''a'', ''c''] ''f'' 420 0, Look_tag ''a'' blank_stat, List_tags, Drop_tag ''a'', Look_tag ''a'' blank_stat, Look [''c''] ''f'' blank_stat]"

theorem store_implements_tagged_files_witness:
  "\<exists>xs w'. serve sample_env sample_conf (map request_of sample_session) (sample_world empty_db [''/r/archive/'']) = Done (xs, w')
   \<and> map fst (map seen xs) = [None, Some ENOENT, None, None, None, None, Some ENOENT, None, None, None, None, None, Some ENOENT, None]
   \<and> snd (map seen xs ! 10) = {''a'', ''b'', ''c'', ''d''}
   \<and> stored sample_env \<lparr>ts_tags = {''b'', ''c'', ''d''}, ts_files = [''g'' \<mapsto> {''c''}, ''f'' \<mapsto> {''c''}]\<rparr> w'"
proof -
  let ?w = "sample_world empty_db [''/r/archive/'']"
  let ?A = "\<lparr>ts_tags = {}, ts_files = \<lambda>_. None\<rparr>"
  have n: "flat_name ''a''" "flat_name ''b''" "flat_name ''c''" "flat_name ''d''" by (simp_all add: flat_name_def plain_def triple_token_eval)
  have t: "tag_tokens [''a'', ''b'']" "tag_tokens [''a'']" "tag_tokens [''b'']" "tag_tokens [''c'']" "tag_tokens [''b'', ''c'']"
      "tag_tokens [''a'', ''c'']"
    by (simp_all add: tag_tokens_def tag_token_def flat_name_def plain_def triple_token_eval)
  have f: "file_name sample_env ''f''" "file_name sample_env ''g''"
    by (simp_all add: file_name_def newline_def inode_rx_1_def sample_env_def suffix_to_prefix is_digit_def)
  have "object_file sample_env i x \<noteq> ''/r/archive/''" for i x
    using archive_not_object[of sample_env i x] by (simp add: sample_env_def)
  then have "stored sample_env ?A ?w"
    using served_sample[OF empty_simps(1,2)]
    by (simp add: stored_def stored_file_def unused_def empty_simps sample_world_def tags_of_def empty_db_def no_file_def flat_id_def
        tag_id_of_def)
  moreover have "all_allowed sample_env ?A sample_session"
    by (simp add: sample_session_def n t f has_tags_def)
  moreover have "map fst (replies ?A sample_session)
      = [None, Some ENOENT, None, None, None, None, Some ENOENT, None, None, None, None, None, Some ENOENT, None]"
    by (simp add: sample_session_def has_tags_def)
  moreover have "snd (replies ?A sample_session ! 10) = {''a'', ''b'', ''c'', ''d''}"
    using n by (auto simp: sample_session_def has_tags_def listed_def)
  moreover have "fold effect sample_session ?A = \<lparr>ts_tags = {''b'', ''c'', ''d''}, ts_files = [''g'' \<mapsto> {''c''}, ''f'' \<mapsto> {''c''}]\<rparr>"
    by (auto simp: sample_session_def)
  moreover have "tags_seq (db ?w) + int (sum_list (map new_tags sample_session)) < 2 ^ 31 - 1"
    "objects_seq (db ?w) + int (length sample_session) < 2 ^ 31 - 1"
    by (simp_all add: sample_session_def sample_world_def empty_db_def)
  ultimately show ?thesis
    using store_implements_tagged_files[OF sample_disk, of ?A ?w sample_session sample_conf] by metis
qed

end
