(* ===== verification/Reasoner_Cache.thy ===== *)
theory Reasoner_Cache
  imports Reasoner
begin

section \<open>The cache of the reasoner\<close>

text \<open>
  The hash table of \<^verbatim>\<open>src/src/reasoner.c\<close> that \<^verbatim>\<open>tagsistant.h\<close> switches off
  (\<^verbatim>\<open>TAGSISTANT_ENABLE_REASONER_CACHE\<close>): the tags reasoned for a tag, by its name. The definitions are the
  functions the program has with the switch on; the table is a map, passed and returned. The caller of the reasoner leaves
  \<^verbatim>\<open>negate\<close> as \<^verbatim>\<open>g_malloc()\<close> gave it, which only an entry found reads; its value is an argument here.
  While the table is empty the reasoner is the one of theory \<open>Reasoner\<close>; an entry answers whatever the relations have become,
  and it has lost the excluded tags, or excludes the related ones.
\<close>

subsection \<open>The code\<close>

type_synonym reasoner_cache = "string \<Rightarrow> tagsistant_tag list option"

definition reference_key :: "and_data \<Rightarrow> string option" where
  "reference_key a =
     (if an_tag a \<noteq> None \<and> strlen (an_tag a) \<noteq> 0 then an_tag a
      else if an_namespace a \<noteq> None \<and> an_key a \<noteq> None \<and> an_value a \<noteq> None
      then Some (printf_s (an_namespace a) @ ''<>'' @ printf_s (an_key a) @ ''<>'' @ printf_s (an_value a))
      else None)"

definition cached_tags :: "reasoner_cache \<Rightarrow> and_data \<Rightarrow> tagsistant_tag list option" where
  "cached_tags c a = (case reference_key a of None \<Rightarrow> None | Some k \<Rightarrow> c k)"

function cached_reasoner_walk :: "'fs env \<Rightarrow> reasoner_cache \<Rightarrow> tagsistant_reasoning \<Rightarrow> 'fs world \<Rightarrow> tagsistant_reasoning \<times> 'fs world" where
  "cached_reasoner_walk env c R w =
     (if rs_depth R < length (related_chain (rs_start R))
      then case cached_tags c (and_data (current_node R)) of
          Some Ts \<Rightarrow> (fold tagsistant_add_reasoned_tag Ts R, w)
        | None \<Rightarrow>
            let (R1, w1) = reasoner_visit env R w
            in if Suc (rs_depth R1) < length (related_chain (rs_start R1))
               then cached_reasoner_walk env c (R1\<lparr>rs_depth := Suc (rs_depth R1)\<rparr>) w1
               else (R1, w1)
      else (R, w))"
  by pat_completeness auto

termination cached_reasoner_walk
proof (relation "measure (\<lambda>(env, c, R, w). missing (db w) R + length (reasoning_ids R) - rs_depth R)", simp)
  fix env :: "'fs env" and c :: reasoner_cache and R w x R1 and w1 :: "'fs world"
  assume d: "rs_depth R < length (related_chain (rs_start R))" and x: "x = reasoner_visit env R w" "(R1, w1) = x"
    and n: "Suc (rs_depth R1) < length (related_chain (rs_start R1))"
  show "((env, c, R1\<lparr>rs_depth := Suc (rs_depth R1)\<rparr>, w1), env, c, R, w)
      \<in> measure (\<lambda>(env, c, R, w). missing (db w) R + length (reasoning_ids R) - rs_depth R)"
    using visit_decreases[OF d x n] by simp
qed

declare cached_reasoner_walk.simps [simp del]

text \<open>A node of the chain as an entry of the table.\<close>

definition tag_of_node :: "and_data \<Rightarrow> tagsistant_tag" where
  "tag_of_node a = \<lparr>t_tag_id = an_tag_id a, t_tag = printf_s (an_tag a), t_namespace = printf_s (an_namespace a),
     t_key = printf_s (an_key a), t_value = printf_s (an_value a)\<rparr>"

definition cached_reasoner :: "'fs env \<Rightarrow> reasoner_cache \<Rightarrow> bool \<Rightarrow> dbi_conn \<Rightarrow> qtree_and_node \<Rightarrow> 'fs world
    \<Rightarrow> (qtree_and_node \<times> 'fs world) \<times> reasoner_cache" where
  "cached_reasoner env c negate conn nd w =
     (let (R, w1) = cached_reasoner_walk env c
            \<lparr>rs_start = nd, rs_rest = [], rs_depth = 0, rs_conn = conn, rs_negate = negate, rs_added_tags = 0\<rparr> w;
          c1 = (case reference_key (and_data nd) of
                  Some k \<Rightarrow> if c k = None then c(k \<mapsto> map tag_of_node (tl (chain_data (rs_start R)))) else c
                | None \<Rightarrow> c)
      in ((rs_start R, w1), c1))"

definition tagsistant_invalidate_reasoning_cache :: "string \<Rightarrow> reasoner_cache \<Rightarrow> reasoner_cache" where
  "tagsistant_invalidate_reasoning_cache tag c = c(tag := None)"

subsection \<open>An empty table\<close>

lemma walk_empty: "cached_reasoner_walk env (\<lambda>_. None) R w = tagsistant_reasoner_inner env R w"
proof (induction env R w rule: tagsistant_reasoner_inner.induct)
  case (1 env R w)
  have n: "cached_tags (\<lambda>_. None) a = None" for a by (simp add: cached_tags_def split: option.split)
  show ?case using 1
    by (subst cached_reasoner_walk.simps, subst tagsistant_reasoner_inner.simps) (auto simp: n Let_def split: prod.split)
qed

lemma inner_negate: "rs_depth R < length (related_chain (rs_start R))
  \<Longrightarrow> tagsistant_reasoner_inner env (R\<lparr>rs_negate := b\<rparr>) w = tagsistant_reasoner_inner env R w"
  by (subst (1 2) tagsistant_reasoner_inner.simps) (simp add: reasoner_visit_def current_node_def)

lemma first_node: "0 < length (related_chain nd)"
  by (simp add: related_chain_not_Nil)

text \<open>With an empty table the reasoner is the one that is compiled.\<close>

theorem empty_cache_agrees: "fst (cached_reasoner env (\<lambda>_. None) negate conn nd w) = tagsistant_reasoner env conn nd w"
  using inner_negate[of "\<lparr>rs_start = nd, rs_rest = [], rs_depth = 0, rs_conn = conn, rs_negate = False, rs_added_tags = 0\<rparr>" env negate w] first_node[of nd]
  by (simp add: cached_reasoner_def tagsistant_reasoner_def walk_empty Let_def split_beta)

subsection \<open>An entry\<close>

text \<open>What the reasoner builds: a chain without repetitions whose nodes, but the first, are reasoned tags.\<close>

definition well_reasoned :: "and_data \<Rightarrow> tagsistant_reasoning \<Rightarrow> bool" where
  "well_reasoned a R \<longleftrightarrow> distinct (reasoning_ids R) \<and> hd (chain_data (rs_start R)) = a \<and> rs_rest R = [] \<and>
     rs_depth R < length (chain_data (rs_start R)) \<and> (\<forall>b \<in> set (tl (chain_data (rs_start R))). \<exists>T. b = reasoned_data T False)"

lemma well_reasoned_negate [simp]: "well_reasoned a (R\<lparr>rs_negate := b\<rparr>) = well_reasoned a R"
  by (simp add: well_reasoned_def)

lemma reasoned_data_id [simp]: "an_tag_id (reasoned_data T b) = t_tag_id T"
  by (simp add: reasoned_data_def reasoned_node_def)

lemma well_reasoned_add:
  assumes "well_reasoned a R"
  shows "well_reasoned a (tagsistant_add_reasoned_tag T R)"
proof -
  have R: "rs_depth R < length (chain_data (rs_start R))" "rs_rest R = []" using assms by (simp_all add: well_reasoned_def)
  have ne: "chain_data (rs_start R) \<noteq> []" using R(1) by auto
  show ?thesis
  proof (cases rule: add_tag_cases[OF R, of T])
    case 2
    then show ?thesis using assms ne by (auto simp: well_reasoned_def reasoning_ids_data)
  qed (use assms in \<open>simp_all add: well_reasoned_def reasoning_ids_data\<close>)
qed

lemma well_reasoned_fold: "well_reasoned a R \<Longrightarrow> well_reasoned a (fold tagsistant_add_reasoned_tag_callback rows R)"
  by (induction rows arbitrary: R) (simp_all add: tagsistant_add_reasoned_tag_callback_def well_reasoned_add)

lemma well_reasoned_visit: "well_reasoned a R \<Longrightarrow> well_reasoned a (fst (reasoner_visit env R w))"
  by (simp add: reasoner_visit_def Let_def split_beta reasoning_rows_def well_reasoned_fold)

lemma well_reasoned_inner: "well_reasoned a R \<Longrightarrow> well_reasoned a (fst (tagsistant_reasoner_inner env R w))"
proof (induction env R w rule: tagsistant_reasoner_inner.induct)
  case (1 env R w)
  have v: "well_reasoned a (fst (reasoner_visit env R w))" using well_reasoned_visit[OF 1(2)] .
  have l: "length (related_chain nd) = length (chain_data nd)" for nd by (simp add: chain_data_def)
  show ?case
    using 1(1)[OF _ refl prod.collapse] 1(2) v
    by (subst tagsistant_reasoner_inner.simps) (auto simp: Let_def split_beta well_reasoned_def reasoning_ids_def l)
qed

text \<open>The tags of an entry are added one after the other.\<close>

lemma add_new_tag:
  assumes "rs_depth R = 0" "rs_rest R = []" "t_tag_id T \<notin> set (reasoning_ids R) \<union> set (negated_ids (rs_start R))"
  shows "chain_data (rs_start (tagsistant_add_reasoned_tag T R)) = chain_data (rs_start R) @ (if rs_negate R then [] else [reasoned_data T False])
    \<and> negated_ids (rs_start (tagsistant_add_reasoned_tag T R)) = negated_ids (rs_start R) @ (if rs_negate R then [t_tag_id T] else [])"
proof -
  have n: "\<not> (\<exists>nd \<in> set (concat (map visited_nodes (rs_start R # rs_rest R))). tagsistant_and_node_match nd T)"
    using assms(2,3) by (auto simp: visited_nodes_def tagsistant_and_node_match_def reasoning_ids_def chain_ids_def negated_ids_def simp flip: map_tl)
  have x: "and_related (reasoned_node T b) = None" "and_negated (reasoned_node T b) = None" "an_tag_id (and_data (reasoned_node T b)) = t_tag_id T" for b
    by (simp_all add: reasoned_node_def)
  show ?thesis unfolding tagsistant_add_reasoned_tag_def if_not_P[OF n] Let_def
    using assms(1) negated_ids_modify(1)[of 0 "reasoned_node T False" "rs_start R"]
    by (simp add: x negated_ids_append chain_data_append_related reasoned_data_def)
qed

lemma fold_cached:
  assumes "rs_depth R = 0" "rs_rest R = []" "distinct (map t_tag_id Ts)"
    "set (map t_tag_id Ts) \<inter> (set (reasoning_ids R) \<union> set (negated_ids (rs_start R))) = {}"
  shows "chain_data (rs_start (fold tagsistant_add_reasoned_tag Ts R))
      = chain_data (rs_start R) @ (if rs_negate R then [] else map (\<lambda>T. reasoned_data T False) Ts)
    \<and> negated_ids (rs_start (fold tagsistant_add_reasoned_tag Ts R)) = negated_ids (rs_start R) @ (if rs_negate R then map t_tag_id Ts else [])"
  using assms
proof (induction Ts arbitrary: R)
  case (Cons T Ts)
  let ?R = "tagsistant_add_reasoned_tag T R"
  have 1: "chain_data (rs_start ?R) = chain_data (rs_start R) @ (if rs_negate R then [] else [reasoned_data T False])"
      "negated_ids (rs_start ?R) = negated_ids (rs_start R) @ (if rs_negate R then [t_tag_id T] else [])"
    using add_new_tag[of R T] Cons.prems(1,2,4) by simp_all
  have "reasoning_ids ?R = reasoning_ids R @ (if rs_negate R then [] else [t_tag_id T])" by (simp add: reasoning_ids_data 1)
  then show ?case using Cons.IH[of ?R] Cons.prems 1 by auto
qed simp

lemma tag_of_reasoned: "reasoned_data (tag_of_node (reasoned_data T False)) False = reasoned_data T False"
  by (simp add: tag_of_node_def reasoned_data_def reasoned_node_def)

text \<open>An entry answers whatever the relations have become: after the tags of a flat or a triple tag were reasoned and
  entered, the next query gets the same tags in any state of the tables, while the entries of other tags are removed. The
  excluded tags are lost; and when the memory of the flag was not zero, the related tags are excluded instead.\<close>

theorem cached_reasoning_stale:
  assumes k: "reference_key a = Some k" "k \<notin> set others"
    and first: "cached_reasoner env (\<lambda>_. None) negate1 conn (And_node a None None) w = ((n1, w1), c1)"
    and second: "cached_reasoner env (fold tagsistant_invalidate_reasoning_cache others c1) negate2 conn2 (And_node a None None) w2 = ((n2, w3), c3)"
  shows "(\<not> negate2 \<longrightarrow> chain_data n2 = chain_data n1 \<and> negated_ids n2 = [])
    \<and> (negate2 \<longrightarrow> chain_data n2 = [a] \<and> negated_ids n2 = tl (map an_tag_id (chain_data n1))) \<and> w3 = w2"
proof -
  let ?R = "\<lparr>rs_start = And_node a None None, rs_rest = [], rs_depth = 0, rs_conn = conn, rs_negate = negate1, rs_added_tags = 0\<rparr>"
  let ?R2 = "?R\<lparr>rs_conn := conn2, rs_negate := negate2\<rparr>"
  let ?S = "fst (tagsistant_reasoner_inner env ?R w)"
  let ?Ts = "map tag_of_node (tl (chain_data n1))"
  have n1: "n1 = rs_start ?S" and c1: "c1 k = Some ?Ts"
    using first k(1) by (auto simp: cached_reasoner_def walk_empty Let_def split_beta)
  have "well_reasoned a ?R" by (simp add: well_reasoned_def reasoning_ids_data)
  then have S: "well_reasoned a ?S" by (rule well_reasoned_inner)
  then obtain bs where bs: "chain_data n1 = a # bs" by (cases "chain_data n1") (auto simp: well_reasoned_def n1)
  have same: "map (\<lambda>T. reasoned_data T False) ?Ts = bs"
    using S bs tag_of_reasoned by (auto simp: well_reasoned_def n1 intro!: map_idI)
  have ids: "map t_tag_id ?Ts = map an_tag_id bs" by (simp add: bs tag_of_node_def)
  moreover have "distinct (map an_tag_id (a # bs))" using S by (simp add: well_reasoned_def reasoning_ids_data flip: n1 bs)
  ultimately have F: "chain_data (rs_start (fold tagsistant_add_reasoned_tag ?Ts ?R2)) = a # (if negate2 then [] else bs)"
      "negated_ids (rs_start (fold tagsistant_add_reasoned_tag ?Ts ?R2)) = (if negate2 then map an_tag_id bs else [])"
    using fold_cached[of ?R2 ?Ts] same by (simp_all add: reasoning_ids_data negated_ids_def)
  have "fold tagsistant_invalidate_reasoning_cache others c1 k = c1 k"
    using k(2) by (induction others arbitrary: c1) (simp_all add: tagsistant_invalidate_reasoning_cache_def)
  then have "cached_tags (fold tagsistant_invalidate_reasoning_cache others c1) a = Some ?Ts" using k(1) c1 by (simp add: cached_tags_def)
  then have "cached_reasoner_walk env (fold tagsistant_invalidate_reasoning_cache others c1) ?R2 w2 = (fold tagsistant_add_reasoned_tag ?Ts ?R2, w2)"
    by (subst cached_reasoner_walk.simps) (simp add: current_node_def)
  then have "n2 = rs_start (fold tagsistant_add_reasoned_tag ?Ts ?R2)" "w3 = w2"
    using second by (auto simp: cached_reasoner_def Let_def)
  then show ?thesis using F bs by (cases negate2) simp_all
qed

end
