(* ===== verification/Query_Types.thy ===== *)
theory Query_Types
  imports Operation
begin

section \<open>Well-typed query trees\<close>

text \<open>
  The structure \<^verbatim>\<open>tagsistant_querytree\<close> holds the fields of every kind of query, NULL where a
  query does not have them, and the handlers pick them by the type and by which of them are NULL.
  \<open>well_typed\<close> says which combinations there are; every tree that path resolution returns is one
  of them, on every path, with and without reasoning.
\<close>

subsection \<open>Nodes\<close>

text \<open>
  A node names a flat tag, or a triple tag as far as the path goes, or comes from the reasoner, which
  fills the names a tag does not have with empty strings.
\<close>

definition flat_node_data :: "and_data \<Rightarrow> bool" where
  "flat_node_data a \<longleftrightarrow> (\<exists>t. an_tag a = Some t \<and> t \<noteq> '''' \<and> \<not> is_triple_token t) \<and>
     an_namespace a = None \<and> an_key a = None \<and> an_value a = None \<and> an_operator a = TAGSISTANT_NONE"

definition triple_node_data :: "and_data \<Rightarrow> bool" where
  "triple_node_data a \<longleftrightarrow> an_tag a = None \<and> (\<exists>n. an_namespace a = Some n \<and> is_triple_token n) \<and>
     (an_value a \<noteq> None \<longrightarrow> an_key a \<noteq> None) \<and> (an_operator a \<noteq> TAGSISTANT_NONE \<longrightarrow> an_key a \<noteq> None)"

definition reasoned_node_data :: "and_data \<Rightarrow> bool" where
  "reasoned_node_data a \<longleftrightarrow> (\<exists>t n k v. an_tag a = Some t \<and> an_namespace a = Some n \<and> an_key a = Some k \<and> an_value a = Some v \<and>
     an_operator a = TAGSISTANT_NONE \<and> (if is_triple_token n then t = '''' else n = '''' \<and> k = '''' \<and> v = ''''))"

definition node_data_ok :: "and_data \<Rightarrow> bool" where
  "node_data_ok a \<longleftrightarrow> flat_node_data a \<or> triple_node_data a \<or> reasoned_node_data a"

text \<open>A node is negated exactly when it is on the negated chain of another one.\<close>

fun node_ok_as :: "bool \<Rightarrow> qtree_and_node \<Rightarrow> bool" where
  "node_ok_as neg (And_node a r ng) \<longleftrightarrow> node_data_ok a \<and> an_negate a = neg \<and>
     (case r of None \<Rightarrow> True | Some x \<Rightarrow> node_ok_as False x) \<and> (case ng of None \<Rightarrow> True | Some x \<Rightarrow> node_ok_as True x)"

lemma node_ok_append_related: "node_ok_as neg nd \<Longrightarrow> node_ok_as False x \<Longrightarrow> node_ok_as neg (append_related x nd)"
  by (induction x nd arbitrary: neg rule: append_related.induct) (simp_all split: option.splits)

lemma node_ok_append_negated: "node_ok_as neg nd \<Longrightarrow> node_ok_as True x \<Longrightarrow> node_ok_as neg (append_negated x nd)"
  by (induction x nd arbitrary: neg rule: append_negated.induct) (simp_all split: option.splits)

lemma node_ok_modify_related:
  assumes "node_ok_as neg nd" "\<And>neg y. node_ok_as neg y \<Longrightarrow> node_ok_as neg (f y)"
  shows "node_ok_as neg (modify_related n f nd)"
  using assms by (induction n f nd arbitrary: neg rule: modify_related.induct) (simp_all split: option.splits)

lemma reasoned_node_ok: "node_ok_as neg (reasoned_node (tag_of_row r) neg)"
  by (auto simp: reasoned_node_def tag_of_row_def node_data_ok_def reasoned_node_data_def is_triple_token_def ends_dollar_def)

lemma add_reasoned_ok:
  assumes "node_ok_as neg (rs_start R)"
  shows "node_ok_as neg (rs_start (tagsistant_add_reasoned_tag (tag_of_row r) R))"
proof -
  let ?x = "reasoned_node (tag_of_row r) (rs_negate R)"
  have "node_ok_as neg (modify_related n (if rs_negate R then append_negated ?x else append_related ?x) (rs_start R))" for n
    using assms reasoned_node_ok[of "rs_negate R" r]
    by (intro node_ok_modify_related) (auto intro: node_ok_append_negated node_ok_append_related)
  then show ?thesis using assms by (simp add: tagsistant_add_reasoned_tag_def Let_def)
qed

lemma reasoning_rows_ok: "node_ok_as neg (rs_start R) \<Longrightarrow> node_ok_as neg (rs_start (reasoning_rows env conn rows R))"
proof -
  have "node_ok_as neg (rs_start R) \<Longrightarrow> node_ok_as neg (rs_start (fold tagsistant_add_reasoned_tag_callback xs R))" for xs
    by (induction xs arbitrary: R) (simp_all add: tagsistant_add_reasoned_tag_callback_def add_reasoned_ok)
  then show "node_ok_as neg (rs_start R) \<Longrightarrow> ?thesis" by (simp add: reasoning_rows_def)
qed

lemma reasoner_visit_ok: "node_ok_as neg (rs_start R) \<Longrightarrow> node_ok_as neg (rs_start (fst (reasoner_visit env R w)))"
  by (simp add: reasoner_visit_def Let_def split_beta reasoning_rows_ok)

lemma reasoner_inner_ok: "node_ok_as neg (rs_start R) \<Longrightarrow> node_ok_as neg (rs_start (fst (tagsistant_reasoner_inner env R w)))"
proof (induction env R w rule: tagsistant_reasoner_inner.induct)
  case (1 env R w)
  obtain R1 w1 where v: "(R1, w1) = reasoner_visit env R w" by (metis surj_pair)
  have ok: "node_ok_as neg (rs_start R1)" using reasoner_visit_ok[OF "1.prems", of env w] by (simp add: v[symmetric])
  show ?case
  proof (cases "rs_depth R < length (related_chain (rs_start R))")
    case True
    have unf: "tagsistant_reasoner_inner env R w = (if Suc (rs_depth R1) < length (related_chain (rs_start R1))
        then tagsistant_reasoner_inner env (R1\<lparr>rs_depth := Suc (rs_depth R1)\<rparr>) w1 else (R1, w1))"
      by (subst tagsistant_reasoner_inner.simps) (simp only: v[symmetric] True if_True Let_def split_conv prod.case)
    show ?thesis
    proof (cases "Suc (rs_depth R1) < length (related_chain (rs_start R1))")
      case True2: True
      show ?thesis using "1.IH"[OF True v refl True2] ok unfolding unf if_P[OF True2] by simp
    qed (use ok unf in simp)
  next
    case False
    then show ?thesis using "1.prems" by (subst tagsistant_reasoner_inner.simps) simp
  qed
qed

lemma store_reason_ok:
  assumes "node_data_ok a" "an_negate a = neg"
  shows "node_ok_as neg (fst (store_reason env q a w))"
proof -
  have "node_ok_as neg (fst (tagsistant_reasoner env conn (And_node a None None) w))" for conn
    using reasoner_inner_ok[of neg "\<lparr>rs_start = And_node a None None, rs_rest = [], rs_depth = 0, rs_conn = conn, rs_negate = False, rs_added_tags = 0\<rparr>" env w]
      assms by (simp add: tagsistant_reasoner_def Let_def split_beta)
  then show ?thesis using assms by (simp add: store_reason_def)
qed


subsection \<open>The fields\<close>

text \<open>The names of a triple tag come one after the other.\<close>

definition names_ok :: "gchars \<Rightarrow> gchars \<Rightarrow> gchars \<Rightarrow> bool" where
  "names_ok n k v \<longleftrightarrow> (v \<noteq> None \<longrightarrow> k \<noteq> None) \<and> (k \<noteq> None \<longrightarrow> n \<noteq> None) \<and> (case n of None \<Rightarrow> True | Some s \<Rightarrow> is_triple_token s)"

definition no_right_side :: "querytree \<Rightarrow> bool" where
  "no_right_side q \<longleftrightarrow> q_relation q = None \<and> q_related_namespace q = None \<and> q_related_key q = None \<and> q_related_value q = None"

definition no_object :: "querytree \<Rightarrow> bool" where
  "no_object q \<longleftrightarrow> q_object_path q = None \<and> q_inode q = 0 \<and> q_archive_path q = None \<and> q_full_archive_path q = None \<and> \<not> q_points_to_object q"

definition no_names :: "querytree \<Rightarrow> bool" where
  "no_names q \<longleftrightarrow> q_namespace q = None \<and> q_key q = None \<and> q_value q = None \<and> q_first_tag q = None \<and> q_second_tag q = None"

definition one_left_tag :: "querytree \<Rightarrow> bool" where
  "one_left_tag q \<longleftrightarrow> names_ok (q_namespace q) (q_key q) (q_value q) \<and> (q_first_tag q = None \<or> q_namespace q = None) \<and>
     (case q_first_tag q of None \<Rightarrow> True | Some t \<Rightarrow> \<not> is_triple_token t)"

text \<open>A relation stands after a left tag, a right tag after a relation; each is flat or triple.\<close>

definition relation_ok :: "querytree \<Rightarrow> bool" where
  "relation_ok q \<longleftrightarrow> one_left_tag q \<and> names_ok (q_related_namespace q) (q_related_key q) (q_related_value q) \<and>
     (case q_relation q of None \<Rightarrow> True | Some r \<Rightarrow> relation_pattern r \<and> (q_first_tag q \<noteq> None \<or> q_namespace q \<noteq> None)) \<and>
     (q_second_tag q \<noteq> None \<or> q_related_namespace q \<noteq> None \<longrightarrow> q_relation q \<noteq> None) \<and>
     (q_second_tag q = None \<or> q_related_namespace q = None) \<and>
     (case q_second_tag q of None \<Rightarrow> True | Some t \<Rightarrow> \<not> is_triple_token t)"

definition store_ok :: "'fs env \<Rightarrow> querytree \<Rightarrow> bool" where
  "store_ok env q \<longleftrightarrow> names_ok (q_namespace q) (q_key q) (q_value q) \<and> q_first_tag q = None \<and> q_second_tag q = None \<and> no_right_side q \<and>
     (\<forall>and_set \<in> set (q_tree q). \<forall>nd \<in> set and_set. node_ok_as False nd) \<and> q_tree q \<noteq> [] \<and>
     (q_points_to_object q \<longrightarrow> q_complete q \<and> strlen (q_object_path q) > 0) \<and> (q_object_path q \<noteq> None \<longrightarrow> q_complete q) \<and>
     (if q_inode q = 0 then q_archive_path q = None \<and> q_full_archive_path q = None
      else q_full_archive_path q = Some (archive_hierarchy env (q_inode q) @ ''/'' @ fmt_d (q_inode q) @ ''___'' @ printf_s (q_object_path q)))"

definition archive_ok :: "querytree \<Rightarrow> bool" where
  "archive_ok q \<longleftrightarrow> q_object_path q \<noteq> None \<and> q_full_archive_path q \<noteq> None \<and> q_archive_path q = q_object_path q \<and>
     (q_points_to_object q \<longleftrightarrow> strlen (q_object_path q) > 0)"

definition well_typed :: "'fs env \<Rightarrow> querytree \<Rightarrow> bool" where
  "well_typed env q \<longleftrightarrow>
     (q_type q \<noteq> QTYPE_STORE \<longrightarrow> q_tree q = [] \<and> q_operator q = TAGSISTANT_NONE) \<and>
     (q_type q \<noteq> QTYPE_STATS \<longrightarrow> q_stats_path q = None) \<and> (q_type q \<noteq> QTYPE_ALIAS \<longrightarrow> q_alias q = None) \<and>
     (q_type q \<notin> {QTYPE_STORE, QTYPE_ARCHIVE} \<longrightarrow> no_object q) \<and>
     (case q_type q of
        QTYPE_MALFORMED \<Rightarrow> q_error_message q \<noteq> None \<and> relation_ok q
      | QTYPE_STORE \<Rightarrow> store_ok env q
      | QTYPE_TAGS \<Rightarrow> one_left_tag q \<and> (q_second_tag q \<noteq> None \<longrightarrow> q_first_tag q \<noteq> None) \<and> no_right_side q
      | QTYPE_RELATIONS \<Rightarrow> relation_ok q
      | QTYPE_ARCHIVE \<Rightarrow> archive_ok q \<and> no_names q \<and> no_right_side q
      | QTYPE_RETAG \<Rightarrow> False
      | _ \<Rightarrow> no_names q \<and> no_right_side q)"

subsection \<open>The parsers\<close>

definition blank :: "querytree \<Rightarrow> bool" where
  "blank q \<longleftrightarrow> no_names q \<and> no_right_side q \<and> no_object q \<and> q_tree q = [] \<and> q_operator q = TAGSISTANT_NONE \<and>
     q_stats_path q = None \<and> q_alias q = None \<and> q_error_message q = None \<and> \<not> q_complete q"

lemmas field_defs = no_names_def no_right_side_def no_object_def names_ok_def one_left_tag_def

text \<open>What the loop over the tokens of a \<^verbatim>\<open>store/\<close> path keeps.\<close>

definition store_fields :: "querytree \<Rightarrow> bool" where
  "store_fields q \<longleftrightarrow> q_type q = QTYPE_STORE \<and> names_ok (q_namespace q) (q_key q) (q_value q) \<and> q_first_tag q = None \<and> q_second_tag q = None \<and>
     no_right_side q \<and> no_object q \<and> q_stats_path q = None \<and> q_alias q = None"

definition state_ok :: "parse_state \<Rightarrow> bool" where
  "state_ok s \<longleftrightarrow> store_fields (ps_qtree s) \<and> (\<forall>and_set \<in> set (ps_cur s # ps_done s). \<forall>nd \<in> set and_set. node_ok_as False nd)"

lemma store_triple_typed:
  assumes "is_triple_token t" "store_fields q"
  shows "triple_node_data (fst (store_triple t ts q))" "store_fields (fst (snd (store_triple t ts q)))"
    "an_negate (fst (store_triple t ts q)) = False"
  using assms by (auto simp: store_triple_def store_operator_def Let_def triple_node_data_def new_and_data_def store_fields_def field_defs
      split: list.splits option.splits)

lemma store_tag_typed:
  assumes "t \<noteq> ''''" "store_fields q" "store_tag env t ts q w = ((a, q1, rest), w1)"
  shows "node_data_ok a" "an_negate a = False" "store_fields q1"
proof -
  have "node_data_ok a \<and> \<not> an_negate a \<and> store_fields q1"
  proof (cases "is_triple_token t")
    case True
    have "node_data_ok (b\<lparr>an_tag_id := i\<rparr>) = node_data_ok b" for b i
      by (simp add: node_data_ok_def flat_node_data_def triple_node_data_def reasoned_node_data_def)
    then show ?thesis using assms True store_triple_typed[OF True assms(2), of ts]
      by (auto simp: store_tag_def Let_def split_beta node_data_ok_def)
  next
    case False
    then show ?thesis using assms by (auto simp: store_tag_def Let_def split_beta node_data_ok_def flat_node_data_def new_and_data_def)
  qed
  then show "node_data_ok a" "an_negate a = False" "store_fields q1" by simp_all
qed

lemma modify_last_ok:
  "xs \<noteq> [] \<Longrightarrow> \<forall>x \<in> set xs. P x \<Longrightarrow> (\<And>x. P x \<Longrightarrow> P (f x)) \<Longrightarrow> \<forall>x \<in> set (modify_last f xs). P x"
  by (auto simp: modify_last_def dest: in_set_butlastD)

lemma store_place_typed:
  assumes "node_data_ok a" "\<not> an_negate a" "state_ok s" "store_place env a s w = Done (r, w1)"
  shows "state_ok (state_of r)"
proof -
  have nd: "node_ok_as False (fst (store_reason env q a v))" "node_ok_as True (fst (store_reason env q (a\<lparr>an_negate := True\<rparr>) v))" for q and v :: "'a world"
  proof -
    have "node_data_ok (a\<lparr>an_negate := True\<rparr>)"
      using assms(1) by (simp add: node_data_ok_def flat_node_data_def triple_node_data_def reasoned_node_data_def)
    then show "node_ok_as False (fst (store_reason env q a v))" "node_ok_as True (fst (store_reason env q (a\<lparr>an_negate := True\<rparr>) v))"
      using assms(1,2) by (auto intro!: store_reason_ok)
  qed
  have q: "store_fields (q\<lparr>q_negate_next_tag := b\<rparr>) = store_fields q" for q b by (simp add: store_fields_def field_defs)
  have neg: "\<forall>nd \<in> set (modify_last (append_negated (fst (store_reason env q (a\<lparr>an_negate := True\<rparr>) v))) (ps_cur s)). node_ok_as False nd"
    if "ps_cur s \<noteq> []" for q and v :: "'a world"
    using that assms(3) by (intro modify_last_ok) (auto simp: state_ok_def intro: node_ok_append_negated nd)
  have rel: "\<forall>nd \<in> set (modify_last (append_related (fst (store_reason env q a v))) (ps_cur s)). node_ok_as False nd"
    if "ps_cur s \<noteq> []" for q and v :: "'a world"
    using that assms(3) by (intro modify_last_ok) (auto simp: state_ok_def intro: node_ok_append_related nd)
  show ?thesis using assms(3,4) neg rel nd(1)
    by (auto simp: store_place_def Let_def split_beta state_of_def state_ok_def q split: if_splits)
qed

lemma store_token_typed:
  assumes "state_ok s" "store_token env t ts s w = Done (r, w1)"
  shows "state_ok (case r of Inl p \<Rightarrow> snd p | Inr p \<Rightarrow> fst p)"
proof (cases "t \<in> {'''', ''-'', ''+'', ''{'', ''}''}")
  case True
  have q: "store_fields (q\<lparr>q_negate_next_tag := b\<rparr>) = store_fields q" for q b by (simp add: store_fields_def field_defs)
  show ?thesis using assms True by (auto simp: store_token_def Let_def state_ok_def q split: if_splits)
next
  case False
  obtain a q1 rest w2 where st: "store_tag env t ts (ps_qtree s) w = ((a, q1, rest), w2)" by (metis prod_cases3 surj_pair)
  have t: "t \<noteq> ''''" using False by simp
  have f: "store_fields (ps_qtree s)" using assms(1) by (simp add: state_ok_def)
  note T = store_tag_typed[OF t f st]
  have s1: "state_ok (s\<lparr>ps_qtree := q1\<rparr>)" using assms(1) T(3) by (simp add: state_ok_def)
  obtain r1 w3 where p: "store_place env a (s\<lparr>ps_qtree := q1\<rparr>) w2 = Done (r1, w3)" "r = map_sum id (\<lambda>s2. (s2, rest)) r1"
    using assms(2) False st by (auto simp: store_token_def Let_def run_bind_Done_iff)
  from store_place_typed[OF T(1) _ s1 p(1)] T(2) show ?thesis by (cases r1) (simp_all add: p(2) state_of_def)
qed

lemma store_loop_typed:
  "state_ok s \<Longrightarrow> parse_store_loop env tokens s w = Done ((ok, q, rest), w') \<Longrightarrow>
     store_fields q \<and> (\<forall>and_set \<in> set (q_tree q). \<forall>nd \<in> set and_set. node_ok_as False nd) \<and> q_tree q \<noteq> []"
proof (induction env tokens s w rule: parse_store_loop.induct)
  case (1 env tokens s w)
  have fin: "store_fields (finish_store s) \<and> (\<forall>and_set \<in> set (q_tree (finish_store s)). \<forall>nd \<in> set and_set. node_ok_as False nd)
      \<and> q_tree (finish_store s) \<noteq> []" if "state_ok s" for s
    using that by (auto simp: finish_store_def state_ok_def store_fields_def field_defs)
  show ?case
  proof (cases tokens)
    case Nil
    then have "q = finish_store s" using "1.prems"(2) by (simp add: parse_store_loop.simps)
    then show ?thesis using fin[OF "1.prems"(1)] by simp
  next
    case (Cons t ts)
    show ?thesis
    proof (cases "t \<noteq> '''' \<and> hd t = CHR ''@''")
      case True
      then have "q = finish_store s" using "1.prems"(2) Cons by (simp add: parse_store_loop.simps)
      then show ?thesis using fin[OF "1.prems"(1)] by simp
    next
      case False
      then have unf: "parse_store_loop env tokens s w = (case store_token env t ts s w of
                  Segv \<Rightarrow> Segv | Hang \<Rightarrow> Hang
                | Done (Inl (e, s1), w1) \<Rightarrow> Done ((False, (finish_store s1)\<lparr>q_error_message := Some e\<rparr>, t # ts), w1)
                | Done (Inr (s1, rest), w1) \<Rightarrow>
                    parse_store_loop env (tl rest)
                      (s1\<lparr>ps_qtree := (ps_qtree s1)\<lparr>q_last_tag := Some (hd rest)\<rparr>\<rparr>) w1)"
        using Cons by (subst parse_store_loop.simps) (simp only: list.case if_False)
      obtain r w1 where r: "store_token env t ts s w = Done (r, w1)"
        using "1.prems"(2) unf by (cases "store_token env t ts s w") auto
      note T = store_token_typed[OF "1.prems"(1) r]
      show ?thesis
      proof (cases r)
        case (Inl p)
        then have "state_ok (snd p)" using T by simp
        from fin[OF this] show ?thesis using "1.prems"(2) unf r Inl by (auto simp: store_fields_def field_defs split: prod.splits)
      next
        case (Inr p)
        obtain s1 rest1 where p: "p = (s1, rest1)" by (metis surj_pair)
        then have "state_ok (s1\<lparr>ps_qtree := (ps_qtree s1)\<lparr>q_last_tag := Some (hd rest1)\<rparr>\<rparr>)"
          using T Inr by (simp add: state_ok_def store_fields_def field_defs)
        from "1.IH"[OF Cons False r[unfolded Inr p] refl refl refl this] show ?thesis
          using "1.prems"(2) unf r Inr p by simp
      qed
    qed
  qed
qed


lemma parse_store_typed:
  assumes "blank q" "q_type q = QTYPE_STORE" "tagsistant_querytree_parse_store env q path tokens dr w = Done ((ok, q', rest), w')"
  shows "store_fields q'" "\<forall>and_set \<in> set (q_tree q'). \<forall>nd \<in> set and_set. node_ok_as False nd" "q_tree q' \<noteq> []"
proof -
  let ?q1 = "(if strstr ''/@'' path then q\<lparr>q_complete := True, q_do_reasoning := \<not> dr \<and> \<not> strstr ''/@@'' path\<rparr> else q)\<lparr>q_valid := True\<rparr>"
  have "state_ok \<lparr>ps_qtree = ?q1, ps_done = [], ps_cur = [], ps_group = TAG_GROUP_DONT_ADD\<rparr>"
    using assms(1,2) by (simp add: state_ok_def store_fields_def blank_def field_defs)
  from store_loop_typed[OF this, of env tokens w ok q' rest w'] assms(3)
  show "store_fields q'" "\<forall>and_set \<in> set (q_tree q'). \<forall>nd \<in> set and_set. node_ok_as False nd" "q_tree q' \<noteq> []"
    unfolding tagsistant_querytree_parse_store_def Let_def by blast+
qed

text \<open>The parsers of the other kinds leave the fields of an object and the tree alone.\<close>

definition plain_fields :: "querytree \<Rightarrow> bool" where
  "plain_fields q \<longleftrightarrow> no_object q \<and> q_tree q = [] \<and> q_operator q = TAGSISTANT_NONE"

lemma parse_tags_typed:
  assumes "blank q" "q_type q = QTYPE_TAGS"
  shows "well_typed env (fst (tagsistant_querytree_parse_tags q ts))"
  using assms by (auto simp: tagsistant_querytree_parse_tags_def Let_def well_typed_def blank_def field_defs split: list.splits)

lemma consume_left_typed:
  assumes "blank q" "is_triple_token t"
  shows "relation_ok (fst (tagsistant_querytree_parse_relations_consume_triple q t ts False))"
proof -
  have b: "q_first_tag q = None" "q_second_tag q = None" "q_relation q = None" "q_related_namespace q = None" "q_related_key q = None"
      "q_related_value q = None"
    using assms(1) by (simp_all add: blank_def no_names_def no_right_side_def)
  have "relation_ok (q\<lparr>q_namespace := Some t, q_key := k, q_value := v\<rparr>)" if "v \<noteq> None \<longrightarrow> k \<noteq> None" for k v
    using b that assms(2) by (simp add: relation_ok_def one_left_tag_def names_ok_def)
  then show ?thesis
    by (cases ts; cases "tl ts") (simp_all add: tagsistant_querytree_parse_relations_consume_triple_def Let_def)
qed

lemma consume_right_typed:
  assumes "relation_ok q" "is_triple_token t" "q_relation q \<noteq> None" "q_second_tag q = None"
  shows "relation_ok (fst (tagsistant_querytree_parse_relations_consume_triple q t ts True))"
proof -
  have "relation_ok (q\<lparr>q_related_namespace := Some t, q_related_key := k, q_related_value := v, q_complete := c\<rparr>)"
    if "v \<noteq> None \<longrightarrow> k \<noteq> None" for k v c
    using assms that by (simp add: relation_ok_def one_left_tag_def names_ok_def cong: option.case_cong)
  from this[of _ _ "q_complete q"] this[of _ _ True] show ?thesis
    by (cases ts; cases "tl ts") (simp_all add: tagsistant_querytree_parse_relations_consume_triple_def Let_def)
qed

lemma relation_ok_error [simp]: "relation_ok (q\<lparr>q_error_message := x\<rparr>) = relation_ok q"
  by (simp add: relation_ok_def one_left_tag_def cong: option.case_cong)

lemma no_object_error [simp]: "no_object (q\<lparr>q_error_message := x\<rparr>) = no_object q" "no_object (q\<lparr>q_type := y\<rparr>) = no_object q"
  by (simp_all add: no_object_def)

lemma relation_ok_type [simp]: "relation_ok (q\<lparr>q_type := x\<rparr>) = relation_ok q"
  by (simp add: relation_ok_def one_left_tag_def cong: option.case_cong)

definition same_other_fields :: "querytree \<Rightarrow> querytree \<Rightarrow> bool" where
  "same_other_fields q q' \<longleftrightarrow> q_type q' = q_type q \<and> q_tree q' = q_tree q \<and> q_operator q' = q_operator q \<and> q_stats_path q' = q_stats_path q \<and>
     q_alias q' = q_alias q \<and> q_error_message q' = q_error_message q \<and> no_object q' = no_object q"

lemma consume_other_fields: "same_other_fields q (fst (tagsistant_querytree_parse_relations_consume_triple q t ts b))"
  by (simp add: tagsistant_querytree_parse_relations_consume_triple_def Let_def same_other_fields_def no_object_def split: list.splits)

lemma right_tag_typed:
  assumes "relation_ok q" "q_relation q \<noteq> None" "q_second_tag q = None" "q_related_namespace q = None"
  shows "relation_ok (fst (parse_right_tag q ts)) \<and>
     (q_type (fst (parse_right_tag q ts)) = q_type q \<or> q_type (fst (parse_right_tag q ts)) = QTYPE_MALFORMED) \<and>
      same_other_fields q ((fst (parse_right_tag q ts))\<lparr>q_type := q_type q\<rparr>)"
proof (cases ts)
  case Nil
  then show ?thesis using assms by (simp add: parse_right_tag_def same_other_fields_def no_object_def)
next
  case (Cons t us)
  show ?thesis
  proof (cases "is_triple_token t")
    case True
    let ?c = "tagsistant_querytree_parse_relations_consume_triple q t us True"
    have "relation_ok (fst ?c)" using consume_right_typed assms True by blast
    then show ?thesis using Cons True consume_other_fields[of q t us True]
      by (auto simp: parse_right_tag_def Let_def split_beta same_other_fields_def no_object_def)
  next
    case False
    have "relation_ok (q\<lparr>q_second_tag := Some t, q_complete := True\<rparr>)"
      using assms False by (simp add: relation_ok_def one_left_tag_def cong: option.case_cong)
    then show ?thesis using Cons False by (auto simp: parse_right_tag_def Let_def same_other_fields_def no_object_def)
  qed
qed

text \<open>The error message of a malformed query is set at the end.\<close>

lemma qtree_return_typed:
  assumes "q_type q = QTYPE_MALFORMED" "relation_ok q" "q_tree q = []" "q_operator q = TAGSISTANT_NONE" "q_stats_path q = None"
    "q_alias q = None" "no_object q"
  shows "well_typed env (qtree_return q)"
  using assms by (cases "q_error_message q") (simp_all add: qtree_return_def well_typed_def)

lemma parse_relations_typed:
  assumes "blank q" "q_type q = QTYPE_RELATIONS"
  shows "well_typed env (qtree_return (fst (snd (tagsistant_querytree_parse_relations q ts))))"
proof (cases ts)
  case Nil
  then show ?thesis using assms
    by (simp add: tagsistant_querytree_parse_relations_def qtree_return_def well_typed_def blank_def relation_ok_def field_defs)
next
  case (Cons t us)
  define p where "p = (if is_triple_token t then tagsistant_querytree_parse_relations_consume_triple q t us False
      else (q\<lparr>q_first_tag := Some t\<rparr>, t # us))"
  let ?q1 = "fst p"
  have "relation_ok (q\<lparr>q_first_tag := Some t\<rparr>)" if "\<not> is_triple_token t"
    using assms that by (auto simp: relation_ok_def blank_def field_defs)
  then have q1: "relation_ok ?q1" "same_other_fields q ?q1" "q_relation ?q1 = None" "q_second_tag ?q1 = None" "q_related_namespace ?q1 = None"
      "q_first_tag ?q1 \<noteq> None \<or> q_namespace ?q1 \<noteq> None"
    using assms(1) consume_left_typed[OF assms(1), of t us] consume_other_fields[of q t us False]
    by (auto simp: p_def same_other_fields_def blank_def field_defs tagsistant_querytree_parse_relations_consume_triple_def Let_def
        split: list.splits)
  have e: "fst (snd (tagsistant_querytree_parse_relations q ts)) = fst (snd (parse_relation_and_right ?q1 (tl (snd p))))"
    by (simp add: Cons tagsistant_querytree_parse_relations_def Let_def split_beta p_def)
  have base: "well_typed env (qtree_return q2)" if "relation_ok q2" "same_other_fields q (q2\<lparr>q_type := q_type q\<rparr>)"
    "q_type q2 = q_type q \<or> q_type q2 = QTYPE_MALFORMED" for q2
  proof (cases "q_type q2 = QTYPE_MALFORMED")
    case True
    then show ?thesis using that assms(1) by (intro qtree_return_typed) (simp_all add: same_other_fields_def blank_def no_object_def)
  next
    case False
    then show ?thesis using that assms by (auto simp: qtree_return_def well_typed_def same_other_fields_def blank_def no_object_def)
  qed
  show ?thesis
  proof (cases "tl (snd p)")
    case Nil
    then have "fst (snd (parse_relation_and_right ?q1 (tl (snd p)))) = ?q1" by (simp add: parse_relation_and_right_def)
    then show ?thesis unfolding e using base[of ?q1] q1 by (simp add: same_other_fields_def no_object_def)
  next
    case (Cons r rest)
    show ?thesis
    proof (cases "relation_pattern r")
      case False
      then have "fst (snd (parse_relation_and_right ?q1 (tl (snd p)))) = ?q1" using Cons by (simp add: parse_relation_and_right_def)
      then show ?thesis unfolding e using base[of ?q1] q1 by (simp add: same_other_fields_def no_object_def)
    next
      case True
      let ?q2 = "?q1\<lparr>q_relation := Some r\<rparr>"
      have q2: "relation_ok ?q2" "q_relation ?q2 \<noteq> None" "q_second_tag ?q2 = None" "q_related_namespace ?q2 = None"
        using q1 True by (auto simp: relation_ok_def field_defs)
      have f: "fst (snd (parse_relation_and_right ?q1 (tl (snd p)))) = fst (parse_right_tag ?q2 rest)"
        using Cons True by (simp add: parse_relation_and_right_def Let_def split_beta)
      show ?thesis unfolding e f using base right_tag_typed[OF q2, of rest] q1(2) by (auto simp: same_other_fields_def no_object_def)
    qed
  qed
qed

subsection \<open>The tree of a path\<close>

lemma set_inode_fields:
  "fst (tagsistant_querytree_set_inode env q i w) = (if i = 0 then q else q\<lparr>q_inode := i,
     q_archive_path := Some (fmt_d i @ ''___'' @ printf_s (q_object_path q)),
     q_full_archive_path := Some (archive_hierarchy env i @ ''/'' @ fmt_d i @ ''___'' @ printf_s (q_object_path q))\<rparr>)"
  by (simp add: tagsistant_querytree_set_inode_def tagsistant_querytree_rebuild_paths_def Let_def)

lemma inode_then_path: "q\<lparr>q_inode := i, q_object_path := p\<rparr> = q\<lparr>q_object_path := p, q_inode := i\<rparr>"
  by (cases q) simp

lemma store_inode_fields:
  assumes "store_inode env q ts w = Done q1"
  obtains p i where "q1 = q\<lparr>q_object_path := Some p, q_inode := i\<rparr>"
proof (cases "tagsistant_inode_extract_from_path (Some (g_strjoinv (CHR ''/'') ts)) = 0")
  case True
  then show ?thesis using assms that by (auto simp: store_inode_def Let_def run_bind_Done_iff split: if_splits)
next
  case False
  then show ?thesis using assms that[of "tagsistant_inode_extract_from_path (Some (g_strjoinv (CHR ''/'') ts))"
      "inode_rx_1_strip (g_strjoinv (CHR ''/'') ts)"]
    by (simp add: store_inode_def Let_def tagsistant_querytree_set_inode_def inode_then_path)
qed

lemma store_object_typed:
  assumes "store_fields q" "\<forall>and_set \<in> set (q_tree q). \<forall>nd \<in> set and_set. node_ok_as False nd" "q_tree q \<noteq> []" "q_complete q"
    and r: "store_object env q ts w = Done (q', w')"
  shows "well_typed env (qtree_return (q'\<lparr>q_points_to_object := points_to_object q'\<rparr>))"
proof -
  obtain q1 where q1: "store_inode env q ts w = Done q1" "q' = fst (store_finish env q1 w)"
    using r by (cases "store_inode env q ts w") (simp_all add: store_object_def run_bind_def)
  from store_inode_fields[OF q1(1)] obtain p i where s: "q1 = q\<lparr>q_object_path := Some p, q_inode := i\<rparr>" by blast
  have f: "q_type q = QTYPE_STORE" "names_ok (q_namespace q) (q_key q) (q_value q)" "q_first_tag q = None" "q_second_tag q = None"
    "no_right_side q" "q_stats_path q = None" "q_alias q = None" "q_archive_path q = None" "q_full_archive_path q = None"
    using assms(1) by (simp_all add: store_fields_def no_object_def)
  have q': "q' = q\<lparr>q_object_path := Some p, q_inode := i,
     q_archive_path := if i = 0 then q_archive_path q else Some (fmt_d i @ ''___'' @ p),
     q_full_archive_path := if i = 0 then q_full_archive_path q else Some (archive_hierarchy env i @ ''/'' @ fmt_d i @ ''___'' @ p),
     q_points_to_object := if p = '''' then q_points_to_object q else True, q_valid := if p = '''' then q_valid q else True,
     q_complete := True\<rparr>"
    using assms(4) by (simp add: q1(2) store_finish_def Let_def split_beta set_inode_fields s printf_s_def)
  show ?thesis
    using f assms(2-4) unfolding q' points_to_object_def qtree_return_def well_typed_def store_ok_def
    by (cases "i = 0"; cases "p = ''''") (simp_all add: printf_s_def no_right_side_def)
qed

lemma archive_object_typed:
  assumes "blank q" "q_type q = QTYPE_ARCHIVE" "archive_object env q ts w = (q', w')"
  shows "well_typed env (qtree_return (q'\<lparr>q_points_to_object := points_to_object q'\<rparr>))"
proof -
  have f: "no_names q" "no_right_side q" "q_tree q = []" "q_operator q = TAGSISTANT_NONE" "q_stats_path q = None" "q_alias q = None"
    using assms(1) by (simp_all add: blank_def)
  have q': "q' = fst (archive_object env q ts w)" using assms(3) by simp
  let ?p = "g_strjoinv (CHR ''/'') ts"
  let ?i = "tagsistant_inode_extract_from_path (Some ?p)"
  have "\<exists>p i b. q' = q\<lparr>q_object_path := Some p, q_inode := i, q_archive_path := Some p, q_full_archive_path := Some b\<rparr>"
  proof (cases "?i = 0")
    case True
    have "archive_object env q ts w = (if ?p = '''' then (q\<lparr>q_object_path := Some ?p, q_inode := 0,
          q_archive_path := Some '''', q_full_archive_path := Some (archive env)\<rparr>, w)
        else (q\<lparr>q_object_path := Some ?p, q_inode := 0, q_archive_path := Some ?p, q_full_archive_path := Some (archive env @ ''/'' @ ?p)\<rparr>, w))"
      using True by (simp add: archive_object_def Let_def printf_s_def)
    then show ?thesis using q' by (metis fst_conv)
  next
    case False
    let ?s = "inode_rx_1_strip ?p"
    have "q' = (if ?s = '''' then q\<lparr>q_object_path := Some ?s, q_inode := ?i, q_archive_path := Some ?s, q_full_archive_path := Some (archive env)\<rparr>
        else q\<lparr>q_object_path := Some ?s, q_inode := ?i, q_archive_path := Some ?s, q_full_archive_path := Some (archive env @ ''/'' @ ?s)\<rparr>)"
      using False unfolding q' by (simp add: archive_object_def Let_def split_beta set_inode_fields printf_s_def)
    then show ?thesis by metis
  qed
  then obtain p i b where s: "q' = q\<lparr>q_object_path := Some p, q_inode := i, q_archive_path := Some p, q_full_archive_path := Some b\<rparr>"
    by blast
  show ?thesis using f assms(2) unfolding s
    by (simp add: points_to_object_def qtree_return_def well_typed_def archive_ok_def no_names_def no_right_side_def printf_s_def)
qed

lemma no_object_points:
  assumes "well_typed env (qtree_return q)" "q_type q \<notin> {QTYPE_STORE, QTYPE_ARCHIVE}"
  shows "q\<lparr>q_points_to_object := points_to_object q\<rparr> = q"
proof -
  have "no_object q" using assms by (auto simp: well_typed_def qtree_return_def split: if_splits)
  then show ?thesis using assms(2) by (simp add: no_object_def points_to_object_def)
qed

lemma resolve_plain_typed:
  assumes "well_typed env (qtree_return q)" "q_type q \<notin> {QTYPE_STORE, QTYPE_ARCHIVE}" "resolve_object env q ts w = Done (q', w')"
  shows "well_typed env (qtree_return q')"
  using assms no_object_points[OF assms(1,2)] by (simp add: resolve_object_def)

lemma blank_type [simp]: "blank (q\<lparr>q_type := x\<rparr>) = blank q"
  by (simp add: blank_def no_names_def no_right_side_def)

lemma blank_typed:
  assumes "blank q" "q_type q \<notin> {QTYPE_RETAG, QTYPE_STORE, QTYPE_ARCHIVE}"
  shows "well_typed env (qtree_return q)"
proof (cases "q_type q = QTYPE_MALFORMED")
  case True
  have "relation_ok q" using assms(1) by (simp add: blank_def relation_ok_def field_defs)
  then show ?thesis using True assms(1) by (intro qtree_return_typed) (simp_all add: blank_def)
next
  case False
  have "relation_ok q" using assms(1) by (simp add: blank_def relation_ok_def field_defs)
  then show ?thesis using assms False by (cases "q_type q") (simp_all add: qtree_return_def well_typed_def blank_def field_defs)
qed

lemma parse_stats_alias_typed:
  assumes "blank q"
  shows "q_type q = QTYPE_STATS \<Longrightarrow> well_typed env (qtree_return (tagsistant_querytree_parse_stats q ts))"
    and "q_type q = QTYPE_ALIAS \<Longrightarrow> well_typed env (qtree_return (tagsistant_querytree_parse_alias q ts))"
  using assms by (cases ts; simp add: tagsistant_querytree_parse_stats_def tagsistant_querytree_parse_alias_def Let_def
      qtree_return_def well_typed_def blank_def field_defs)+

lemma parse_relations_type:
  assumes "q_type q = QTYPE_RELATIONS"
  shows "q_type (fst (snd (tagsistant_querytree_parse_relations q ts))) \<in> {QTYPE_RELATIONS, QTYPE_MALFORMED}"
  using assms by (auto simp: tagsistant_querytree_parse_relations_def parse_relation_and_right_def parse_right_tag_def
      tagsistant_querytree_parse_relations_consume_triple_def Let_def split: list.splits)

lemma store_resolved_typed:
  assumes "blank q" "q_type q = QTYPE_STORE" "tagsistant_querytree_parse_store env q path ts dr w = Done ((ok, q3, rest), w3)"
  shows "well_typed env (qtree_return q3)"
    and "resolve_object env q3 rest w3 = Done (q4, w4) \<Longrightarrow> well_typed env (qtree_return q4)"
proof -
  note P = parse_store_typed[OF assms]
  have ok: "well_typed env (qtree_return q3)" using P
    by (simp add: qtree_return_def well_typed_def store_ok_def store_fields_def no_object_def)
  then show "well_typed env (qtree_return q3)" .
  assume r: "resolve_object env q3 rest w3 = Done (q4, w4)"
  have ty: "q_type q3 = QTYPE_STORE" using P(1) by (simp add: store_fields_def)
  show "well_typed env (qtree_return q4)"
  proof (cases "q_complete q3")
    case True
    then obtain q5 where q5: "store_object env q3 rest w3 = Done (q5, w4)" "q4 = q5\<lparr>q_points_to_object := points_to_object q5\<rparr>"
      using r ty by (auto simp: resolve_object_def run_bind_Done_iff)
    show ?thesis unfolding q5(2) by (rule store_object_typed[OF P True q5(1)])
  next
    case False
    have "q3\<lparr>q_points_to_object := points_to_object q3\<rparr> = q3"
      using P(1) False by (simp add: points_to_object_def ty store_fields_def no_object_def)
    then show ?thesis using r ty False ok by (simp add: resolve_object_def)
  qed
qed

lemma resolve_parsed_typed:
  assumes b: "blank q" and ty: "q_type q \<noteq> QTYPE_MALFORMED" "q_type q \<noteq> QTYPE_RETAG"
    and p: "parse_tokens env q ts dr w = Done ((ok, q3, rest), w3)"
  shows "(\<not> ok \<longrightarrow> well_typed env (qtree_return q3)) \<and>
    (\<forall>q4 w4. resolve_object env q3 rest w3 = Done (q4, w4) \<longrightarrow> well_typed env (qtree_return q4))"
proof -
  have plain: ?thesis if "well_typed env (qtree_return q3)" "q_type q3 \<notin> {QTYPE_STORE, QTYPE_ARCHIVE}"
    using that resolve_plain_typed[OF that] by blast
  show ?thesis
  proof (cases "q_type q")
    case QTYPE_STORE
    then show ?thesis using store_resolved_typed[OF b QTYPE_STORE, of env "q_full_path q" ts dr w ok q3 rest w3] p
      by (simp add: parse_tokens_def)
  next
    case QTYPE_ARCHIVE
    then have "ok" "q3 = q" "rest = ts" "w3 = w" using p by (simp_all add: parse_tokens_def)
    then show ?thesis using archive_object_typed[OF b QTYPE_ARCHIVE] QTYPE_ARCHIVE
      by (cases "archive_object env q ts w") (simp add: resolve_object_def)
  next
    case QTYPE_TAGS
    then have q3: "q3 = fst (tagsistant_querytree_parse_tags q ts)" using p by (simp add: parse_tokens_def split_beta)
    have "q_type q3 = QTYPE_TAGS" using QTYPE_TAGS by (simp add: q3 tagsistant_querytree_parse_tags_def Let_def split: list.splits)
    moreover have "well_typed env q3" using parse_tags_typed[OF b QTYPE_TAGS] by (simp add: q3)
    ultimately show ?thesis by (intro plain) (simp_all add: qtree_return_def)
  next
    case QTYPE_RELATIONS
    then have q3: "q3 = fst (snd (tagsistant_querytree_parse_relations q ts))" using p by (simp add: parse_tokens_def split_beta)
    show ?thesis using parse_relations_typed[OF b QTYPE_RELATIONS, of env ts] parse_relations_type[OF QTYPE_RELATIONS, of ts]
      unfolding q3[symmetric] by (intro plain) auto
  next
    case QTYPE_STATS
    then have q3: "q3 = tagsistant_querytree_parse_stats q ts" using p by (auto simp: parse_tokens_def)
    then have "q_type q3 = QTYPE_STATS" using QTYPE_STATS by (simp add: tagsistant_querytree_parse_stats_def split: list.splits)
    then show ?thesis using parse_stats_alias_typed(1)[OF b QTYPE_STATS] by (intro plain) (simp_all add: q3)
  next
    case QTYPE_ALIAS
    then have q3: "q3 = tagsistant_querytree_parse_alias q ts" using p by (auto simp: parse_tokens_def)
    then have "q_type q3 = QTYPE_ALIAS" using QTYPE_ALIAS
      by (simp add: tagsistant_querytree_parse_alias_def Let_def split: list.splits)
    then show ?thesis using parse_stats_alias_typed(2)[OF b QTYPE_ALIAS] by (intro plain) (simp_all add: q3)
  next
    case QTYPE_ROOT
    then have "q3 = q" using p by (simp add: parse_tokens_def)
    then show ?thesis using blank_typed[OF b] QTYPE_ROOT by (intro plain) simp_all
  qed (use ty in simp_all)
qed

lemma resolve_path_typed:
  assumes "blank q" "resolve_path env q dr w = Done (q', w')"
  shows "well_typed env q'"
proof -
  obtain expanded where e: "(if strstr ''/@'' (q_full_path q) then tagsistant_expand_path env (q_dbi q) w (q_full_path q)
               else Done (q_full_path q)) = Done expanded"
    using assms(2) by (auto simp: resolve_path_def run_bind_Done_iff)
  obtain t ts where tok: "tl (g_strsplit (CHR ''/'') 512 expanded) = t # ts"
    using assms(2) e by (auto simp: resolve_path_def split: list.splits)
  let ?q = "q\<lparr>q_expanded_full_path := expanded, q_type := guess_type t\<rparr>"
  have b: "blank ?q" using assms(1) by (simp add: blank_def no_names_def no_right_side_def no_object_def)
  show ?thesis
  proof (cases "guess_type t = QTYPE_MALFORMED")
    case True
    then have "q' = qtree_return ?q" using assms(2) e tok by (simp add: resolve_path_def Let_def)
    then show ?thesis using blank_typed[OF b] True by simp
  next
    case False
    have nr: "q_type ?q \<noteq> QTYPE_RETAG" by (simp add: guess_type_def)
    obtain ok q3 rest w3 where p: "parse_tokens env ?q ts dr w = Done ((ok, q3, rest), w3)"
      and r: "(if \<not> ok then Done (qtree_return q3, w3)
               else run_bind (resolve_object env q3 rest w3) (\<lambda>(q4, w4). Done (qtree_return q4, w4))) = Done (q', w')"
      using assms(2) e tok False by (auto simp: resolve_path_def Let_def run_bind_Done_iff)
    note R = resolve_parsed_typed[OF b _ nr p]
    show ?thesis using R r False by (auto simp: run_bind_Done_iff split: if_splits)
  qed
qed

subsection \<open>The theorem\<close>

text \<open>C3: Every query tree that \<^verbatim>\<open>tagsistant_querytree_new\<close> returns, for any path, database and environment,
  is well typed: the fields that are set are those of the kind of query the path is. A tree of and-sets,
  the nodes in it flat or triple tags with the names in order and negated exactly on the negated chains,
  belongs to \<^verbatim>\<open>store/\<close> queries; a relation stands between two tags, each flat or triple; an object
  path points to an object only when it is complete and not empty, and the archive path is the one the inode
  and the name give; a malformed query has an error message.\<close>

theorem query_trees_well_typed:
  assumes "tagsistant_querytree_new env path start_transaction provide_connection disable_reasoner w = Done (q, w')"
  shows "well_typed env q"
proof -
  have "blank (new_querytree path)" "blank ((new_querytree path)\<lparr>q_dbi := True, q_transaction_started := start_transaction\<rparr>)"
    by (simp_all add: blank_def new_querytree_def no_names_def no_right_side_def no_object_def)
  then show ?thesis using assms resolve_path_typed
    by (auto simp: tagsistant_querytree_new_def Let_def split: if_splits)
qed

text \<open>A token after the right tag makes the query malformed.\<close>

theorem query_trees_well_typed_witness:
  "\<exists>q w'. tagsistant_querytree_new sample_env ''/relations/a/includes/b/c'' False True False (sample_world empty_db []) = Done (q, w')
    \<and> q_type q = QTYPE_MALFORMED \<and> q_second_tag q = Some ''b'' \<and> well_typed sample_env q"
proof -
  have c: "components_ok [''relations'', ''a'', ''includes'', ''b'', ''c'']" "''/relations/a/includes/b/c'' = path_of [''relations'', ''a'', ''includes'', ''b'', ''c'']"
    by (simp_all add: components_ok_def)
  have "\<exists>q w'. tagsistant_querytree_new sample_env ''/relations/a/includes/b/c'' False True False (sample_world empty_db []) = Done (q, w')
    \<and> q_type q = QTYPE_MALFORMED \<and> q_second_tag q = Some ''b''"
    unfolding c(2) querytree_new_eval[OF c(1)]
    by (simp add: Let_def guess_type_def parse_tokens_def tagsistant_querytree_parse_relations_def parse_relation_and_right_def
        parse_right_tag_def triple_token_eval relation_pattern_def resolve_object_def points_to_object_def qtree_return_def
        new_querytree_def del: path_of_simps)
  then show ?thesis using query_trees_well_typed[of sample_env "''/relations/a/includes/b/c''" False True False "sample_world empty_db []"]
    by blast
qed

end
