(* ===== verification/Query_Caches.thy ===== *)
theory Query_Caches
  imports Operation
begin

section \<open>The caches of path resolution\<close>

text \<open>
  Two hash tables of \<^verbatim>\<open>src/src/path_resolution.c\<close> that \<^verbatim>\<open>tagsistant.h\<close> switches off: the query
  trees by their path (\<^verbatim>\<open>TAGSISTANT_ENABLE_QUERYTREE_CACHE\<close>) and the inodes guessed for an object
  name and an and-set (\<^verbatim>\<open>TAGSISTANT_ENABLE_AND_SET_CACHE\<close>). The definitions here are the functions
  the program has with the switches on; the rest of the development is the program as it is built, with
  them off. A table is a map, passed and returned; its locks are left out. The theorems say why
  the switches have to stay off.
\<close>

subsection \<open>The inodes of and-sets\<close>

text \<open>The key: the name of the object and the tags of the set, one after the other.\<close>

definition and_set_element :: "qtree_and_node \<Rightarrow> string" where
  "and_set_element nd =
     (case an_tag (and_data nd) of
        Some t \<Rightarrow> t @ concat (map (\<lambda>a. '','' @ printf_s (an_tag a)) (tl (chain_data nd)))
      | None \<Rightarrow>
          (case (an_namespace (and_data nd), an_key (and_data nd), an_value (and_data nd)) of
             (Some n, Some k, Some v) \<Rightarrow> n @ k @ ''='' @ v
           | _ \<Rightarrow> ''''))"

definition tagsistant_compile_and_set :: "gchars \<Rightarrow> qtree_and_node list \<Rightarrow> string" where
  "tagsistant_compile_and_set objectname and_set = printf_s objectname @ ''>>>'' @ concat (map and_set_element and_set)"

type_synonym and_set_cache = "string \<Rightarrow> tagsistant_inode option"

definition tagsistant_invalidate_and_set_cache_entries :: "querytree \<Rightarrow> and_set_cache \<Rightarrow> and_set_cache" where
  "tagsistant_invalidate_and_set_cache_entries q c =
     fold (\<lambda>and_set m. m(tagsistant_compile_and_set (q_object_path q) and_set := None)) (q_tree q) c"

text \<open>The guess around the table: an entry is the answer, and an inode that was found is entered.\<close>

definition cached_guess :: "'fs env \<Rightarrow> qtree_and_node list \<Rightarrow> dbi_conn \<Rightarrow> string \<Rightarrow> 'fs world \<Rightarrow> and_set_cache
    \<Rightarrow> (tagsistant_inode \<times> and_set_cache) run" where
  "cached_guess env and_set conn name w c =
     (let search_key = tagsistant_compile_and_set (Some name) and_set
      in case c search_key of
           Some i \<Rightarrow> Done (i, c)
         | None \<Rightarrow> run_bind (tagsistant_guess_inode_from_and_set env and_set conn name w)
             (\<lambda>i. Done (i, if i \<noteq> 0 then c(search_key \<mapsto> i) else c)))"

subsection \<open>The query trees of paths\<close>

fun tagsistant_querytree_duplicate_ptree_and_node_related :: "qtree_and_node \<Rightarrow> qtree_and_node" where
  "tagsistant_querytree_duplicate_ptree_and_node_related (And_node a r ng) =
     And_node (new_and_data\<lparr>an_tag := an_tag a\<rparr>)
       (case r of None \<Rightarrow> None | Some x \<Rightarrow> Some (tagsistant_querytree_duplicate_ptree_and_node_related x)) None"

fun tagsistant_querytree_duplicate_ptree_and_node :: "qtree_and_node list \<Rightarrow> qtree_and_node list" where
  "tagsistant_querytree_duplicate_ptree_and_node [] = []"
| "tagsistant_querytree_duplicate_ptree_and_node (nd # nodes) =
     And_node (new_and_data\<lparr>an_tag := an_tag (and_data nd)\<rparr>)
       (case and_related nd of None \<Rightarrow> None | Some x \<Rightarrow> Some (tagsistant_querytree_duplicate_ptree_and_node_related x)) None
     # tagsistant_querytree_duplicate_ptree_and_node nodes"

fun tagsistant_querytree_duplicate_ptree_or_node :: "qtree_and_node list list \<Rightarrow> qtree_and_node list list" where
  "tagsistant_querytree_duplicate_ptree_or_node [] = []"
| "tagsistant_querytree_duplicate_ptree_or_node (and_set # sets) =
     tagsistant_querytree_duplicate_ptree_and_node and_set # tagsistant_querytree_duplicate_ptree_or_node sets"

text \<open>The fields that are not named stay as \<^verbatim>\<open>g_new0\<close> leaves them; the expanded path, NULL there, is the empty string here.\<close>

definition tagsistant_querytree_duplicate :: "querytree \<Rightarrow> querytree" where
  "tagsistant_querytree_duplicate q = (new_querytree (q_full_path q))
     \<lparr>q_expanded_full_path := '''', q_full_archive_path := q_full_archive_path q, q_archive_path := q_archive_path q,
      q_object_path := q_object_path q, q_last_tag := q_last_tag q, q_first_tag := q_first_tag q, q_second_tag := q_second_tag q,
      q_relation := q_relation q, q_stats_path := q_stats_path q,
      q_inode := q_inode q, q_type := q_type q, q_points_to_object := q_points_to_object q, q_is_taggable := q_is_taggable q,
      q_is_external := q_is_external q, q_valid := q_valid q, q_complete := q_complete q, q_exists := q_exists q,
      q_transaction_started := q_transaction_started q,
      q_tree := tagsistant_querytree_duplicate_ptree_or_node (q_tree q)\<rparr>"

type_synonym querytree_cache = "string \<Rightarrow> querytree option"

text \<open>An entry whose file is gone is destroyed, which does nothing else: it has no connection.\<close>

definition tagsistant_querytree_cache_destroy_element :: "'fs env \<Rightarrow> querytree \<Rightarrow> 'fs world \<Rightarrow> 'fs world" where
  "tagsistant_querytree_cache_destroy_element env q w = tagsistant_querytree_destroy env q False w"

definition tagsistant_querytree_lookup :: "'fs env \<Rightarrow> string \<Rightarrow> querytree_cache \<Rightarrow> 'fs world
    \<Rightarrow> querytree option \<times> querytree_cache \<times> 'fs world" where
  "tagsistant_querytree_lookup env path c w =
     (case c path of None \<Rightarrow> (None, c, w)
      | Some q \<Rightarrow>
          if q_full_archive_path q \<noteq> None \<and> (case os_stat (sys env) (q_full_archive_path q) (fs w) of Inl e \<Rightarrow> True | Inr st \<Rightarrow> False)
          then (None, c(path := None), tagsistant_querytree_cache_destroy_element env q w)
          else (Some (tagsistant_querytree_duplicate q), c, w))"

text \<open>\<^verbatim>\<open>tagsistant_querytree_new\<close> around the table; a tree that was found gets a connection, asked for or not.\<close>

definition cached_querytree_new :: "'fs env \<Rightarrow> string \<Rightarrow> bool \<Rightarrow> bool \<Rightarrow> bool \<Rightarrow> querytree_cache \<Rightarrow> 'fs world
    \<Rightarrow> ((querytree \<times> querytree_cache) \<times> 'fs world) run" where
  "cached_querytree_new env path start_transaction provide_connection disable_reasoner c w =
     (case tagsistant_querytree_lookup env path c w of
        (Some q, c1, w1) \<Rightarrow>
          Done ((q\<lparr>q_dbi := True, q_transaction_started := start_transaction\<rparr>, c1), tagsistant_db_connection start_transaction w1)
      | (None, c1, w1) \<Rightarrow>
          run_bind (tagsistant_querytree_new env path start_transaction provide_connection disable_reasoner w1)
            (\<lambda>(q, w2). Done ((q, if \<not> q_points_to_object q \<or> q_inode q \<noteq> 0
               then c1(q_full_path q \<mapsto> tagsistant_querytree_duplicate q) else c1), w2)))"

definition tagsistant_invalidate_querytree_entry :: "querytree \<Rightarrow> querytree \<Rightarrow> bool" where
  "tagsistant_invalidate_querytree_entry q entry \<longleftrightarrow>
     strstr (''/'' @ printf_s (q_first_tag q) @ ''/'') (q_full_path entry) \<or>
     strstr (''/'' @ printf_s (q_second_tag q) @ ''/'') (q_full_path entry)"

definition tagsistant_invalidate_querytree_cache :: "querytree \<Rightarrow> querytree_cache \<Rightarrow> querytree_cache" where
  "tagsistant_invalidate_querytree_cache q c =
     (\<lambda>k. case c k of None \<Rightarrow> None | Some entry \<Rightarrow> if tagsistant_invalidate_querytree_entry q entry then None else Some entry)"

subsection \<open>Keys\<close>

lemma key_split:
  "tagsistant_compile_and_set name [And_node (new_and_data\<lparr>an_tag := Some (s @ t)\<rparr>) None ng, And_node (new_and_data\<lparr>an_tag := Some u\<rparr>) None ng']
   = tagsistant_compile_and_set name [And_node (new_and_data\<lparr>an_tag := Some s\<rparr>) None ng, And_node (new_and_data\<lparr>an_tag := Some (t @ u)\<rparr>) None ng']"
  by (simp add: tagsistant_compile_and_set_def and_set_element_def chain_data_def)

lemma key_ignores_negated:
  "tagsistant_compile_and_set name (And_node a r ng # nodes) = tagsistant_compile_and_set name (And_node a r ng' # nodes)"
proof -
  have "tl (chain_data (And_node a r ng)) = tl (chain_data (And_node a r ng'))" by (cases r) (simp_all add: chain_data_def)
  then show ?thesis by (simp add: tagsistant_compile_and_set_def and_set_element_def split: option.split)
qed

lemma cached_guess_hit:
  assumes "c (tagsistant_compile_and_set (Some name) and_set) = Some i"
  shows "cached_guess env and_set conn name w c = Done (i, c)"
  using assms by (simp add: cached_guess_def Let_def)

lemma cached_guess_miss:
  assumes "c (tagsistant_compile_and_set (Some name) and_set) = None"
    and "tagsistant_guess_inode_from_and_set env and_set conn name w = Done i" "i \<noteq> 0"
  shows "cached_guess env and_set conn name w c = Done (i, c(tagsistant_compile_and_set (Some name) and_set \<mapsto> i))"
  using assms by (simp add: cached_guess_def Let_def)

lemma cached_guess_confused:
  assumes "tagsistant_compile_and_set (Some name) set1 = tagsistant_compile_and_set (Some name) set2"
    and "c (tagsistant_compile_and_set (Some name) set1) = None"
    and "tagsistant_guess_inode_from_and_set env set1 conn name w = Done i" "i \<noteq> 0"
  shows "\<exists>c1. cached_guess env set1 conn name w c = Done (i, c1) \<and> cached_guess env set2 conn name w' c1 = Done (i, c1)"
  using cached_guess_miss[of c name set1 env conn w i] assms by (simp add: cached_guess_hit)

text \<open>The cache of inodes forgets exclusions: of an object with two tags, a query for the
  first one without the second does not find it; when a query for the first one has filled the cache, it does,
  because the key of an and-set leaves out its negated tags.\<close>

theorem cache_forgets_exclusions:
  assumes "row_order env" "db_ok (db w)" "only_object (db w) name i"
    and "lookup_set [And_node a r (Some ng)]" "satisfied (db w) (sint i) (And_node a r None)" "satisfied (db w) (sint i) ng"
  shows "tagsistant_guess_inode_from_and_set env [And_node a r (Some ng)] True name w = Done 0"
    and "\<exists>c. cached_guess env [And_node a r None] True name w (\<lambda>_. None) = Done (i, c) \<and>
           cached_guess env [And_node a r (Some ng)] True name w c = Done (i, c)"
proof -
  have ch: "chain_data (And_node a r x) = chain_data (And_node a r None)" for x by (cases r) (simp_all add: chain_data_def)
  have sat: "satisfied d j (And_node a r x) = satisfied d j (And_node a r None)" for d j x by (simp add: satisfied_def ch[of x])
  have ls: "lookup_set [And_node a r None]" using assms(4) ch[of "Some ng"] by (simp add: lookup_set_def)
  show "tagsistant_guess_inode_from_and_set env [And_node a r (Some ng)] True name w = Done 0"
    using guess_inode_facts[OF assms(1-4)] assms(6) by simp
  have "tagsistant_guess_inode_from_and_set env [And_node a r None] True name w = Done i"
    using guess_inode_facts[OF assms(1-3) ls] assms(5) by simp
  moreover have "i \<noteq> 0" using assms(3) by (simp add: only_object_def)
  ultimately show "\<exists>c. cached_guess env [And_node a r None] True name w (\<lambda>_. None) = Done (i, c) \<and>
           cached_guess env [And_node a r (Some ng)] True name w c = Done (i, c)"
    by (intro cached_guess_confused key_ignores_negated) simp_all
qed

subsection \<open>Duplicates\<close>

text \<open>A duplicated node has the names of its flat tags and no ids.\<close>

lemma duplicate_related_data:
  "chain_data (tagsistant_querytree_duplicate_ptree_and_node_related nd) = map (\<lambda>a. new_and_data\<lparr>an_tag := an_tag a\<rparr>) (chain_data nd)"
  by (induction nd rule: related_chain.induct) (simp_all add: chain_data_def)

lemma duplicate_node_data:
  "nd \<in> set (tagsistant_querytree_duplicate_ptree_and_node nodes) \<Longrightarrow>
     and_negated nd = None \<and> (\<exists>nd0 \<in> set nodes. chain_data nd = map (\<lambda>a. new_and_data\<lparr>an_tag := an_tag a\<rparr>) (chain_data nd0))"
proof (induction nodes rule: tagsistant_querytree_duplicate_ptree_and_node.induct)
  case (2 nd0 nodes)
  show ?case
  proof (cases "nd \<in> set (tagsistant_querytree_duplicate_ptree_and_node nodes)")
    case False
    then have e: "nd = And_node (new_and_data\<lparr>an_tag := an_tag (and_data nd0)\<rparr>)
       (case and_related nd0 of None \<Rightarrow> None | Some x \<Rightarrow> Some (tagsistant_querytree_duplicate_ptree_and_node_related x)) None"
      using "2.prems" by simp
    have "chain_data nd = map (\<lambda>a. new_and_data\<lparr>an_tag := an_tag a\<rparr>) (chain_data nd0)"
      using duplicate_related_data unfolding e by (cases nd0 rule: related_chain.cases) (simp_all add: chain_data_def)
    then show ?thesis using e by auto
  qed (use 2 in auto)
qed simp

text \<open>An object has no tag whose id is 0, so that a duplicated tag matches none.\<close>

definition no_tag_zero :: "database \<Rightarrow> bool" where
  "no_tag_zero d \<longleftrightarrow> (\<forall>p \<in> set (tagging d). snd p \<noteq> 0)"

lemma first_match_zero:
  assumes "row_order env" "no_tag_zero (db w)" "\<forall>a \<in> set as. an_tag_id a = 0 \<and> exact a"
  shows "first_match env conn name w as = 0"
  using assms(3)
proof (induction as)
  case (Cons a as)
  have "select_tagged_named name 0 (db w) = []" using assms(2) by (auto simp: select_tagged_named_def no_tag_zero_def filter_empty_conv)
  then have "tagsistant_check_single_tagging env a conn name w = 0"
    using Cons.prems row_order_ids_Nil[OF assms(1), of "[]"]
    by (simp add: tagsistant_check_single_tagging_def exact_def tagsistant_return_integer_def)
  then show ?case using Cons by simp
qed simp

lemma guess_duplicate:
  assumes "row_order env" "no_tag_zero (db w)" "nodes \<noteq> []" "\<forall>nd \<in> set nodes. an_tag (and_data nd) \<noteq> Some ''ALL''"
  shows "tagsistant_guess_inode_from_and_set env (tagsistant_querytree_duplicate_ptree_and_node nodes) conn name w = Done 0"
proof -
  obtain nd0 ns where ns: "nodes = nd0 # ns" using assms(3) by (cases nodes) simp_all
  obtain nd ds where d: "tagsistant_querytree_duplicate_ptree_and_node nodes = nd # ds"
      and nd: "and_data nd = new_and_data\<lparr>an_tag := an_tag (and_data nd0)\<rparr>"
    by (simp add: ns)
  have "\<forall>a \<in> set (chain_data nd). an_tag_id a = 0 \<and> exact a"
    using duplicate_node_data[of nd nodes] by (auto simp: d new_and_data_def exact_def)
  then have f: "first_match env conn name w (chain_data nd) = 0" by (rule first_match_zero[OF assms(1,2)])
  have "an_tag (and_data nd0) \<noteq> Some ''ALL''" using assms(4) ns by simp
  then have "guess_walk env conn name w 0 (nd # ds) = Inl 0" by (simp add: nd f Let_def) (simp add: new_and_data_def)
  then show ?thesis unfolding d tagsistant_guess_inode_from_and_set_def by (simp del: guess_walk.simps)
qed

text \<open>The tree of a query that can find something: no set of it is empty, none has the tag \<^verbatim>\<open>ALL\<close>.\<close>

definition searching :: "querytree \<Rightarrow> bool" where
  "searching q \<longleftrightarrow> (\<forall>nodes \<in> set (q_tree q). nodes \<noteq> [] \<and> (\<forall>nd \<in> set nodes. an_tag (and_data nd) \<noteq> Some ''ALL''))"

lemma guess_duplicate_tree:
  assumes "row_order env" "no_tag_zero (db w)" "\<forall>nodes \<in> set sets. nodes \<noteq> [] \<and> (\<forall>nd \<in> set nodes. an_tag (and_data nd) \<noteq> Some ''ALL'')"
  shows "guess_from_tree env (tagsistant_querytree_duplicate_ptree_or_node sets) conn name w = Done 0"
  using assms(3)
proof (induction sets)
  case (Cons nodes sets)
  have "tagsistant_guess_inode_from_and_set env (tagsistant_querytree_duplicate_ptree_and_node nodes) conn name w = Done 0"
    using Cons.prems by (intro guess_duplicate[OF assms(1,2)]) simp_all
  then show ?case using Cons by simp
qed simp

lemma new_fills_cache:
  assumes "c path = None" "tagsistant_querytree_new env path st True dr w = Done (q, w1)" "q_inode q \<noteq> 0"
  shows "cached_querytree_new env path st True dr c w = Done ((q, c(path \<mapsto> tagsistant_querytree_duplicate q)), w1)"
  using querytree_new_facts(5)[OF assms(2)] assms
  by (simp add: cached_querytree_new_def tagsistant_querytree_lookup_def)

lemma entry_found:
  assumes "c path = Some (tagsistant_querytree_duplicate q)"
    and "q_full_archive_path q \<noteq> None \<Longrightarrow> os_stat (sys env) (q_full_archive_path q) (fs w) = Inr s"
  shows "cached_querytree_new env path st pc dr c w = Done (((tagsistant_querytree_duplicate (tagsistant_querytree_duplicate q))
     \<lparr>q_dbi := True, q_transaction_started := st\<rparr>, c), tagsistant_db_connection st w)"
  using assms by (auto simp: cached_querytree_new_def tagsistant_querytree_lookup_def tagsistant_querytree_duplicate_def)

lemma duplicate_related_twice:
  "tagsistant_querytree_duplicate_ptree_and_node_related (tagsistant_querytree_duplicate_ptree_and_node_related nd)
   = tagsistant_querytree_duplicate_ptree_and_node_related nd"
  by (induction nd rule: tagsistant_querytree_duplicate_ptree_and_node_related.induct) (simp split: option.splits)

lemma duplicate_tree_twice:
  "tagsistant_querytree_duplicate_ptree_or_node (tagsistant_querytree_duplicate_ptree_or_node t)
   = tagsistant_querytree_duplicate_ptree_or_node t"
proof -
  have n: "tagsistant_querytree_duplicate_ptree_and_node (tagsistant_querytree_duplicate_ptree_and_node ns)
      = tagsistant_querytree_duplicate_ptree_and_node ns" for ns
    by (induction ns) (simp_all add: duplicate_related_twice split: option.splits)
  show ?thesis by (induction t) (simp_all add: n)
qed

text \<open>The cache of query trees loses the ids of the tags, and the names of triple tags: a
  query that was answered before, and whose object exists, is built from the cache the second time, and
  the check that every handler makes says that the object does not exist.\<close>

theorem cached_query_finds_nothing:
  assumes "row_order env" "no_tag_zero (db w)" "searching q" "q_object_path q = Some p" "p \<noteq> ''''"
    and "c path = Some (tagsistant_querytree_duplicate q)"
    and "q_full_archive_path q \<noteq> None \<Longrightarrow> os_stat (sys env) (q_full_archive_path q) (fs w) = Inr s"
  shows "\<exists>q1 w1 q2. cached_querytree_new env path st pc dr c w = Done ((q1, c), w1) \<and>
    q_inode q1 = q_inode q \<and> q_object_path q1 = Some p \<and>
    tagsistant_querytree_check_tagging_consistency env q1 w1 = Done (False, q2)"
proof -
  let ?q1 = "(tagsistant_querytree_duplicate (tagsistant_querytree_duplicate q))\<lparr>q_dbi := True, q_transaction_started := st\<rparr>"
  let ?w1 = "tagsistant_db_connection st w"
  have nz: "no_tag_zero (db ?w1)" using assms(2) by simp
  have t: "q_tree (tagsistant_querytree_duplicate (tagsistant_querytree_duplicate q)) = tagsistant_querytree_duplicate_ptree_or_node (q_tree q)"
    by (simp add: tagsistant_querytree_duplicate_def duplicate_tree_twice)
  have f: "q_object_path ?q1 = Some p" "q_inode ?q1 = q_inode q" using assms(4) by (simp_all add: tagsistant_querytree_duplicate_def)
  have g: "guess_from_tree env (tagsistant_querytree_duplicate_ptree_or_node (q_tree q)) conn name ?w1 = Done 0" for conn name
    using guess_duplicate_tree[OF assms(1) nz] assms(3) by (simp add: searching_def)
  have "\<exists>q2. tagsistant_querytree_check_tagging_consistency env ?q1 ?w1 = Done (False, q2)"
    using assms(5) unfolding tagsistant_querytree_check_tagging_consistency_def f(1) by (simp add: Let_def t g)
  then show ?thesis using entry_found[of c path q env w s, OF assms(6) assms(7)] f by blast
qed

subsection \<open>Invalidation\<close>

text \<open>A query on triple tags has neither name the invalidation looks for.\<close>

lemma triple_queries_invalidate_nothing:
  assumes "q_first_tag q = None" "q_second_tag q = None" "\<And>p e. c p = Some e \<Longrightarrow> \<not> strstr ''/(null)/'' (q_full_path e)"
  shows "tagsistant_invalidate_querytree_cache q c = c"
  using assms by (auto simp: tagsistant_invalidate_querytree_cache_def tagsistant_invalidate_querytree_entry_def split: option.splits)

lemma invalidated_entries:
  assumes "tagsistant_invalidate_querytree_cache q c p = Some e" "q_first_tag q = Some t"
  shows "c p = Some e \<and> \<not> strstr (''/'' @ t @ ''/'') (q_full_path e)"
  using assms by (auto simp: tagsistant_invalidate_querytree_cache_def tagsistant_invalidate_querytree_entry_def
      split: option.splits if_splits)

lemma invalidated_and_sets:
  assumes "and_set \<in> set (q_tree q)" "q_object_path q = Some p"
  shows "tagsistant_invalidate_and_set_cache_entries q c (tagsistant_compile_and_set (Some p) and_set) = None"
proof -
  have keep: "fold (\<lambda>s m. m(tagsistant_compile_and_set (Some p) s := None)) sets d k = None" if "d k = None" for sets d and k :: string
    using that by (induction sets arbitrary: d) simp_all
  have "s \<in> set sets \<Longrightarrow> fold (\<lambda>s m. m(tagsistant_compile_and_set (Some p) s := None)) sets d (tagsistant_compile_and_set (Some p) s) = None"
    for s sets and d :: and_set_cache
  proof (induction sets arbitrary: d)
    case (Cons x xs)
    show ?case
    proof (cases "s = x")
      case True
      then show ?thesis by (simp add: keep del: fun_upd_apply add: fun_upd_same)
    qed (use Cons in simp)
  qed simp
  from this[OF assms(1)] show ?thesis using assms(2) by (simp add: tagsistant_invalidate_and_set_cache_entries_def)
qed

subsection \<open>Concrete instances\<close>

definition both_tags :: database where
  "both_tags = insert_tagging 2 1 (insert_tagging 1 1 (snd (insert_object ''f''
     (insert_tag ''b'' '''' '''' (insert_tag ''a'' '''' '''' empty_db)))))"

lemma both_tags_simps [simp]:
  "db_ok both_tags" "only_object both_tags ''f'' 1" "tags_of 1 both_tags = {1, 2}" "tagging both_tags = [(1, 1), (1, 2)]"
proof -
  show "db_ok both_tags" by (simp add: both_tags_def db_ok_statements db_ok_empty)
  have t: "tagging both_tags = [(1, 1), (1, 2)]" "objects both_tags = [\<lparr>ob_inode = 1, ob_name = ''f'', ob_checksum = '''', ob_symlink = ''''\<rparr>]"
    by (simp_all add: both_tags_def empty_db_def insert_tag_def insert_object_def insert_tagging_def tag_triple_def)
  show "tagging both_tags = [(1, 1), (1, 2)]" by (rule t)
  show "only_object both_tags ''f'' 1" by (simp add: only_object_def t)
  show "tags_of 1 both_tags = {1, 2}" by (auto simp: tags_of_def t)
qed

definition flat_data :: "string \<Rightarrow> 32 word \<Rightarrow> and_data" where
  "flat_data t i = new_and_data\<lparr>an_tag := Some t, an_tag_id := i\<rparr>"

theorem cache_forgets_exclusions_witness:
  "tagsistant_guess_inode_from_and_set sample_env [And_node (flat_data ''a'' 1) None (Some (And_node (flat_data ''b'' 2) None None))] True ''f''
     (sample_world both_tags []) = Done 0 \<and>
   (\<exists>c. cached_guess sample_env [And_node (flat_data ''a'' 1) None None] True ''f'' (sample_world both_tags []) (\<lambda>_. None) = Done (1, c) \<and>
     cached_guess sample_env [And_node (flat_data ''a'' 1) None (Some (And_node (flat_data ''b'' 2) None None))] True ''f''
       (sample_world both_tags []) c = Done (1, c))"
  using cache_forgets_exclusions[of sample_env "sample_world both_tags []" "''f''" 1 "flat_data ''a'' 1" None "And_node (flat_data ''b'' 2) None None"]
  by (simp add: lookup_set_def exact_def satisfied_def flat_data_def new_and_data_def chain_data_def)

definition found_before :: querytree where
  "found_before = (new_querytree ''/store/a/@/f'')\<lparr>q_type := QTYPE_STORE, q_object_path := Some ''f'', q_inode := 1,
     q_tree := [[And_node (flat_data ''a'' 1) None None]]\<rparr>"

theorem cached_query_finds_nothing_witness:
  "\<exists>q1 w1 q2. cached_querytree_new sample_env ''/store/a/@/f'' False True False
      ((\<lambda>_. None)(''/store/a/@/f'' \<mapsto> tagsistant_querytree_duplicate found_before)) (sample_world both_tags [])
      = Done ((q1, (\<lambda>_. None)(''/store/a/@/f'' \<mapsto> tagsistant_querytree_duplicate found_before)), w1) \<and>
    q_inode q1 = 1 \<and> q_object_path q1 = Some ''f'' \<and>
    tagsistant_querytree_check_tagging_consistency sample_env q1 w1 = Done (False, q2)"
  using cached_query_finds_nothing[of sample_env "sample_world both_tags []" found_before "''f''"
      "(\<lambda>_. None)(''/store/a/@/f'' \<mapsto> tagsistant_querytree_duplicate found_before)" "''/store/a/@/f''" undefined False True False]
  by (simp add: no_tag_zero_def searching_def found_before_def new_querytree_def flat_data_def)

end
