(* ===== verification/Autotagging.thy ===== *)
theory Autotagging
  imports Fuse_Server
begin

section \<open>Plugins and autotagging\<close>

text \<open>
  \<^verbatim>\<open>src/src/plugin.c\<close>, the processors of \<^verbatim>\<open>src/src/plugins\<close> and the consumer of the
  autotagging queue. The keywords of a file come from libextractor: the field \<open>extractor\<close> of the
  environment gives the names of their types with their values, duplicates removed, for the
  interface of libextractor 0.5, where the mime type is the keyword of type
  \<^verbatim>\<open>mimetype\<close>. A compiled pattern is the text it was made from, \<open>None\<close> when there is
  none; \<open>rx_match\<close> applies it with the flags \<^verbatim>\<open>TAGSISTANT_RX_COMPILE_FLAGS\<close> and does not
  match when the text is no pattern. Writing past the end of a buffer is \<open>Segv\<close>.
\<close>

subsection \<open>Keywords\<close>

record tagsistant_keyword =
  kw_keyword :: string
  kw_value :: string

definition TAGSISTANT_MAX_KEYWORDS :: nat where "TAGSISTANT_MAX_KEYWORDS = 1024"
definition TAGSISTANT_MAX_KEYWORD_LENGTH :: nat where "TAGSISTANT_MAX_KEYWORD_LENGTH = 256"

definition blank_keyword :: tagsistant_keyword where
  "blank_keyword = \<lparr>kw_keyword = '''', kw_value = ''''\<rparr>"

text \<open>The two \<^verbatim>\<open>sprintf\<close> of the loop, whose targets have 256 bytes, the terminator included.\<close>

definition fits :: "string \<times> string \<Rightarrow> bool" where
  "fits k \<longleftrightarrow> length (fst k) < TAGSISTANT_MAX_KEYWORD_LENGTH \<and> length (snd k) < TAGSISTANT_MAX_KEYWORD_LENGTH"

definition fill_keywords :: "(string \<times> string) list \<Rightarrow> tagsistant_keyword list run" where
  "fill_keywords extracted =
     (let taken = take TAGSISTANT_MAX_KEYWORDS extracted
      in if list_all fits taken
         then Done (map (\<lambda>k. \<lparr>kw_keyword = fst k, kw_value = snd k\<rparr>) taken
                    @ replicate (TAGSISTANT_MAX_KEYWORDS - length taken) blank_keyword)
         else Segv)"

definition extracted_mime_type :: "(string \<times> string) list \<Rightarrow> gchars" where
  "extracted_mime_type extracted =
     last_row None (map (Some \<circ> snd) (filter (\<lambda>k. fst k = ''mimetype'') (take TAGSISTANT_MAX_KEYWORDS extracted)))"

text \<open>The generic type: an asterisk and the end of the string are written after the slash.\<close>

definition generic_mime_type :: "string \<Rightarrow> string run" where
  "generic_mime_type mime =
     (case dropWhile (\<lambda>c. c \<noteq> CHR ''/'') mime of
        [] \<Rightarrow> Done mime
      | [_] \<Rightarrow> Segv
      | _ \<Rightarrow> Done (takeWhile (\<lambda>c. c \<noteq> CHR ''/'') mime @ ''/*''))"

definition tagsistant_plugin_get_keyword_value :: "string \<Rightarrow> tagsistant_keyword list \<Rightarrow> gchars" where
  "tagsistant_plugin_get_keyword_value keyword keywords =
     map_option kw_value (find (\<lambda>k. kw_keyword k = keyword) keywords)"

subsection \<open>Tagging with keywords\<close>

definition rx_cleaner :: "string \<Rightarrow> string" where
  "rx_cleaner s = map (\<lambda>c. if c = CHR ''/'' \<or> c = CHR '' '' then CHR ''-'' else c) s"

definition rx_matches :: "'fs env \<Rightarrow> gchars \<Rightarrow> string \<Rightarrow> bool" where
  "rx_matches env rx s = (case rx of None \<Rightarrow> False | Some p \<Rightarrow> p = '''' \<or> rx_match env p s)"

definition tagsistant_keyword_matcher ::
    "'fs env \<Rightarrow> gchars \<Rightarrow> string \<Rightarrow> string \<Rightarrow> string \<Rightarrow> querytree \<Rightarrow> 'fs world \<Rightarrow> 'fs world" where
  "tagsistant_keyword_matcher env rx namespace keyword value q w =
     (if rx_matches env rx keyword
      then tagsistant_sql_tag_object env (q_dbi q) (Some namespace) (Some (rx_cleaner keyword)) (Some (rx_cleaner value)) (q_inode q) w
      else w)"

fun tagsistant_plugin_iterator ::
    "'fs env \<Rightarrow> querytree \<Rightarrow> string \<Rightarrow> tagsistant_keyword list \<Rightarrow> gchars \<Rightarrow> 'fs world \<Rightarrow> 'fs world" where
  "tagsistant_plugin_iterator env q namespace [] rx w = w"
| "tagsistant_plugin_iterator env q namespace (k # ks) rx w =
     (if kw_keyword k = '''' then w
      else tagsistant_plugin_iterator env q namespace ks rx
             (tagsistant_keyword_matcher env rx namespace (kw_keyword k) (kw_value k) q w))"

text \<open>
  The pattern of a date is compiled with \<^verbatim>\<open>G_REGEX_EXTENDED\<close>, under which the space
  between the day and the hour stands for nothing. A dollar matches before a final line feed too.
\<close>

definition rx_date :: "string \<Rightarrow> string list option" where
  "rx_date date =
     (let s = (if suffix newline date then butlast date else date)
      in if map (\<lambda>c. if is_digit c then CHR ''0'' else c) s = ''0000:00:0000:00:00''
         then Some [take 4 s, take 2 (drop 5 s), take 2 (drop 8 s), take 2 (drop 10 s), take 2 (drop 13 s), take 2 (drop 16 s)]
         else None)"

definition tagsistant_plugin_tag_by_date :: "'fs env \<Rightarrow> querytree \<Rightarrow> string \<Rightarrow> 'fs world \<Rightarrow> 'fs world" where
  "tagsistant_plugin_tag_by_date env q date w =
     (case rx_date date of None \<Rightarrow> w
      | Some parts \<Rightarrow>
          fold (\<lambda>(k, v). tagsistant_sql_tag_object env (q_dbi q) (Some ''time:'') (Some k) (Some v) (q_inode q))
            (zip [''year'', ''month'', ''day'', ''hour'', ''minute''] parts) w)"

text \<open>
  A pattern applied to the text of a file: \<open>found\<close> holds what its first group matched, one string
  for each match. \<^verbatim>\<open>g_strsplit_set\<close> makes at most 255 tokens, the last with the rest.
\<close>

fun strsplit_set :: "nat \<Rightarrow> string \<Rightarrow> string \<Rightarrow> string list" where
  "strsplit_set 0 d s = [s]"
| "strsplit_set (Suc n) d s =
     (if \<exists>c \<in> set s. c \<in> set d
      then takeWhile (\<lambda>c. c \<notin> set d) s # strsplit_set n d (tl (dropWhile (\<lambda>c. c \<notin> set d) s))
      else [s])"

definition g_strsplit_set :: "string \<Rightarrow> nat \<Rightarrow> string \<Rightarrow> string list" where
  "g_strsplit_set d max_tokens s = (if s = '''' then [] else strsplit_set (max_tokens - 1) d s)"

definition tagsistant_plugin_apply_regex :: "'fs env \<Rightarrow> querytree \<Rightarrow> string list \<Rightarrow> 'fs world \<Rightarrow> 'fs world" where
  "tagsistant_plugin_apply_regex env q found w =
     fold (\<lambda>t w. if 3 \<le> length t then tagsistant_sql_tag_object env (q_dbi q) (Some t) None None (q_inode q) w else w)
       (concat (map (g_strsplit_set ('' ,.!?/'' @ [CHR 0x09]) 255) found)) w"

subsection \<open>The processors\<close>

definition TP_ERROR :: nat where "TP_ERROR = 0"
definition TP_OK :: nat where "TP_OK = 1"
definition TP_STOP :: nat where "TP_STOP = 2"
definition TP_NULL :: nat where "TP_NULL = 3"

type_synonym 'fs processor = "querytree \<Rightarrow> tagsistant_keyword list \<Rightarrow> 'fs world \<Rightarrow> nat \<times> 'fs world"

definition tag_flat :: "'fs env \<Rightarrow> querytree \<Rightarrow> string \<Rightarrow> 'fs world \<Rightarrow> 'fs world" where
  "tag_flat env q tag w = tagsistant_sql_tag_object env (q_dbi q) (Some tag) None None (q_inode q) w"

text \<open>The processors of the plugins in the repository, given the filter their init function compiled.\<close>

definition tp_generic :: "'fs env \<Rightarrow> gchars \<Rightarrow> 'fs processor" where
  "tp_generic env rx q keywords w = (TP_OK, tagsistant_plugin_iterator env q ''autotagging:'' keywords rx w)"

definition tp_gif :: "'fs env \<Rightarrow> gchars \<Rightarrow> 'fs processor" where
  "tp_gif env rx q keywords w = (TP_STOP, tagsistant_plugin_iterator env q ''image:'' keywords rx (tag_flat env q ''image'' w))"

definition tp_png :: "'fs env \<Rightarrow> gchars \<Rightarrow> 'fs processor" where
  "tp_png env rx q keywords w = (TP_STOP, tagsistant_plugin_iterator env q ''image:'' keywords rx (tag_flat env q ''image'' w))"

definition tp_jpeg :: "'fs env \<Rightarrow> gchars \<Rightarrow> 'fs processor" where
  "tp_jpeg env rx q keywords w =
     (TP_OK, tagsistant_plugin_iterator env q ''image:'' keywords rx
        (tagsistant_sql_tag_object env (q_dbi q) (Some ''image:'') (Some ''format'') (Some ''jpeg'') (q_inode q) (tag_flat env q ''image'' w)))"

definition tp_photo :: "'fs env \<Rightarrow> gchars \<Rightarrow> 'fs processor" where
  "tp_photo env rx q keywords w = (TP_OK, tagsistant_plugin_iterator env q ''photo:'' keywords rx w)"

definition tp_mp3 :: "'fs env \<Rightarrow> gchars \<Rightarrow> 'fs processor" where
  "tp_mp3 env rx q keywords w = (TP_STOP, tagsistant_plugin_iterator env q ''audio:'' keywords rx (tag_flat env q ''audio'' w))"

definition tp_ogg :: "'fs env \<Rightarrow> gchars \<Rightarrow> 'fs processor" where
  "tp_ogg env rx q keywords w = (TP_STOP, tagsistant_plugin_iterator env q ''audio:'' keywords rx (tag_flat env q ''audio'' w))"

definition tp_html :: "'fs env \<Rightarrow> gchars \<Rightarrow> 'fs processor" where
  "tp_html env rx q keywords w =
     (TP_STOP, tagsistant_plugin_iterator env q ''document:'' keywords rx
        (tag_flat env q ''html'' (tag_flat env q ''webpage'' (tag_flat env q ''document'' w))))"

definition tp_pdf :: "'fs env \<Rightarrow> gchars \<Rightarrow> 'fs processor" where
  "tp_pdf env rx q keywords w = (TP_STOP, tagsistant_plugin_iterator env q ''PDF:'' keywords rx (tag_flat env q ''document'' w))"

definition tp_xml :: "'fs env \<Rightarrow> gchars \<Rightarrow> 'fs processor" where
  "tp_xml env rx q keywords w = (TP_STOP, tagsistant_plugin_iterator env q ''document:'' keywords rx (tag_flat env q ''document'' w))"

subsection \<open>The chain of plugins\<close>

record 'fs plugin =
  pl_mime_type :: string
  pl_filename :: string
  pl_processor :: "'fs processor"

definition tagsistant_run_processor :: "'fs plugin \<Rightarrow> querytree \<Rightarrow> tagsistant_keyword list \<Rightarrow> 'fs world \<Rightarrow> nat \<times> 'fs world" where
  "tagsistant_run_processor p q keywords w = pl_processor p q keywords w"

text \<open>One pass over the plugins of one type; whether a plugin stopped the chain.\<close>

fun apply_plugins :: "'fs plugin list \<Rightarrow> string \<Rightarrow> querytree \<Rightarrow> tagsistant_keyword list \<Rightarrow> 'fs world \<Rightarrow> bool \<times> 'fs world" where
  "apply_plugins [] mime q keywords w = (False, w)"
| "apply_plugins (p # ps) mime q keywords w =
     (if pl_mime_type p = mime
      then let (r, w1) = tagsistant_run_processor p q keywords w
           in if r = TP_STOP then (True, w1) else apply_plugins ps mime q keywords w1
      else apply_plugins ps mime q keywords w)"

definition plugin_chain :: "'fs plugin list \<Rightarrow> string \<Rightarrow> string \<Rightarrow> querytree \<Rightarrow> tagsistant_keyword list \<Rightarrow> 'fs world \<Rightarrow> 'fs world" where
  "plugin_chain plugins mime generic q keywords w =
     (let (stop1, w1) = apply_plugins plugins mime q keywords w
      in if stop1 then w1
         else let (stop2, w2) = apply_plugins plugins generic q keywords w1
              in if stop2 then w2 else snd (apply_plugins plugins ''*/*'' q keywords w2))"

definition tagsistant_process :: "'fs env \<Rightarrow> 'fs plugin list \<Rightarrow> string \<Rightarrow> string \<Rightarrow> 'fs world \<Rightarrow> (int \<times> 'fs world) run" where
  "tagsistant_process env plugins path full_archive_path w =
     (let extracted = extractor env full_archive_path (fs w)
      in run_bind (fill_keywords extracted)
        (\<lambda>keywords. case extracted_mime_type extracted of None \<Rightarrow> Done (0, w)
         | Some mime \<Rightarrow> run_bind (generic_mime_type mime)
            (\<lambda>generic. run_bind (tagsistant_querytree_new env path True True False w)
               (\<lambda>(q, w1). Done (0, tagsistant_querytree_destroy env q True (plugin_chain plugins mime generic q keywords w1))))))"

text \<open>
  The kernel of the autotagging thread, and one turn of its loop: it takes an element from the
  queue and leaves out the empty one. Every element has the separator: without one, NULL would go
  to libextractor.
\<close>

definition tagsistant_autotagging_kernel :: "'fs env \<Rightarrow> 'fs plugin list \<Rightarrow> string \<Rightarrow> 'fs world \<Rightarrow> 'fs world run" where
  "tagsistant_autotagging_kernel env plugins paths w =
     (case autotagging_paths paths of None \<Rightarrow> Done w
      | Some (path, full) \<Rightarrow>
          (case full of None \<Rightarrow> Segv
           | Some f \<Rightarrow> run_bind (tagsistant_process env plugins path f w) (\<lambda>(_, w1). Done w1)))"

definition tagsistant_autotagging_loop :: "'fs env \<Rightarrow> 'fs plugin list \<Rightarrow> 'fs world \<Rightarrow> 'fs world run" where
  "tagsistant_autotagging_loop env plugins w =
     (case autotag_queue w of [] \<Rightarrow> Done w
      | paths # rest \<Rightarrow>
          let w1 = w\<lparr>autotag_queue := rest\<rparr>
          in if paths \<noteq> '''' then tagsistant_autotagging_kernel env plugins paths w1 else Done w1)"

subsection \<open>What a processor may do\<close>

text \<open>
  The contract of a processor: it works through the SQL layer on the connection it is given, so that
  the query tree, the locks, the transaction and the constraints of the tables are left alone.
\<close>

locale processor_contract =
  fixes processor :: "'fs processor"
  assumes keeps: "body_frame q w q (snd (processor q keywords w))"
begin

lemma run_keeps: "body_frame q w q w1 \<Longrightarrow> body_frame q w q (snd (processor q keywords w1))"
  using keeps body_frame_trans by blast

end

lemma matcher_frame [simp]: "body_frame q w q (tagsistant_keyword_matcher env rx ns k v q w)"
  by (simp add: tagsistant_keyword_matcher_def)

lemma iterator_frame: "body_frame q w0 q w \<Longrightarrow> body_frame q w0 q (tagsistant_plugin_iterator env q ns ks rx w)"
proof (induction ks arbitrary: w)
  case (Cons k ks)
  then show ?case using body_frame_trans[OF Cons.prems matcher_frame] by simp
qed simp

lemma tag_flat_frame: "body_frame q w0 q w \<Longrightarrow> body_frame q w0 q (tag_flat env q tag w)"
  unfolding tag_flat_def by (erule body_frame_trans) (rule sql_frames)

lemma tag_object_frame: "body_frame q w0 q w \<Longrightarrow> body_frame q w0 q (tagsistant_sql_tag_object env c n k v i w)"
  by (erule body_frame_trans) (rule sql_frames)

lemmas processor_frames = iterator_frame tag_flat_frame tag_object_frame body_frame_refl

interpretation generic: processor_contract "tp_generic env rx" for env rx
  by unfold_locales (simp add: tp_generic_def processor_frames)
interpretation gif: processor_contract "tp_gif env rx" for env rx
  by unfold_locales (simp add: tp_gif_def processor_frames)
interpretation png: processor_contract "tp_png env rx" for env rx
  by unfold_locales (simp add: tp_png_def processor_frames)
interpretation jpeg: processor_contract "tp_jpeg env rx" for env rx
  by unfold_locales (simp add: tp_jpeg_def processor_frames)
interpretation photo: processor_contract "tp_photo env rx" for env rx
  by unfold_locales (simp add: tp_photo_def processor_frames)
interpretation mp3: processor_contract "tp_mp3 env rx" for env rx
  by unfold_locales (simp add: tp_mp3_def processor_frames)
interpretation ogg: processor_contract "tp_ogg env rx" for env rx
  by unfold_locales (simp add: tp_ogg_def processor_frames)
interpretation html: processor_contract "tp_html env rx" for env rx
  by unfold_locales (simp add: tp_html_def processor_frames)
interpretation pdf: processor_contract "tp_pdf env rx" for env rx
  by unfold_locales (simp add: tp_pdf_def processor_frames)
interpretation xml: processor_contract "tp_xml env rx" for env rx
  by unfold_locales (simp add: tp_xml_def processor_frames)

lemma apply_plugins_frame:
  assumes "\<forall>p \<in> set plugins. processor_contract (pl_processor p)" "body_frame q w0 q w"
  shows "body_frame q w0 q (snd (apply_plugins plugins mime q ks w))"
  using assms
proof (induction plugins arbitrary: w)
  case (Cons p ps)
  have "body_frame q w0 q (snd (pl_processor p q ks w))"
    using processor_contract.run_keeps[of "pl_processor p" q w0 w ks] Cons.prems by simp
  then show ?case using Cons by (simp add: tagsistant_run_processor_def Let_def split_beta)
qed simp

lemma chain_frame:
  assumes "\<forall>p \<in> set plugins. processor_contract (pl_processor p)"
  shows "body_frame q w q (plugin_chain plugins mime generic q ks w)"
  unfolding plugin_chain_def Let_def split_beta
  by (auto intro!: apply_plugins_frame[OF assms] split: if_splits)

text \<open>The processing of a file is an operation in a transaction, whose body never fails.\<close>

definition autotag_body :: "'fs plugin list \<Rightarrow> string \<Rightarrow> string \<Rightarrow> tagsistant_keyword list \<Rightarrow> 'fs body" where
  "autotag_body plugins mime generic ks env q w = Done (Exit_ok, q, plugin_chain plugins mime generic q ks w)"

lemma autotag_operation:
  "\<forall>p \<in> set plugins. processor_contract (pl_processor p) \<Longrightarrow> operation (autotag_body plugins mime generic ks)"
  by unfold_locales (auto simp: autotag_body_def chain_frame)

lemma process_run:
  assumes "tagsistant_process env plugins path full w = Done (r, w')"
  shows "r = 0 \<and> (w' = w \<or> (\<exists>mime generic ks. run_operation env True False (autotag_body plugins mime generic ks) path w = Done (None, w')))"
proof -
  let ?e = "extractor env full (fs w)"
  obtain ks where k: "fill_keywords ?e = Done ks"
      "(case extracted_mime_type ?e of None \<Rightarrow> Done (0, w)
         | Some mime \<Rightarrow> run_bind (generic_mime_type mime)
            (\<lambda>generic. run_bind (tagsistant_querytree_new env path True True False w)
               (\<lambda>(q, w1). Done (0, tagsistant_querytree_destroy env q True (plugin_chain plugins mime generic q ks w1))))) = Done (r, w')"
    using assms by (auto simp: tagsistant_process_def Let_def run_bind_Done_iff)
  show ?thesis
  proof (cases "extracted_mime_type ?e")
    case (Some mime)
    then obtain generic q w1 where g: "tagsistant_querytree_new env path True True False w = Done (q, w1)"
        "r = 0" "w' = tagsistant_querytree_destroy env q True (plugin_chain plugins mime generic q ks w1)"
      using k(2) by (auto simp: run_bind_Done_iff)
    then have "run_operation env True False (autotag_body plugins mime generic ks) path w = Done (None, w')"
      by (simp add: run_operation_def autotag_body_def exit_operation_def)
    then show ?thesis using g(2) by blast
  qed (use k in simp)
qed

lemma autotag_tidy:
  assumes "\<forall>p \<in> set plugins. processor_contract (pl_processor p)" "tagsistant_autotagging_loop env plugins w = Done w'"
  shows "tidy 0 w w'"
proof -
  have P: "tidy 0 u u'" if "tagsistant_process env plugins path full u = Done (r, u')" for path full u u' r
    using process_run[OF that] operation.run_tidy[OF autotag_operation[OF assms(1)]] by fastforce
  have K: "tidy 0 u u'" if "tagsistant_autotagging_kernel env plugins paths u = Done u'" for paths u u'
    using that P by (auto simp: tagsistant_autotagging_kernel_def run_bind_Done_iff split: option.splits)
  show ?thesis
  proof (cases "autotag_queue w")
    case (Cons paths rest)
    have "tidy 0 (w\<lparr>autotag_queue := rest\<rparr>) u \<Longrightarrow> tidy 0 w u" for u by (simp add: tidy_def readers_def writers_def)
    then show ?thesis using assms(2) Cons K by (fastforce simp: tagsistant_autotagging_loop_def Let_def split: if_splits)
  qed (use assms(2) in \<open>simp add: tagsistant_autotagging_loop_def\<close>)
qed

subsection \<open>The daemon: requests and autotagging\<close>

text \<open>
  The autotagging thread takes turns with the requests: its writes happen inside of one transaction
  under the writer lock, so that every interleaving of the two is a sequence of whole events.
\<close>

datatype event = Request request | Autotag

inductive daemon :: "'fs env \<Rightarrow> configuration \<Rightarrow> 'fs plugin list \<Rightarrow> 'fs world \<Rightarrow> event list \<Rightarrow> 'fs world \<Rightarrow> bool" for env c plugins where
  daemon_start: "daemon env c plugins w [] w"
| daemon_request: "daemon env c plugins w es w1 \<Longrightarrow> tagsistant_oper env c r w1 = Done (a, w2) \<Longrightarrow> daemon env c plugins w (es @ [Request r]) w2"
| daemon_autotag: "daemon env c plugins w es w1 \<Longrightarrow> tagsistant_autotagging_loop env plugins w1 = Done w2 \<Longrightarrow> daemon env c plugins w (es @ [Autotag]) w2"

inductive_cases daemon_snocE: "daemon env c plugins w (es @ [e]) w2"

fun is_flush_event :: "event \<Rightarrow> bool" where
  "is_flush_event (Request r) = is_flush r" | "is_flush_event Autotag = False"

text \<open>C19: The invariant of the daemon with its autotagging thread: whatever plugins are loaded, as long as
  they go through the SQL layer, every interleaving of requests and of files that are autotagged leads from a
  steady state to a steady state: the tables satisfy their constraints, no transaction is left open, the
  writer lock is free, and only flush loses reader locks, one each at most.\<close>

theorem daemon_invariant:
  assumes "daemon env c plugins w es w'" "steady w" "\<forall>p \<in> set plugins. processor_contract (pl_processor p)"
  shows "steady w' \<and> readers w \<le> readers w' \<and> readers w' \<le> readers w + int (length (filter is_flush_event es))"
  using assms
proof (induction rule: daemon.induct)
  case (daemon_request w es w1 r a w2)
  obtain k where k: "tidy k w1 w2" "k = 0 \<or> k = 1 \<and> is_flush r"
    using daemon_request.hyps(2) oper_tidy_leak[of env c r w1 "fst a" "snd a" w2] by auto
  then have "readers w2 = readers w1 + k" by (simp add: tidy_def)
  then show ?case using daemon_request steady_tidy(1)[OF _ k(1)] k(2) by auto
next
  case (daemon_autotag w es w1 w2)
  have t: "tidy 0 w1 w2" by (rule autotag_tidy[OF daemon_autotag.prems(2) daemon_autotag.hyps(2)])
  then have "readers w2 = readers w1" by (simp add: tidy_def)
  then show ?case using daemon_autotag steady_tidy(1)[OF _ t] by auto
qed simp

subsection \<open>The tags made of keywords\<close>

text \<open>The keywords the iterator uses, and the tag each becomes.\<close>

definition accepted :: "'fs env \<Rightarrow> gchars \<Rightarrow> tagsistant_keyword list \<Rightarrow> tagsistant_keyword list" where
  "accepted env rx ks = filter (\<lambda>k. rx_matches env rx (kw_keyword k)) (takeWhile (\<lambda>k. kw_keyword k \<noteq> '''') ks)"

definition keyword_tag :: "string \<Rightarrow> tagsistant_keyword \<Rightarrow> string \<times> string \<times> string" where
  "keyword_tag ns k = (ns, rx_cleaner (kw_keyword k), rx_cleaner (kw_value k))"

definition keyword_node :: "string \<Rightarrow> tagsistant_keyword \<Rightarrow> and_data" where
  "keyword_node ns k = new_and_data\<lparr>an_namespace := Some ns, an_key := Some (rx_cleaner (kw_keyword k)), an_value := Some (rx_cleaner (kw_value k))\<rparr>"

lemma keyword_node_key [simp]: "node_key (keyword_node ns k) = keyword_tag ns k"
  by (simp add: node_key_def keyword_node_def keyword_tag_def new_and_data_def)

lemma iterator_fold:
  assumes "q_dbi q"
  shows "tagsistant_plugin_iterator env q ns ks rx w =
    fold (traverse_node (\<lambda>n k v. tagsistant_sql_tag_object env True n k v (q_inode q))) (map (keyword_node ns) (accepted env rx ks)) w"
proof (induction ks arbitrary: w)
  case (Cons k ks)
  have "traverse_node (\<lambda>n k v. tagsistant_sql_tag_object env True n k v (q_inode q)) (keyword_node ns k) w
      = tagsistant_sql_tag_object env True (Some ns) (Some (rx_cleaner (kw_keyword k))) (Some (rx_cleaner (kw_value k))) (q_inode q) w"
    by (simp add: traverse_node_def keyword_node_def new_and_data_def)
  then show ?case using assms by (simp add: Cons accepted_def tagsistant_keyword_matcher_def)
qed (simp add: accepted_def)

lemma rx_cleaner_clean: "CHR ''/'' \<notin> set (rx_cleaner s)" "CHR '' '' \<notin> set (rx_cleaner s)"
  by (auto simp: rx_cleaner_def split: if_splits)

lemma rx_cleaner_plain: "plain s \<Longrightarrow> plain (rx_cleaner s)"
  by (auto simp: rx_cleaner_def plain_def split: if_splits)

text \<open>C20: The keywords of a file become its tags: the iterator tags the object with one triple tag for each
  keyword before the first empty one whose name the filter matches, its name as the key and its
  value as the value, their slashes and spaces turned into dashes, so that both fit a path; the
  other objects and the ids of the existing tags are unchanged.\<close>

theorem keywords_become_tags:
  assumes "store_inv env w" "q_dbi q" "plain ns" "\<forall>k \<in> set (accepted env rx ks). plain (kw_keyword k)"
    and "tags_seq (db w) + int (length (accepted env rx ks)) < 2 ^ 31 - 1"
    and w': "w' = tagsistant_plugin_iterator env q ns ks rx w"
  shows "tags_of (sint (q_inode q)) (db w') = tags_of (sint (q_inode q)) (db w)
        \<union> (\<lambda>k. sint (tag_id_of (db w') (keyword_tag ns k))) ` set (accepted env rx ks)
    \<and> (\<forall>k \<in> set (accepted env rx ks). tag_id_of (db w') (keyword_tag ns k) \<noteq> 0
         \<and> (case keyword_tag ns k of (_, key, value) \<Rightarrow> {CHR ''/'', CHR '' ''} \<inter> (set key \<union> set value) = {}))
    \<and> (\<forall>j. j \<noteq> sint (q_inode q) \<longrightarrow> tags_of j (db w') = tags_of j (db w))
    \<and> (\<forall>t. tag_id_of (db w) t \<noteq> 0 \<longrightarrow> tag_id_of (db w') t = tag_id_of (db w) t)"
proof -
  let ?as = "map (keyword_node ns) (accepted env rx ks)"
  have "plain_key (keyword_tag ns k)" if "k \<in> set (accepted env rx ks)" for k
    using that assms(3,4) rx_cleaner_plain by (simp add: plain_key_def keyword_tag_def)
  then have n: "\<forall>a \<in> set ?as. named a" by (simp add: named_def) (simp add: keyword_node_def)
  have "tags_seq (db w) + int (length ?as) < 2 ^ 31 - 1" using assms(5) by simp
  from tag_all[OF assms(1) n this w'[unfolded iterator_fold[OF assms(2)]]] show ?thesis
    by (simp add: image_image) (simp add: keyword_tag_def rx_cleaner_clean)
qed

subsection \<open>The order of the plugins\<close>

text \<open>The plugins that apply to a type, the most specific ones first, and a run that a plugin can stop.\<close>

definition applicable :: "'fs plugin list \<Rightarrow> string \<Rightarrow> string \<Rightarrow> 'fs plugin list" where
  "applicable plugins mime generic =
     concat (map (\<lambda>m. filter (\<lambda>p. pl_mime_type p = m) plugins) [mime, generic, ''*/*''])"

fun run_until_stop :: "'fs plugin list \<Rightarrow> querytree \<Rightarrow> tagsistant_keyword list \<Rightarrow> 'fs world \<Rightarrow> bool \<times> 'fs world" where
  "run_until_stop [] q ks w = (False, w)"
| "run_until_stop (p # ps) q ks w =
     (case pl_processor p q ks w of (r, w1) \<Rightarrow> if r = TP_STOP then (True, w1) else run_until_stop ps q ks w1)"

lemma apply_plugins_run: "apply_plugins ps mime q ks w = run_until_stop (filter (\<lambda>p. pl_mime_type p = mime) ps) q ks w"
  by (induction ps arbitrary: w) (auto simp: tagsistant_run_processor_def Let_def split: prod.splits)

lemma run_until_stop_append:
  "run_until_stop (ps @ qs) q ks w = (case run_until_stop ps q ks w of (True, w1) \<Rightarrow> (True, w1) | (False, w1) \<Rightarrow> run_until_stop qs q ks w1)"
  by (induction ps arbitrary: w) (auto split: prod.splits bool.splits)

lemma chain_run: "plugin_chain plugins mime generic q ks w = snd (run_until_stop (applicable plugins mime generic) q ks w)"
  by (auto simp: plugin_chain_def applicable_def apply_plugins_run run_until_stop_append Let_def split: prod.splits bool.splits)

text \<open>C35: A file whose mime type is \<^verbatim>\<open>a/b\<close> is given to the plugins for \<^verbatim>\<open>a/b\<close>, then to those for
  \<^verbatim>\<open>a/*\<close>, then to those for any type, each group in the order of the list, up to the first one that
  stops the chain, all of them inside of one transaction that is committed; one plugin that stops the
  chain for its exact type is the only one that sees the file.\<close>

theorem plugins_in_order:
  assumes "extracted_mime_type (extractor env full (fs w)) = Some (a @ ''/'' @ b)" "CHR ''/'' \<notin> set a" "b \<noteq> ''''"
    and "fill_keywords (extractor env full (fs w)) = Done ks"
    and new: "tagsistant_querytree_new env path True True False w = Done (q, w1)"
  shows "tagsistant_process env plugins path full w
      = Done (0, tagsistant_querytree_destroy env q True (snd (run_until_stop (applicable plugins (a @ ''/'' @ b) (a @ ''/*'')) q ks w1)))
    \<and> (\<forall>p ps w2. filter (\<lambda>p. pl_mime_type p = a @ ''/'' @ b) plugins = p # ps \<and> pl_processor p q ks w1 = (TP_STOP, w2) \<longrightarrow>
         tagsistant_process env plugins path full w = Done (0, tagsistant_querytree_destroy env q True w2))"
proof -
  have t: "takeWhile (\<lambda>c. c \<noteq> CHR ''/'') (a @ CHR ''/'' # b) = a" "dropWhile (\<lambda>c. c \<noteq> CHR ''/'') (a @ CHR ''/'' # b) = CHR ''/'' # b"
    using assms(2) by (auto intro: takeWhile_append_stop dropWhile_append_stop)
  have g: "generic_mime_type (a @ ''/'' @ b) = Done (a @ ''/*'')"
    using t assms(3) by (auto simp: generic_mime_type_def neq_Nil_conv)
  have r: "tagsistant_process env plugins path full w
      = Done (0, tagsistant_querytree_destroy env q True (snd (run_until_stop (applicable plugins (a @ ''/'' @ b) (a @ ''/*'')) q ks w1)))"
    unfolding tagsistant_process_def Let_def using assms(1,4) new g by (simp add: chain_run)
  show ?thesis unfolding r by (auto simp: applicable_def)
qed

subsection \<open>Bounds that are not checked, and a pattern that does not match\<close>

lemma fill_keywords_cases:
  "\<exists>k \<in> set (take 1024 xs). 256 \<le> length (fst k) \<or> 256 \<le> length (snd k) \<Longrightarrow> fill_keywords xs = Segv"
  "\<forall>k \<in> set (take 1024 xs). length (fst k) < 256 \<and> length (snd k) < 256 \<Longrightarrow> fill_keywords xs =
     Done (map (\<lambda>k. \<lparr>kw_keyword = fst k, kw_value = snd k\<rparr>) (take 1024 xs) @ replicate (1024 - length (take 1024 xs)) blank_keyword)"
proof -
  have f: "list_all fits t \<longleftrightarrow> (\<forall>k \<in> set t. length (fst k) < 256 \<and> length (snd k) < 256)" for t
    by (simp add: list_all_iff fits_def TAGSISTANT_MAX_KEYWORD_LENGTH_def)
  note d = fill_keywords_def Let_def TAGSISTANT_MAX_KEYWORDS_def f
  show "\<exists>k \<in> set (take 1024 xs). 256 \<le> length (fst k) \<or> 256 \<le> length (snd k) \<Longrightarrow> fill_keywords xs = Segv"
    unfolding d by (metis leD)
  show "\<forall>k \<in> set (take 1024 xs). length (fst k) < 256 \<and> length (snd k) < 256 \<Longrightarrow> fill_keywords xs =
     Done (map (\<lambda>k. \<lparr>kw_keyword = fst k, kw_value = snd k\<rparr>) (take 1024 xs) @ replicate (1024 - length (take 1024 xs)) blank_keyword)"
    unfolding d by (rule if_P)
qed

text \<open>A long keyword overruns the buffer: a file with a keyword, among the first 1024, whose type or
  value has 256 bytes or more is never tagged, whatever its mime type and the plugins; a mime type that
  ends with its slash overruns the copy it is cut in; and when no keyword is that long the
  first 1024 all reach the plugins.\<close>

theorem long_keywords_overrun:
  defines "taken \<equiv> \<lambda>env full w. take 1024 (extractor env full (fs w))"
  shows "((\<exists>k \<in> set (taken env full w). 256 \<le> length (fst k) \<or> 256 \<le> length (snd k)) \<longrightarrow>
      tagsistant_process env plugins path full w = Segv)
    \<and> (CHR ''/'' \<notin> set a \<longrightarrow> generic_mime_type (a @ ''/'') = Segv)
    \<and> ((\<forall>k \<in> set (taken env full w). length (fst k) < 256 \<and> length (snd k) < 256) \<longrightarrow>
      (\<exists>ks. fill_keywords (extractor env full (fs w)) = Done ks \<and> length ks = 1024 \<and>
         map (\<lambda>k. (kw_keyword k, kw_value k)) (take (length (taken env full w)) ks) = taken env full w))"
proof (intro conjI impI)
  assume "\<exists>k \<in> set (taken env full w). 256 \<le> length (fst k) \<or> 256 \<le> length (snd k)"
  then show "tagsistant_process env plugins path full w = Segv"
    unfolding taken_def by (simp add: tagsistant_process_def fill_keywords_cases(1))
next
  assume "CHR ''/'' \<notin> set a"
  then have "dropWhile (\<lambda>c. c \<noteq> CHR ''/'') (a @ [CHR ''/'']) = [CHR ''/'']" by (auto intro: dropWhile_append_stop)
  then show "generic_mime_type (a @ ''/'') = Segv" by (simp add: generic_mime_type_def)
next
  assume a: "\<forall>k \<in> set (taken env full w). length (fst k) < 256 \<and> length (snd k) < 256"
  show "\<exists>ks. fill_keywords (extractor env full (fs w)) = Done ks \<and> length ks = 1024 \<and>
         map (\<lambda>k. (kw_keyword k, kw_value k)) (take (length (taken env full w)) ks) = taken env full w"
    unfolding fill_keywords_cases(2)[OF a[unfolded taken_def]] by (simp add: taken_def comp_def)
qed

lemma rx_date_space:
  assumes "CHR '' '' \<in> set s"
  shows "rx_date s = None"
proof -
  let ?z = "\<lambda>c. if is_digit c then CHR ''0'' else c"
  let ?s = "if suffix newline s then butlast s else s"
  have "CHR '' '' \<in> set ?s" using assms by (auto simp: newline_def suffix_def)
  then have "?z (CHR '' '') \<in> set (map ?z ?s)" unfolding set_map by (rule imageI)
  then have 1: "CHR '' '' \<in> set (map ?z ?s)" by (simp only: not_digit_simps is_digit_def) simp
  have "map ?z ?s \<noteq> ''0000:00:0000:00:00''"
  proof
    assume e: "map ?z ?s = ''0000:00:0000:00:00''"
    show False using 1 unfolding e by simp
  qed
  then show ?thesis by (simp only: rx_date_def Let_def if_False)
qed

text \<open>No date is ever tagged: the documented format of a date has a space between the day and the
  hour, which the extended syntax the pattern is compiled with leaves out of the pattern; a date
  without that space is tagged with its year, month, day, hour and minute.\<close>

theorem dates_not_tagged:
  fixes y m d h mi sec :: string
  shows "tagsistant_plugin_tag_by_date env q (y @ '':'' @ m @ '':'' @ d @ '' '' @ h @ '':'' @ mi @ '':'' @ sec) w = w
    \<and> (length y = 4 \<and> length m = 2 \<and> length d = 2 \<and> length h = 2 \<and> length mi = 2 \<and> length sec = 2
         \<and> list_all is_digit (y @ m @ d @ h @ mi @ sec) \<longrightarrow>
       rx_date (y @ '':'' @ m @ '':'' @ d @ h @ '':'' @ mi @ '':'' @ sec) = Some [y, m, d, h, mi, sec])"
proof (intro conjI impI)
  show "tagsistant_plugin_tag_by_date env q (y @ '':'' @ m @ '':'' @ d @ '' '' @ h @ '':'' @ mi @ '':'' @ sec) w = w"
    unfolding tagsistant_plugin_tag_by_date_def by (subst rx_date_space) simp_all
next
  assume a: "length y = 4 \<and> length m = 2 \<and> length d = 2 \<and> length h = 2 \<and> length mi = 2 \<and> length sec = 2
         \<and> list_all is_digit (y @ m @ d @ h @ mi @ sec)"
  let ?z = "\<lambda>c. if is_digit c then CHR ''0'' else c"
  have z: "map ?z t = replicate (length t) CHR ''0''" if "list_all is_digit t" for t
    using that by (induction t) simp_all
  have nl: "\<not> suffix newline (y @ '':'' @ m @ '':'' @ d @ h @ '':'' @ mi @ '':'' @ sec)"
    using a by (cases sec rule: rev_cases) (auto simp: newline_def suffix_def, simp add: is_digit_def)
  show "rx_date (y @ '':'' @ m @ '':'' @ d @ h @ '':'' @ mi @ '':'' @ sec) = Some [y, m, d, h, mi, sec]"
    using a nl by (simp add: rx_date_def z numeral_eq_Suc, simp add: is_digit_def)
qed

subsection \<open>Concrete instances\<close>

text \<open>Two plugins, and an environment whose libextractor finds a JPEG picture.\<close>

definition picture_env :: "string list env" where
  "picture_env = sample_env\<lparr>extractor := (\<lambda>p f. [(''mimetype'', ''image/jpeg''), (''size'', ''10x10'')]), rx_match := (\<lambda>p s. s = p)\<rparr>"

definition picture_plugins :: "string list plugin list" where
  "picture_plugins = [\<lparr>pl_mime_type = ''*/*'', pl_filename = ''libtagsistant_generic.so'', pl_processor = tp_generic picture_env (Some '''')\<rparr>,
     \<lparr>pl_mime_type = ''image/jpeg'', pl_filename = ''libtagsistant_png.so'', pl_processor = tp_png picture_env (Some ''size'')\<rparr>]"

definition picture_world :: "string list world" where
  "picture_world = (sample_world tagged_file [])\<lparr>autotag_queue := [''/store/a/@/f<><><>/r/archive/1/f'']\<rparr>"

definition picture_query :: querytree where
  "picture_query = (new_querytree ''/store/a/@/f'')\<lparr>q_dbi := True, q_inode := 1\<rparr>"

theorem keywords_become_tags_witness:
  "let ks = [\<lparr>kw_keyword = ''size'', kw_value = ''10 x 10''\<rparr>, \<lparr>kw_keyword = ''author'', kw_value = ''x''\<rparr>];
       w' = tagsistant_plugin_iterator picture_env picture_query ''image:'' ks (Some ''size'') (sample_world tagged_file [])
   in tags_of 1 (db w') = {1, 3, sint (tag_id_of (db w') (''image:'', ''size'', ''10-x-10''))}
      \<and> tag_id_of (db w') (''image:'', ''size'', ''10-x-10'') \<noteq> 0"
proof -
  let ?ks = "[\<lparr>kw_keyword = ''size'', kw_value = ''10 x 10''\<rparr>, \<lparr>kw_keyword = ''author'', kw_value = ''x''\<rparr>]"
  have a: "accepted picture_env (Some ''size'') ?ks = [\<lparr>kw_keyword = ''size'', kw_value = ''10 x 10''\<rparr>]"
    by (simp add: accepted_def rx_matches_def picture_env_def)
  have k: "keyword_tag ''image:'' \<lparr>kw_keyword = ''size'', kw_value = ''10 x 10''\<rparr> = (''image:'', ''size'', ''10-x-10'')"
    by (simp add: keyword_tag_def rx_cleaner_def)
  have s: "store_inv picture_env (sample_world tagged_file [])" "tags_seq tagged_file = 3"
    by (simp_all add: store_inv_def cache_coherent_def row_order_def picture_env_def sample_env_def)
      (simp_all add: tagged_file_def empty_db_def insert_tag_def insert_object_def insert_tagging_def tag_triple_def)
  have q: "q_dbi picture_query" "q_inode picture_query = 1" by (simp_all add: picture_query_def)
  show ?thesis
    using keywords_become_tags[OF s(1) q(1) _ _ _ refl, of "''image:''" "Some ''size''" ?ks]
    by (simp add: a k q s(2) plain_def Let_def) auto
qed

theorem daemon_invariant_witness:
  "\<exists>w'. daemon picture_env sample_conf picture_plugins picture_world [Autotag, Request (Readdir ''/tags'')] w' \<and> steady w' \<and> readers w' = 0
     \<and> map tr_name (tags (db w')) = [''a'', ''b'', ''c'', ''image'', ''image:'']"
proof -
  have "outcome (tagsistant_autotagging_loop picture_env picture_plugins picture_world)
      (\<lambda>w1. outcome (tagsistant_oper picture_env sample_conf (Readdir ''/tags'') w1)
         (\<lambda>(a, w2). map tr_name (tags (db w2)) = [''a'', ''b'', ''c'', ''image'', ''image:'']))" by code_simp
  then obtain w1 a w2 where w: "tagsistant_autotagging_loop picture_env picture_plugins picture_world = Done w1"
      "tagsistant_oper picture_env sample_conf (Readdir ''/tags'') w1 = Done (a, w2)"
      "map tr_name (tags (db w2)) = [''a'', ''b'', ''c'', ''image'', ''image:'']" by (auto elim!: outcomeE)
  have d: "daemon picture_env sample_conf picture_plugins picture_world [Autotag, Request (Readdir ''/tags'')] w2"
    using daemon_request[OF daemon_autotag[OF daemon_start w(1)] w(2)] by simp
  have p: "\<forall>p \<in> set picture_plugins. processor_contract (pl_processor p)"
    by (simp add: picture_plugins_def generic.processor_contract_axioms png.processor_contract_axioms)
  have s: "steady picture_world" "readers picture_world = 0"
    by (simp_all add: picture_world_def steady_def readers_def writers_def)
  show ?thesis using daemon_invariant[OF d s(1) p] d w(3) s(2) by auto
qed

theorem plugins_in_order_witness:
  "\<exists>w'. tagsistant_process picture_env picture_plugins ''/store/a/@/f'' ''/r/archive/1/f'' (sample_world tagged_file []) = Done (0, w')
     \<and> map tag_triple (tags (db w')) = [(''a'', '''', ''''), (''b'', '''', ''''), (''c'', '''', ''''), (''image'', '''', ''''), (''image:'', ''size'', ''10x10'')]"
proof -
  have x: "extracted_mime_type (extractor picture_env ''/r/archive/1/f'' (fs (sample_world tagged_file []))) = Some (''image'' @ ''/'' @ ''jpeg'')"
    by (simp add: picture_env_def extracted_mime_type_def TAGSISTANT_MAX_KEYWORDS_def last_row_def)
  have "outcome (fill_keywords (extractor picture_env ''/r/archive/1/f'' (fs (sample_world tagged_file []))))
      (\<lambda>ks. outcome (tagsistant_querytree_new picture_env ''/store/a/@/f'' True True False (sample_world tagged_file []))
        (\<lambda>(q, w1). map tag_triple (tags (db (tagsistant_querytree_destroy picture_env q True
           (snd (run_until_stop (applicable picture_plugins (''image'' @ ''/'' @ ''jpeg'') (''image'' @ ''/*'')) q ks w1)))))
         = [(''a'', '''', ''''), (''b'', '''', ''''), (''c'', '''', ''''), (''image'', '''', ''''), (''image:'', ''size'', ''10x10'')]))"
    by code_simp
  then obtain ks q w1 where r: "fill_keywords (extractor picture_env ''/r/archive/1/f'' (fs (sample_world tagged_file []))) = Done ks"
      "tagsistant_querytree_new picture_env ''/store/a/@/f'' True True False (sample_world tagged_file []) = Done (q, w1)"
      "map tag_triple (tags (db (tagsistant_querytree_destroy picture_env q True
           (snd (run_until_stop (applicable picture_plugins (''image'' @ ''/'' @ ''jpeg'') (''image'' @ ''/*'')) q ks w1)))))
         = [(''a'', '''', ''''), (''b'', '''', ''''), (''c'', '''', ''''), (''image'', '''', ''''), (''image:'', ''size'', ''10x10'')]"
    by (auto elim!: outcomeE)
  show ?thesis using plugins_in_order[OF x _ _ r(1,2)] r(3) by simp
qed

theorem long_keywords_overrun_witness:
  "tagsistant_process (sample_env\<lparr>extractor := (\<lambda>p f. [(''comment'', replicate 256 (CHR ''x''))])\<rparr>) [] ''/store/a/@/f'' ''/r/archive/1/f'' (sample_world tagged_file []) = Segv
     \<and> generic_mime_type ''image/'' = Segv"
  using long_keywords_overrun[of "sample_env\<lparr>extractor := (\<lambda>p f. [(''comment'', replicate 256 (CHR ''x''))])\<rparr>" "''/r/archive/1/f''"
      "sample_world tagged_file []" "[]" "''/store/a/@/f''" "''image''"] by simp

theorem dates_not_tagged_witness:
  "tagsistant_plugin_tag_by_date sample_env picture_query ''2011:10:05 12:34:56'' (sample_world tagged_file []) = sample_world tagged_file []
     \<and> rx_date ''2011:10:0512:34:56'' = Some [''2011'', ''10'', ''05'', ''12'', ''34'', ''56'']"
  using dates_not_tagged[of sample_env picture_query "''2011''" "''10''" "''05''" "''12''" "''34''" "''56''" "sample_world tagged_file []"]
  by (simp add: is_digit_def)

end
