(* ===== verification/Startup.thy ===== *)
theory Startup
  imports Autotagging
begin

section \<open>Starting the daemon\<close>

text \<open>
  \<^verbatim>\<open>main()\<close> of \<^verbatim>\<open>src/src/tagsistant.c\<close> after the options were parsed (by
  GOptionContext), the file \<^verbatim>\<open>repository.ini\<close> of \<^verbatim>\<open>src/src/utils.c\<close>, the database
  options of \<^verbatim>\<open>src/src/sql.c\<close>, and the loading of the plugins with the init functions of
  \<^verbatim>\<open>src/src/plugins\<close>. What is printed is left out. A key file is a map from a section and a
  key to a value; reading and writing it, \<^verbatim>\<open>dlopen()\<close>, and the environment variables of
  the process are fields of \<open>process\<close>.
\<close>

type_synonym ini = "string \<times> string \<Rightarrow> string option"

definition tagsistant_get_ini_entry :: "ini option \<Rightarrow> string \<Rightarrow> string \<Rightarrow> gchars" where
  "tagsistant_get_ini_entry tagsistant_ini sect key =
     (case tagsistant_ini of None \<Rightarrow> None | Some m \<Rightarrow> m (sect, key))"

subsection \<open>Plugins as libraries\<close>

text \<open>
  A library: its init function, which gets the key file the program holds and gives its result and
  the pattern it compiles; its mime type; its processor. Each may lack.
\<close>

record 'fs plugin_library =
  lib_init :: "(ini option \<Rightarrow> int \<times> gchars) option"
  lib_mime_type :: gchars
  lib_processor :: "(gchars \<Rightarrow> 'fs processor) option"

definition plugin_filter :: "string \<Rightarrow> string \<Rightarrow> ini option \<Rightarrow> int \<times> gchars" where
  "plugin_filter sect standard tagsistant_ini =
     (1, Some (case tagsistant_get_ini_entry tagsistant_ini sect ''filter'' of None \<Rightarrow> standard | Some p \<Rightarrow> p))"

definition generic_library :: "'fs env \<Rightarrow> 'fs plugin_library" where
  "generic_library env = \<lparr>lib_init = Some (\<lambda>_. (1, Some '''')), lib_mime_type = Some ''*/*'', lib_processor = Some (tp_generic env)\<rparr>"

definition gif_library :: "'fs env \<Rightarrow> 'fs plugin_library" where
  "gif_library env = \<lparr>lib_init = Some (plugin_filter ''mime:image/gif'' ''^(size|orientation)$''),
     lib_mime_type = Some ''image/gif'', lib_processor = Some (tp_gif env)\<rparr>"

definition png_library :: "'fs env \<Rightarrow> 'fs plugin_library" where
  "png_library env = \<lparr>lib_init = Some (plugin_filter ''mime:image/png'' ''^(size|orientation)$''),
     lib_mime_type = Some ''image/png'', lib_processor = Some (tp_png env)\<rparr>"

definition jpeg_library :: "'fs env \<Rightarrow> 'fs plugin_library" where
  "jpeg_library env = \<lparr>lib_init = Some (plugin_filter ''mime:image/jpeg'' ''^(size|orientation)$''),
     lib_mime_type = Some ''image/jpeg'', lib_processor = Some (tp_jpeg env)\<rparr>"

definition photo_library :: "'fs env \<Rightarrow> 'fs plugin_library" where
  "photo_library env = \<lparr>lib_init = Some (plugin_filter ''mime:image/*''
       (''^(white balance|image quality|metering mode|'' @ ''exposure mode|iso speed|focal length (35mm equivalent)|focal length|''
        @ ''flash|exposure bias|aperture|exposure|date|orientation|camera model|'' @ ''camera make|creation date|software|source|size)$'')),
     lib_mime_type = Some ''image/*'', lib_processor = Some (tp_photo env)\<rparr>"

definition mp3_library :: "'fs env \<Rightarrow> 'fs plugin_library" where
  "mp3_library env = \<lparr>lib_init = Some (plugin_filter ''mime:audio/mpeg'' ''^(year|album|artist)$''),
     lib_mime_type = Some ''audio/mpeg'', lib_processor = Some (tp_mp3 env)\<rparr>"

definition ogg_library :: "'fs env \<Rightarrow> 'fs plugin_library" where
  "ogg_library env = \<lparr>lib_init = Some (plugin_filter ''mime:application/ogg'' ''^(year|album|artist)$''),
     lib_mime_type = Some ''application/ogg'', lib_processor = Some (tp_ogg env)\<rparr>"

definition html_library :: "'fs env \<Rightarrow> 'fs plugin_library" where
  "html_library env = \<lparr>lib_init = Some (plugin_filter ''mime:image/html'' ''^(author|date|language)$''),
     lib_mime_type = Some ''text/html'', lib_processor = Some (tp_html env)\<rparr>"

definition pdf_library :: "'fs env \<Rightarrow> 'fs plugin_library" where
  "pdf_library env = \<lparr>lib_init = Some (plugin_filter ''mime:application/pdf'' ''^(author|date|language)$''),
     lib_mime_type = Some ''application/pdf'', lib_processor = Some (tp_pdf env)\<rparr>"

definition xml_library :: "'fs env \<Rightarrow> 'fs plugin_library" where
  "xml_library env = \<lparr>lib_init = Some (plugin_filter ''mime:application/xml'' ''^(author|date|language)$''),
     lib_mime_type = Some ''application/xml'', lib_processor = Some (tp_xml env)\<rparr>"

text \<open>The process: its environment variables and working directory, and what it calls at start.\<close>

record 'fs process =
  HOME :: gchars
  cwd :: gchars
  plugins_dir :: string
  dlopen :: "string \<Rightarrow> 'fs plugin_library option"
  load_ini :: "string \<Rightarrow> 'fs \<Rightarrow> ini option"
  save_ini :: "string \<Rightarrow> ini \<Rightarrow> 'fs \<Rightarrow> 'fs"

text \<open>The first occurrence of the extension must be the end of the name.\<close>

definition plugin_file :: "string \<Rightarrow> bool" where
  "plugin_file name \<longleftrightarrow> prefix ''libtagsistant_'' name \<and> suffix ''.so'' name \<and> \<not> strstr ''.so'' (butlast name)"

text \<open>One entry of the directory: the plugin goes to the head of the list.\<close>

definition load_plugin :: "'fs process \<Rightarrow> ini option \<Rightarrow> string \<Rightarrow> 'fs plugin list \<Rightarrow> 'fs plugin list" where
  "load_plugin pr tagsistant_ini name plugins =
     (if \<not> plugin_file name then plugins
      else case dlopen pr (plugins_dir pr @ ''/'' @ name) of None \<Rightarrow> plugins
       | Some lib \<Rightarrow>
           let (res, rx) = (case lib_init lib of None \<Rightarrow> (1, None) | Some f \<Rightarrow> f tagsistant_ini)
           in if res = 0 then plugins
              else case lib_mime_type lib of None \<Rightarrow> plugins
               | Some mime \<Rightarrow>
                   (case lib_processor lib of None \<Rightarrow> plugins
                    | Some p \<Rightarrow> \<lparr>pl_mime_type = mime, pl_filename = name, pl_processor = p rx\<rparr> # plugins))"

definition S_ISDIR :: "nat \<Rightarrow> bool" where
  "S_ISDIR mode \<longleftrightarrow> (mode div 4096) mod 16 = 4"

definition tagsistant_plugin_loader :: "'fs env \<Rightarrow> 'fs process \<Rightarrow> ini option \<Rightarrow> 'fs \<Rightarrow> 'fs plugin list" where
  "tagsistant_plugin_loader env pr tagsistant_ini f =
     (case os_lstat (sys env) (Some (plugins_dir pr)) f of Inl e \<Rightarrow> []
      | Inr st \<Rightarrow>
          if \<not> S_ISDIR (st_mode st) then []
          else case os_readdir (sys env) (Some (plugins_dir pr)) f of Inl e \<Rightarrow> []
           | Inr names \<Rightarrow> fold (load_plugin pr tagsistant_ini) names [])"

subsection \<open>repository.ini\<close>

definition tagsistant_set_init_default :: "string \<Rightarrow> string \<Rightarrow> string \<Rightarrow> ini \<Rightarrow> ini" where
  "tagsistant_set_init_default sect key value m = (if m (sect, key) \<noteq> None then m else m((sect, key) \<mapsto> value))"

definition default_filters :: "(string \<times> string) list" where
  "default_filters =
     [(''mime:application/xml'', ''^(author|date|language)$''), (''mime:image/gif'', ''^(size|orientation)$''),
      (''mime:text/html'', ''^(author|date|language)$''), (''mime:image/jpeg'', ''^(size|orientation)$''),
      (''mime:image/png'', ''^(size|orientation)$''), (''mime:application/ogg'', ''^(year|album|artist)$''),
      (''mime:audio/mpeg'', ''^(year|album|artist)$'')]"

text \<open>The database options of the daemon and the contents of the file, from those of the command line and the file before.\<close>

definition tagsistant_manage_repository_ini :: "gchars \<Rightarrow> string \<Rightarrow> string \<Rightarrow> ini option \<Rightarrow> string \<times> ini" where
  "tagsistant_manage_repository_ini given mp repo file =
     (let from_file = (case file of None \<Rightarrow> None | Some m \<Rightarrow> m (''Tagsistant'', ''db''));
          chosen = (case from_file of None \<Rightarrow> given | Some d \<Rightarrow> Some d);
          m = (case file of None \<Rightarrow> (\<lambda>_. None) | Some m \<Rightarrow> m);
          options = (case chosen of None \<Rightarrow> ''sqlite3::::'' | Some d \<Rightarrow> if d = '''' then ''sqlite3::::'' else d);
          m1 = m((''Tagsistant'', ''db'') \<mapsto> options, (''Tagsistant'', ''mountpoint'') \<mapsto> mp,
                 (''Tagsistant'', ''repository'') \<mapsto> repo)
      in (options, fold (\<lambda>(s, v). tagsistant_set_init_default s ''filter'' v) default_filters m1))"

subsection \<open>Database options\<close>

datatype backend = TAGSISTANT_NULL_BACKEND | TAGSISTANT_DBI_MYSQL_BACKEND | TAGSISTANT_DBI_SQLITE_BACKEND

record dboptions =
  db_backend :: backend
  db_backend_name :: gchars
  db_host :: gchars
  db_db :: gchars
  db_username :: gchars
  db_password :: gchars

text \<open>The token of an index, when there is one and it is not empty.\<close>

definition option_token :: "string list \<Rightarrow> nat \<Rightarrow> gchars" where
  "option_token ts n = (if n < length ts \<and> ts ! n \<noteq> '''' then Some (ts ! n) else None)"

definition mysql_options :: "string list \<Rightarrow> dboptions \<Rightarrow> dboptions" where
  "mysql_options ts o1 =
     (let tagsistant = Some ''tagsistant'' in
      case option_token ts 1 of
        None \<Rightarrow> o1\<lparr>db_password := tagsistant, db_username := tagsistant, db_db := tagsistant, db_host := Some ''localhost''\<rparr>
      | Some host \<Rightarrow>
          (case option_token ts 2 of
             None \<Rightarrow> o1\<lparr>db_host := Some host, db_password := tagsistant, db_username := tagsistant, db_db := tagsistant\<rparr>
           | Some d \<Rightarrow>
               (case option_token ts 3 of
                  None \<Rightarrow> o1\<lparr>db_host := Some host, db_db := Some d, db_password := tagsistant, db_username := tagsistant\<rparr>
                | Some user \<Rightarrow>
                    o1\<lparr>db_host := Some host, db_db := Some d, db_username := Some user,
                       db_password := (case option_token ts 4 of None \<Rightarrow> tagsistant | p \<Rightarrow> p)\<rparr>)))"

definition tagsistant_db_init :: "string \<Rightarrow> dboptions" where
  "tagsistant_db_init given =
     (let none = \<lparr>db_backend = TAGSISTANT_NULL_BACKEND, db_backend_name = None, db_host = None, db_db = None,
                   db_username = None, db_password = None\<rparr>;
          sqlite = none\<lparr>db_backend := TAGSISTANT_DBI_SQLITE_BACKEND, db_backend_name := Some ''sqlite3''\<rparr>;
          (options, o1) = (if given = '''' then (''sqlite3::::'', sqlite) else (given, none));
          ts = g_strsplit (CHR '':'') 5 options;
          o2 = (case ts of [] \<Rightarrow> o1
                | t # _ \<Rightarrow> if t = ''sqlite3'' then sqlite
                          else if t = ''mysql'' then o1\<lparr>db_backend := TAGSISTANT_DBI_MYSQL_BACKEND, db_backend_name := Some ''mysql''\<rparr>
                          else o1)
      in if db_backend o2 = TAGSISTANT_DBI_MYSQL_BACKEND then mysql_options ts o2 else o2)"

subsection \<open>The path of the repository\<close>

text \<open>
  The repository of the command line or the default one, without its last slash, then made
  absolute. An empty path is read at the index -1. \<open>Inl\<close> is the code the process exits with.
\<close>

definition default_repository :: "gchars \<Rightarrow> bool \<Rightarrow> string \<Rightarrow> nat + string" where
  "default_repository home show_config repo =
     (if repo \<noteq> '''' then Inr repo
      else if strlen home \<noteq> 0 then Inr (printf_s home @ ''/.tagsistant'')
      else if \<not> show_config then Inl 2 else Inr repo)"

definition absolute_repository :: "gchars \<Rightarrow> gchars \<Rightarrow> string \<Rightarrow> string run" where
  "absolute_repository home dir repo =
     (if repo = '''' then Segv
      else let r = (if last repo = CHR ''/'' then butlast repo else repo)
           in Done (if prefix ''~'' r then (case home of None \<Rightarrow> r | Some h \<Rightarrow> h @ tl r)
                    else if \<not> prefix ''/'' r then (case dir of None \<Rightarrow> r | Some d \<Rightarrow> d @ ''/'' @ r)
                    else r))"

definition repository_path :: "gchars \<Rightarrow> gchars \<Rightarrow> bool \<Rightarrow> gchars \<Rightarrow> (nat + string) run" where
  "repository_path home dir show_config given =
     (let repo = (case given of None \<Rightarrow> printf_s home @ ''/.tagsistant/'' | Some r \<Rightarrow> r)
      in case default_repository home show_config repo of Inl e \<Rightarrow> Done (Inl e)
         | Inr r \<Rightarrow> run_bind (absolute_repository home dir r) (\<lambda>p. Done (Inr p)))"

subsection \<open>main\<close>

record options =
  o_show_help :: bool
  o_show_version :: bool
  o_remaining :: "string list"
  o_repository :: gchars
  o_tags_suffix :: gchars
  o_singlethread :: bool
  o_readonly :: bool
  o_foreground :: bool
  o_verbose :: bool
  o_dboptions :: gchars
  o_show_config :: bool
  o_fuse_opts :: "string list"

text \<open>The arguments handed to FUSE, the mount point left out: it comes last.\<close>

definition fuse_arguments :: "options \<Rightarrow> string list" where
  "fuse_arguments o1 =
     [''-obig_writes'', ''-omax_write=32768'', ''-omax_read=32768'', ''-ofsname=tagsistant'']
     @ (if o_singlethread o1 then [''-s''] else []) @ (if o_readonly o1 then [''-r''] else [])
     @ (if o_foreground o1 then [''-f''] else []) @ (if o_verbose o1 then [''-d''] else [])
     @ map (\<lambda>s. ''-o'' @ s) (o_fuse_opts o1)"

text \<open>The mount point, and the repository when two paths are given; a second path that is empty is as none.\<close>

definition remaining_paths :: "options \<Rightarrow> (gchars \<times> string) option" where
  "remaining_paths o1 =
     (case o_remaining o1 of [] \<Rightarrow> None
      | [m] \<Rightarrow> Some (o_repository o1, m)
      | r # m # _ \<Rightarrow> if m \<noteq> '''' then Some (Some r, m) else Some (o_repository o1, r))"

record 'fs mount_point =
  su_mountpoint :: string
  su_repository :: string
  su_tags :: string
  su_archive :: string
  su_tags_suffix :: string
  su_plugins :: "'fs plugin list"
  su_ini :: ini
  su_dboptions :: dboptions
  su_fuse_args :: "string list"

datatype 'fs startup = Exit nat | Mount "'fs mount_point" 'fs

text \<open>A directory that is made when it is missing: \<^verbatim>\<open>mkdir(path, 755)\<close>, the mode in decimal, then \<^verbatim>\<open>chmod\<close> to 0755.\<close>

definition ensure_directory :: "'fs env \<Rightarrow> string \<Rightarrow> 'fs \<Rightarrow> 'fs option" where
  "ensure_directory env path f =
     (let made = (case os_lstat (sys env) (Some path) f of Inr _ \<Rightarrow> (None, f)
                  | Inl _ \<Rightarrow> os_mkdir (sys env) (Some path) 755 f)
      in case made of (Some e, _) \<Rightarrow> None | (None, f1) \<Rightarrow> Some (snd (os_chmod (sys env) (Some path) 493 f1)))"

definition ensure_mountpoint :: "'fs env \<Rightarrow> bool \<Rightarrow> string \<Rightarrow> 'fs \<Rightarrow> 'fs option" where
  "ensure_mountpoint env show_config m f =
     (case os_lstat (sys env) (Some m) f of
        Inr _ \<Rightarrow> Some f
      | Inl e \<Rightarrow>
          if e = ENOENT
          then (case os_mkdir (sys env) (Some m) 488 f of (None, f1) \<Rightarrow> Some f1
                | (Some _, f1) \<Rightarrow> if show_config then Some f1 else None)
          else Some f)"

definition start_daemon :: "'fs env \<Rightarrow> 'fs process \<Rightarrow> options \<Rightarrow> string \<Rightarrow> string \<Rightarrow> 'fs \<Rightarrow> 'fs startup" where
  "start_daemon env pr o1 m repo f =
     (case ensure_directory env repo f of None \<Rightarrow> Exit 2
      | Some f1 \<Rightarrow>
          let tags = repo @ ''/tags.sql'';
              f2 = (case os_stat (sys env) (Some tags) f1 of Inr _ \<Rightarrow> f1 | Inl _ \<Rightarrow> os_creat (sys env) (Some tags) 384 f1);
              arch = repo @ ''/archive/''
          in case ensure_directory env arch f2 of None \<Rightarrow> Exit 2
             | Some f3 \<Rightarrow>
                 let plugins = tagsistant_plugin_loader env pr None f3;
                     ini_path = repo @ ''/repository.ini'';
                     (dbopts, ini) = tagsistant_manage_repository_ini (o_dboptions o1) m repo (load_ini pr ini_path f3)
                 in Mount \<lparr>su_mountpoint = m, su_repository = repo, su_tags = tags, su_archive = arch,
                      su_tags_suffix = (case o_tags_suffix o1 of None \<Rightarrow> ''.tags'' | Some s \<Rightarrow> s),
                      su_plugins = plugins, su_ini = ini, su_dboptions = tagsistant_db_init dbopts,
                      su_fuse_args = fuse_arguments o1 @ [m]\<rparr> (save_ini pr ini_path ini f3))"

definition main :: "'fs env \<Rightarrow> 'fs process \<Rightarrow> options \<Rightarrow> 'fs \<Rightarrow> 'fs startup run" where
  "main env pr o1 f =
     (if o_show_help o1 \<or> o_show_version o1 then Done (Exit 0)
      else case remaining_paths o1 of None \<Rightarrow> Done (Exit 2)
       | Some (given, m) \<Rightarrow>
           (case ensure_mountpoint env (o_show_config o1) m f of None \<Rightarrow> Done (Exit 1)
            | Some f1 \<Rightarrow>
                run_bind (repository_path (HOME pr) (cwd pr) (o_show_config o1) given)
                  (\<lambda>r. Done (case r of Inl e \<Rightarrow> Exit e | Inr repo \<Rightarrow> start_daemon env pr o1 m repo f1))))"

subsection \<open>The database options\<close>

lemma split_upto_skip:
  assumes "d \<notin> set t"
  shows "split_upto (Suc n) d (t @ d # s) = t # split_upto n d s"
proof -
  have "\<forall>x \<in> set t. x \<noteq> d" using assms by blast
  then have "takeWhile (\<lambda>x. x \<noteq> d) (t @ d # s) = t" "dropWhile (\<lambda>x. x \<noteq> d) (t @ d # s) = d # s"
    by (intro takeWhile_append_stop dropWhile_append_stop; simp)+
  then show ?thesis by simp
qed

lemma split_upto_last: "split_upto 0 d s = [s]"
  by simp

lemma mysql_options_complete:
  "db_host (mysql_options ts o1) \<noteq> None" "db_db (mysql_options ts o1) \<noteq> None"
  "db_username (mysql_options ts o1) \<noteq> None" "db_password (mysql_options ts o1) \<noteq> None"
  by (auto simp: mysql_options_def Let_def split: option.splits)

lemma db_init_mysql: "db_backend (tagsistant_db_init s) = TAGSISTANT_DBI_MYSQL_BACKEND \<Longrightarrow>
    \<exists>ts o1. tagsistant_db_init s = mysql_options ts o1"
  by (auto simp: tagsistant_db_init_def Let_def split: if_splits list.splits)

text \<open>The options of MySQL are read as they are documented, \<^verbatim>\<open>backend:host:db:user:password\<close>:
  the four values come back, the password with the colons it may have; and whatever the text, a
  MySQL connection has a host, a database, a user and a password, while a text that names neither
  of the two drivers leaves no driver, and the empty text is SQLite.\<close>

theorem database_options:
  assumes "\<forall>t \<in> {h, d, u}. t \<noteq> '''' \<and> CHR '':'' \<notin> set t" "p \<noteq> ''''"
  shows "tagsistant_db_init (''mysql:'' @ h @ '':'' @ d @ '':'' @ u @ '':'' @ p)
      = \<lparr>db_backend = TAGSISTANT_DBI_MYSQL_BACKEND, db_backend_name = Some ''mysql'', db_host = Some h, db_db = Some d,
         db_username = Some u, db_password = Some p\<rparr>
    \<and> (\<forall>s. db_backend (tagsistant_db_init s) = TAGSISTANT_DBI_MYSQL_BACKEND \<longrightarrow>
          None \<notin> {db_host (tagsistant_db_init s), db_db (tagsistant_db_init s), db_username (tagsistant_db_init s), db_password (tagsistant_db_init s)})
    \<and> (\<forall>b s. CHR '':'' \<notin> set b \<and> b \<notin> {'''', ''mysql'', ''sqlite3''} \<longrightarrow> db_backend (tagsistant_db_init (b @ '':'' @ s)) = TAGSISTANT_NULL_BACKEND)
    \<and> db_backend (tagsistant_db_init '''') = TAGSISTANT_DBI_SQLITE_BACKEND"
proof (intro conjI allI impI)
  have 4: "5 - 1 = Suc (Suc (Suc (Suc 0)))" by simp
  have c: "CHR '':'' \<notin> set ''mysql''" "CHR '':'' \<notin> set h" "CHR '':'' \<notin> set d" "CHR '':'' \<notin> set u" using assms by simp_all
  have "split_upto (5 - 1) (CHR '':'') (''mysql'' @ CHR '':'' # h @ CHR '':'' # d @ CHR '':'' # u @ CHR '':'' # p) = [''mysql'', h, d, u, p]"
    unfolding 4 split_upto_skip[OF c(1)] split_upto_skip[OF c(2)] split_upto_skip[OF c(3)] split_upto_skip[OF c(4)] split_upto_last ..
  then have "g_strsplit (CHR '':'') 5 (''mysql'' @ CHR '':'' # h @ CHR '':'' # d @ CHR '':'' # u @ CHR '':'' # p) = [''mysql'', h, d, u, p]"
    by (simp add: g_strsplit_def del: split_upto.simps)
  then have t: "g_strsplit (CHR '':'') 5 (''mysql:'' @ h @ '':'' @ d @ '':'' @ u @ '':'' @ p) = [''mysql'', h, d, u, p]" by simp
  show "tagsistant_db_init (''mysql:'' @ h @ '':'' @ d @ '':'' @ u @ '':'' @ p)
      = \<lparr>db_backend = TAGSISTANT_DBI_MYSQL_BACKEND, db_backend_name = Some ''mysql'', db_host = Some h, db_db = Some d,
         db_username = Some u, db_password = Some p\<rparr>"
    unfolding tagsistant_db_init_def Let_def using t assms by (simp add: mysql_options_def option_token_def)
next
  fix s assume "db_backend (tagsistant_db_init s) = TAGSISTANT_DBI_MYSQL_BACKEND"
  then obtain ts o1 where "tagsistant_db_init s = mysql_options ts o1" using db_init_mysql by metis
  then show "None \<notin> {db_host (tagsistant_db_init s), db_db (tagsistant_db_init s), db_username (tagsistant_db_init s), db_password (tagsistant_db_init s)}"
    using mysql_options_complete[of ts o1] by auto
next
  fix b s assume b: "CHR '':'' \<notin> set b \<and> b \<notin> {'''', ''mysql'', ''sqlite3''}"
  have "g_strsplit (CHR '':'') 5 (b @ '':'' @ s) = b # split_upto 3 (CHR '':'') s"
    using b split_upto_skip[of "CHR '':''" b 3 s] by (simp add: g_strsplit_def)
  then show "db_backend (tagsistant_db_init (b @ '':'' @ s)) = TAGSISTANT_NULL_BACKEND"
    unfolding tagsistant_db_init_def Let_def using b by simp
next
  have "g_strsplit (CHR '':'') 5 ''sqlite3::::'' = ''sqlite3'' # split_upto 3 (CHR '':'') '':::''"
    using split_upto_skip[of "CHR '':''" "''sqlite3''" 3 "'':::''"] by (simp add: g_strsplit_def)
  then show "db_backend (tagsistant_db_init '''') = TAGSISTANT_DBI_SQLITE_BACKEND"
    by (simp add: tagsistant_db_init_def Let_def)
qed

subsection \<open>repository.ini\<close>

lemma set_init_default_apply:
  "tagsistant_set_init_default s key v m p = (if p = (s, key) \<and> m p = None then Some v else m p)"
  by (auto simp: tagsistant_set_init_default_def)

lemma fold_init_default:
  "fold (\<lambda>(s, v). tagsistant_set_init_default s ''filter'' v) ds m (x, k) =
     (if k = ''filter'' \<and> m (x, k) = None then map_of ds x else m (x, k))"
proof (induction ds arbitrary: m)
  case (Cons p ds)
  obtain s v where p: "p = (s, v)" by fastforce
  have "fold (\<lambda>(s, v). tagsistant_set_init_default s ''filter'' v) (p # ds) m (x, k)
      = fold (\<lambda>(s, v). tagsistant_set_init_default s ''filter'' v) ds (tagsistant_set_init_default s ''filter'' v m) (x, k)"
    by (simp add: p)
  also have "\<dots> = (if k = ''filter'' \<and> tagsistant_set_init_default s ''filter'' v m (x, k) = None then map_of ds x
      else tagsistant_set_init_default s ''filter'' v m (x, k))" by (rule Cons.IH)
  also have "\<dots> = (if k = ''filter'' \<and> m (x, k) = None then map_of (p # ds) x else m (x, k))"
    by (auto simp: p set_init_default_apply)
  finally show ?case .
qed auto

lemma manage_filters:
  "snd (tagsistant_manage_repository_ini given mp repo file) (s, ''filter'') =
     (case (case file of None \<Rightarrow> None | Some old \<Rightarrow> old (s, ''filter'')) of None \<Rightarrow> map_of default_filters s | Some v \<Rightarrow> Some v)"
  by (auto simp: tagsistant_manage_repository_ini_def Let_def fold_init_default split: option.splits)

lemma default_filter_some: "(s, v) \<in> set default_filters \<Longrightarrow> map_of default_filters s \<noteq> None"
  by (simp add: map_of_eq_None_iff image_iff) (metis fst_conv)

text \<open>The first start decides: the database options written to \<^verbatim>\<open>repository.ini\<close> by a
  start are those of every later start, whatever its command line says, a file that was written is
  left as it is by a start on the same mount point, and a filter the user put into the file
  is never overwritten by the standard one.\<close>

theorem repository_ini_stable:
  assumes "tagsistant_manage_repository_ini given mp repo file = (dbopts, m)"
  shows "(\<forall>given'. tagsistant_manage_repository_ini given' mp repo (Some m) = (dbopts, m))
    \<and> (\<forall>given' mp' repo'. fst (tagsistant_manage_repository_ini given' mp' repo' (Some m)) = dbopts)
    \<and> dbopts \<noteq> ''''
    \<and> (\<forall>old s v. file = Some old \<and> old (s, ''filter'') = Some v \<longrightarrow> m (s, ''filter'') = Some v)
    \<and> (\<forall>(s, v) \<in> set default_filters. m (s, ''filter'') \<noteq> None)"
proof -
  have m: "m (''Tagsistant'', ''db'') = Some dbopts" "m (''Tagsistant'', ''mountpoint'') = Some mp"
      "m (''Tagsistant'', ''repository'') = Some repo" "dbopts \<noteq> ''''"
    using assms by (auto simp: tagsistant_manage_repository_ini_def Let_def fold_init_default split: option.splits if_splits)
  have f: "\<forall>(s, v) \<in> set default_filters. m (s, ''filter'') \<noteq> None"
    using manage_filters[of given mp repo "file"] assms default_filter_some by (auto split: option.splits)
  have keep: "fold (\<lambda>(s, v). tagsistant_set_init_default s ''filter'' v) default_filters m = m"
  proof (rule ext, clarify)
    fix x k show "fold (\<lambda>(s, v). tagsistant_set_init_default s ''filter'' v) default_filters m (x, k) = m (x, k)"
      using f map_of_SomeD[of default_filters x] by (cases "map_of default_filters x") (auto simp: fold_init_default)
  qed
  have u: "m((''Tagsistant'', ''db'') \<mapsto> dbopts, (''Tagsistant'', ''mountpoint'') \<mapsto> mp, (''Tagsistant'', ''repository'') \<mapsto> repo) = m"
    using m by (auto simp: fun_eq_iff)
  have "tagsistant_manage_repository_ini given' mp repo (Some m) = (dbopts, m)" for given'
    using m by (simp add: tagsistant_manage_repository_ini_def u keep)
  moreover have "fst (tagsistant_manage_repository_ini given' mp' repo' (Some m)) = dbopts" for given' mp' repo'
    using m by (simp add: tagsistant_manage_repository_ini_def Let_def)
  moreover have "m (s, ''filter'') = Some v" if "file = Some old" "old (s, ''filter'') = Some v" for old s v
    using manage_filters[of given mp repo "file" s] assms that by simp
  ultimately show ?thesis using m(4) f by blast
qed

subsection \<open>The path of the repository\<close>

text \<open>The repository is an absolute path: when the home and the working directory are, whatever path
  is given, absolute, relative, below the home directory or none, the daemon uses an absolute path; an
  absolute one is used as it is given, without one final slash, except for the root directory,
  which becomes a directory below the working directory.\<close>

theorem repository_absolute:
  assumes "home = Some (CHR ''/'' # h)" "dir = Some (CHR ''/'' # c)" "repository_path home dir show_config given = Done r"
  shows "(\<exists>p. r = Inr p \<and> prefix ''/'' p)
    \<and> (\<forall>a. given = Some (CHR ''/'' # a @ ''/'') \<longrightarrow> r = Inr (CHR ''/'' # a))
    \<and> (\<forall>a. given = Some (CHR ''/'' # a) \<and> a \<noteq> '''' \<and> last a \<noteq> CHR ''/'' \<longrightarrow> r = Inr (CHR ''/'' # a))
    \<and> (given = Some ''/'' \<longrightarrow> r = Inr (CHR ''/'' # c @ ''/''))"
  using assms by (auto simp: repository_path_def default_repository_def absolute_repository_def Let_def butlast_append split: option.splits if_splits)

subsection \<open>The filters of repository.ini\<close>

definition loaded_from :: "'fs process \<Rightarrow> ini option \<Rightarrow> 'fs plugin \<Rightarrow> bool" where
  "loaded_from pr tagsistant_ini p \<longleftrightarrow> plugin_file (pl_filename p) \<and>
     (\<exists>lib proc. dlopen pr (plugins_dir pr @ ''/'' @ pl_filename p) = Some lib \<and> lib_mime_type lib = Some (pl_mime_type p) \<and>
        lib_processor lib = Some proc \<and>
        pl_processor p = proc (case lib_init lib of None \<Rightarrow> None | Some f \<Rightarrow> snd (f tagsistant_ini)))"

lemma load_plugin_cases: "load_plugin pr i name ps = ps \<or> (\<exists>p. load_plugin pr i name ps = p # ps \<and> loaded_from pr i p)"
proof (cases "plugin_file name \<and> dlopen pr (plugins_dir pr @ ''/'' @ name) \<noteq> None")
  case True
  then obtain lib where l: "plugin_file name" "dlopen pr (plugins_dir pr @ ''/'' @ name) = Some lib" by blast
  obtain res rx where c: "(case lib_init lib of None \<Rightarrow> (1, None) | Some f \<Rightarrow> f i) = (res, rx)" by fastforce
  have rx: "(case lib_init lib of None \<Rightarrow> None | Some f \<Rightarrow> snd (f i)) = rx" using c by (cases "lib_init lib") auto
  show ?thesis using l c rx
    by (cases "res = 0"; cases "lib_mime_type lib"; cases "lib_processor lib") (simp_all add: load_plugin_def loaded_from_def)
qed (auto simp: load_plugin_def)

lemma load_plugin_from: "\<forall>p \<in> set ps. loaded_from pr i p \<Longrightarrow> \<forall>p \<in> set (load_plugin pr i name ps). loaded_from pr i p"
  using load_plugin_cases[of pr i name ps] by auto

lemma loader_from: "\<forall>p \<in> set (tagsistant_plugin_loader env pr i f). loaded_from pr i p"
proof -
  have "\<forall>p \<in> set ps. loaded_from pr i p \<Longrightarrow> \<forall>p \<in> set (fold (load_plugin pr i) names ps). loaded_from pr i p" for names ps
  proof (induction names arbitrary: ps)
    case (Cons n names)
    show ?case using Cons.IH[OF load_plugin_from[OF Cons.prems, of n]] by simp
  qed simp
  from this[of "[]"] have "\<forall>p \<in> set (fold (load_plugin pr i) names []). loaded_from pr i p" for names by simp
  then show ?thesis unfolding tagsistant_plugin_loader_def by (auto split: sum.splits if_splits)
qed

lemma start_plugins:
  assumes "start_daemon env pr o1 m repo f = Mount s f1"
  obtains f3 where "su_plugins s = tagsistant_plugin_loader env pr None f3"
    "\<exists>s' f1'. start_daemon env (pr\<lparr>load_ini := l\<rparr>) o1 m repo f = Mount s' f1' \<and> su_plugins s' = su_plugins s \<and> su_repository s' = su_repository s"
proof -
  have d: "plugins_dir (pr\<lparr>load_ini := l\<rparr>) = plugins_dir pr" "dlopen (pr\<lparr>load_ini := l\<rparr>) = dlopen pr"
    "save_ini (pr\<lparr>load_ini := l\<rparr>) = save_ini pr" by simp_all
  have lp: "load_plugin (pr\<lparr>load_ini := l\<rparr>) i = load_plugin pr i" for i by (rule ext)+ (simp add: load_plugin_def)
  have p: "tagsistant_plugin_loader env (pr\<lparr>load_ini := l\<rparr>) i f = tagsistant_plugin_loader env pr i f" for i f
    by (simp only: tagsistant_plugin_loader_def lp d)
  show thesis using assms that by (auto simp: start_daemon_def Let_def p d split: option.splits prod.splits)
qed

text \<open>C40: The filters of \<^verbatim>\<open>repository.ini\<close> are never used: the plugins are loaded, and
  compile their filters, before the file is read, so that the plugins a start ends up with are the
  same whatever is in the file, each with the filter its init function compiles without a file:
  the JPEG plugin always filters with the standard pattern.\<close>

theorem filters_never_read:
  assumes "main env pr o1 f = Done (Mount s f1)"
  shows "(\<exists>s' f1'. main env (pr\<lparr>load_ini := other\<rparr>) o1 f = Done (Mount s' f1') \<and> su_plugins s' = su_plugins s \<and> su_repository s' = su_repository s)
    \<and> (\<forall>p \<in> set (su_plugins s). loaded_from pr None p)
    \<and> (\<forall>p \<in> set (su_plugins s). dlopen pr (plugins_dir pr @ ''/'' @ pl_filename p) = Some (jpeg_library env) \<longrightarrow>
         pl_processor p = tp_jpeg env (Some ''^(size|orientation)$''))"
proof -
  obtain given m g repo where r: "remaining_paths o1 = Some (given, m)" "ensure_mountpoint env (o_show_config o1) m f = Some g"
      "repository_path (HOME pr) (cwd pr) (o_show_config o1) given = Done (Inr repo)" "start_daemon env pr o1 m repo g = Mount s f1"
      "\<not> o_show_help o1" "\<not> o_show_version o1"
    using assms by (auto simp: main_def run_bind_Done_iff split: if_splits option.splits prod.splits sum.splits) (metis sum.exhaust)
  obtain f3 where l: "su_plugins s = tagsistant_plugin_loader env pr None f3"
      "\<exists>s' f1'. start_daemon env (pr\<lparr>load_ini := other\<rparr>) o1 m repo g = Mount s' f1' \<and> su_plugins s' = su_plugins s \<and> su_repository s' = su_repository s"
    using start_plugins[OF r(4)] by blast
  have lf: "\<forall>p \<in> set (su_plugins s). loaded_from pr None p" unfolding l(1) by (rule loader_from)
  have "pl_processor p = tp_jpeg env (Some ''^(size|orientation)$'')"
    if "loaded_from pr None p" "dlopen pr (plugins_dir pr @ ''/'' @ pl_filename p) = Some (jpeg_library env)" for p
    using that by (simp add: loaded_from_def jpeg_library_def plugin_filter_def tagsistant_get_ini_entry_def)
  then show ?thesis using lf l(2) r by (auto simp: main_def)
qed

subsection \<open>Concrete instances\<close>

theorem database_options_witness:
  "tagsistant_db_init ''mysql:db.example:tags:joe:a:b'' = \<lparr>db_backend = TAGSISTANT_DBI_MYSQL_BACKEND, db_backend_name = Some ''mysql'',
     db_host = Some ''db.example'', db_db = Some ''tags'', db_username = Some ''joe'', db_password = Some ''a:b''\<rparr>"
  using database_options[of "''db.example''" "''tags''" "''joe''" "''a:b''"] by simp

theorem repository_ini_stable_witness:
  "\<exists>m. tagsistant_manage_repository_ini (Some ''mysql::::'') ''/mnt'' ''/r'' (Some [(''mime:image/png'', ''filter'') \<mapsto> ''x'']) = (''mysql::::'', m)
     \<and> tagsistant_manage_repository_ini (Some ''sqlite3'') ''/mnt'' ''/r'' (Some m) = (''mysql::::'', m) \<and> m (''mime:image/png'', ''filter'') = Some ''x''"
proof -
  let ?f = "Some [(''mime:image/png'', ''filter'') \<mapsto> ''x''] :: ini option"
  obtain o1 m where r: "tagsistant_manage_repository_ini (Some ''mysql::::'') ''/mnt'' ''/r'' ?f = (o1, m)" by (metis surj_pair)
  then have "o1 = ''mysql::::''" by (auto simp: tagsistant_manage_repository_ini_def Let_def)
  then show ?thesis using r repository_ini_stable[OF r] by auto
qed

theorem repository_absolute_witness:
  "repository_path (Some ''/home/joe'') (Some ''/tmp'') False (Some ''/'') = Done (Inr ''/tmp/'')
     \<and> repository_path (Some ''/home/joe'') (Some ''/tmp'') False (Some ''/var/tags/'') = Done (Inr ''/var/tags'')"
proof -
  have e: "\<exists>r. repository_path (Some (CHR ''/'' # ''home/joe'')) (Some (CHR ''/'' # ''tmp'')) False (Some p) = Done r" if "p \<noteq> ''''" for p
    using that by (simp add: repository_path_def default_repository_def absolute_repository_def Let_def)
  obtain r where r: "repository_path (Some (CHR ''/'' # ''home/joe'')) (Some (CHR ''/'' # ''tmp'')) False (Some ''/'') = Done r" using e[of "''/''"] by auto
  obtain r' where r': "repository_path (Some (CHR ''/'' # ''home/joe'')) (Some (CHR ''/'' # ''tmp'')) False (Some ''/var/tags/'') = Done r'"
    using e[of "''/var/tags/''"] by auto
  have "r' = Inr (CHR ''/'' # ''var/tags'')" using repository_absolute[OF refl refl r'] by (auto dest: spec[of _ "''var/tags''"])
  then show ?thesis using repository_absolute[OF refl refl r] r r' by simp
qed

text \<open>A system where every path is a directory, with one plugin.\<close>

definition start_env :: "string list env" where
  "start_env = sample_env\<lparr>sys := sample_os\<lparr>os_lstat := (\<lambda>p xs. Inr \<lparr>st_ino = 1, st_mode = 16877, st_nlink = 1, st_size = 0\<rparr>),
     os_readdir := (\<lambda>p xs. Inr [''.'', ''..'', ''libtagsistant_jpeg.so'', ''libtagsistant_jpeg.so.1''])\<rparr>\<rparr>"

definition start_process :: "string list process" where
  "start_process = \<lparr>HOME = Some ''/home/joe'', cwd = Some ''/tmp'', plugins_dir = ''/plugins'', dlopen = (\<lambda>p. Some (jpeg_library start_env)),
     load_ini = (\<lambda>p f. Some [(''mime:image/jpeg'', ''filter'') \<mapsto> ''x'']), save_ini = (\<lambda>p i f. f @ [p])\<rparr>"

definition start_options :: options where
  "start_options = \<lparr>o_show_help = False, o_show_version = False, o_remaining = [''repo/'', ''/mnt''], o_repository = None, o_tags_suffix = None,
     o_singlethread = False, o_readonly = True, o_foreground = False, o_verbose = False, o_dboptions = None, o_show_config = False,
     o_fuse_opts = [''allow_other'']\<rparr>"

theorem filters_never_read_witness:
  "\<exists>s f. main start_env start_process start_options [] = Done (Mount s f) \<and> su_repository s = ''/tmp/repo''
     \<and> map pl_filename (su_plugins s) = [''libtagsistant_jpeg.so''] \<and> su_ini s (''mime:image/jpeg'', ''filter'') = Some ''x''
     \<and> pl_processor (hd (su_plugins s)) = tp_jpeg start_env (Some ''^(size|orientation)$'')"
proof -
  have p: "plugin_file ''libtagsistant_jpeg.so''" "\<not> plugin_file ''libtagsistant_jpeg.so.1''" "\<not> plugin_file ''.''" "\<not> plugin_file ''..''"
    by code_simp+
  have "\<exists>s f. main start_env start_process start_options [] = Done (Mount s f) \<and> su_repository s = ''/tmp/repo''
     \<and> map pl_filename (su_plugins s) = [''libtagsistant_jpeg.so''] \<and> su_ini s (''mime:image/jpeg'', ''filter'') = Some ''x''"
    by (simp add: main_def start_options_def start_process_def remaining_paths_def ensure_mountpoint_def start_env_def sample_env_def
        sample_os_def repository_path_def default_repository_def absolute_repository_def start_daemon_def ensure_directory_def
        sample_touch_def sample_add_def tagsistant_plugin_loader_def S_ISDIR_def load_plugin_def p plugin_filter_def jpeg_library_def
        tagsistant_manage_repository_ini_def default_filters_def tagsistant_set_init_default_def Let_def)
  then obtain s f where r: "main start_env start_process start_options [] = Done (Mount s f)" "su_repository s = ''/tmp/repo''"
      "map pl_filename (su_plugins s) = [''libtagsistant_jpeg.so'']" "su_ini s (''mime:image/jpeg'', ''filter'') = Some ''x''"
    by (elim exE conjE)
  have d: "dlopen start_process = (\<lambda>p. Some (jpeg_library start_env))" by (simp add: start_process_def)
  have "hd (su_plugins s) \<in> set (su_plugins s)" using r(3) by (cases "su_plugins s") simp_all
  then show ?thesis using filters_never_read[OF r(1)] r by (auto simp: d)
qed

end
