(* ===== verification/Database_Boot.thy ===== *)
theory Database_Boot
  imports Startup
begin

section \<open>Connections and the schema\<close>

text \<open>
  The parts of \<^verbatim>\<open>src/src/sql.c\<close> the SQL layer stands on: the pool of connections, which that
  layer counts, here as a list of handles that can die; and \<^verbatim>\<open>tagsistant_create_schema()\<close>, which the
  daemon calls at every start, on a database that may have the tables of an older version. libDBI is a
  record: the drivers there are, which handles answer a ping or can reconnect, whether a new handle can
  be made and connected. The walk over the pool reads the link of an element it has freed; the model
  gives it the link the element had.
\<close>

subsection \<open>The pool\<close>

text \<open>The loop over the drivers, whose names are the list.\<close>

definition tagsistant_driver_is_available :: "string list \<Rightarrow> string \<Rightarrow> int" where
  "tagsistant_driver_is_available drivers driver_name =
     (let counter = length drivers; driver_found = driver_name \<in> set drivers
      in if counter = 0 then 0 else if \<not> driver_found then 0 else 1)"

record dbi_library =
  li_drivers :: "string list"
  li_alive :: "nat \<Rightarrow> bool"
  li_new :: bool
  li_connects :: bool

record connection_pool =
  cp_pool :: "nat list"
  cp_connections :: nat
  cp_closed :: "nat list"
  cp_next :: nat

datatype connecting = Exits nat | Connected nat connection_pool

text \<open>The loop over the pool; \<^verbatim>\<open>dbi\<close> keeps the handle that was looked at last.\<close>

fun walk_pool :: "dbi_library \<Rightarrow> nat list \<Rightarrow> nat option \<Rightarrow> connection_pool \<Rightarrow> nat option \<times> connection_pool" where
  "walk_pool li [] dbi s = (dbi, s\<lparr>cp_pool := []\<rparr>)"
| "walk_pool li (h # hs) dbi s =
     (if li_alive li h then (Some h, s\<lparr>cp_pool := hs\<rparr>)
      else walk_pool li hs (Some h) (s\<lparr>cp_closed := h # cp_closed s, cp_connections := cp_connections s - 1\<rparr>))"

text \<open>The options a new connection is given; a backend that is neither exits.\<close>

definition connection_settings :: "dboptions \<Rightarrow> string \<Rightarrow> (string \<times> (string \<times> gchars) list) option" where
  "connection_settings o1 repo =
     (case db_backend o1 of
        TAGSISTANT_DBI_MYSQL_BACKEND \<Rightarrow> Some (''mysql'', [(''host'', db_host o1), (''dbname'', db_db o1),
          (''username'', db_username o1), (''password'', db_password o1), (''encoding'', Some ''UTF-8'')])
      | TAGSISTANT_DBI_SQLITE_BACKEND \<Rightarrow> Some (''sqlite3'', [(''dbname'', Some ''tags.sql''), (''sqlite3_dbdir'', Some repo)])
      | TAGSISTANT_NULL_BACKEND \<Rightarrow> None)"

definition new_connection :: "dbi_library \<Rightarrow> dboptions \<Rightarrow> string \<Rightarrow> connection_pool \<Rightarrow> connecting" where
  "new_connection li o1 repo s =
     (case connection_settings o1 repo of None \<Rightarrow> Exits 1
      | Some (driver, settings) \<Rightarrow>
          if tagsistant_driver_is_available (li_drivers li) driver = 0 \<or> \<not> li_new li \<or> \<not> li_connects li then Exits 1
          else Connected (cp_next s) (s\<lparr>cp_next := cp_next s + 1, cp_connections := cp_connections s + 1\<rparr>))"

definition take_connection :: "dbi_library \<Rightarrow> dboptions \<Rightarrow> string \<Rightarrow> connection_pool \<Rightarrow> connecting" where
  "take_connection li o1 repo s =
     (case walk_pool li (cp_pool s) None s of
        (Some h, s1) \<Rightarrow> Connected h s1
      | (None, s1) \<Rightarrow> new_connection li o1 repo s1)"

definition give_connection :: "nat \<Rightarrow> connection_pool \<Rightarrow> connection_pool" where
  "give_connection h s = s\<lparr>cp_pool := h # cp_pool s\<rparr>"

text \<open>The statement that opens a transaction.\<close>

definition begin_statement :: "backend \<Rightarrow> string option" where
  "begin_statement b =
     (case b of TAGSISTANT_DBI_SQLITE_BACKEND \<Rightarrow> Some ''begin transaction''
      | TAGSISTANT_DBI_MYSQL_BACKEND \<Rightarrow> Some ''start transaction'' | TAGSISTANT_NULL_BACKEND \<Rightarrow> None)"

text \<open>The handles of the pool are different from each other and from those that were closed, and were all made before.\<close>

definition pool_ok :: "connection_pool \<Rightarrow> bool" where
  "pool_ok s \<longleftrightarrow> distinct (cp_pool s) \<and> set (cp_pool s) \<inter> set (cp_closed s) = {} \<and>
     (\<forall>h \<in> set (cp_pool s) \<union> set (cp_closed s). h < cp_next s)"

lemma walk_dead:
  assumes "\<forall>h \<in> set hs. \<not> li_alive li h"
  shows "walk_pool li hs dbi s = (if hs = [] then dbi else Some (last hs),
    s\<lparr>cp_pool := [], cp_closed := rev hs @ cp_closed s, cp_connections := cp_connections s - length hs\<rparr>)"
  using assms by (induction hs arbitrary: dbi s) simp_all

lemma walk_alive:
  assumes "\<forall>h \<in> set ds. \<not> li_alive li h" "li_alive li h"
  shows "walk_pool li (ds @ h # hs) dbi s = (Some h,
    s\<lparr>cp_pool := hs, cp_closed := rev ds @ cp_closed s, cp_connections := cp_connections s - length ds\<rparr>)"
  using assms by (induction ds arbitrary: dbi s) simp_all

text \<open>The world of the SQL layer counts what the pool holds.\<close>

definition counts :: "connection_pool \<Rightarrow> 'fs world \<Rightarrow> bool" where
  "counts s w \<longleftrightarrow> pool w = length (cp_pool s) \<and> connections w = cp_connections s"


text \<open>When every connection of the pool is dead and cannot be made again, each is closed
  and taken out of the pool, and the last of them, closed, is what the caller gets: no new connection is made, though the
  pool is empty.\<close>

theorem dead_connection_returned:
  assumes "cp_pool s \<noteq> []" "\<forall>h \<in> set (cp_pool s). \<not> li_alive li h"
  shows "\<exists>s1. take_connection li o1 repo s = Connected (last (cp_pool s)) s1 \<and> last (cp_pool s) \<in> set (cp_closed s1) \<and>
    cp_pool s1 = [] \<and> cp_connections s1 = cp_connections s - length (cp_pool s) \<and> cp_next s1 = cp_next s"
  using assms walk_dead[OF assms(2), of None s] by (simp add: take_connection_def)


theorem dead_connection_returned_witness:
  "\<exists>s1. take_connection \<lparr>li_drivers = [''mysql''], li_alive = \<lambda>h. False, li_new = True, li_connects = True\<rparr>
      (tagsistant_db_init ''mysql'') ''/r'' \<lparr>cp_pool = [4, 2], cp_connections = 2, cp_closed = [], cp_next = 5\<rparr> = Connected 2 s1 \<and>
    2 \<in> set (cp_closed s1) \<and> cp_pool s1 = [] \<and> cp_connections s1 = 0 \<and> cp_next s1 = 5"
  using dead_connection_returned[of "\<lparr>cp_pool = [4, 2], cp_connections = 2, cp_closed = [], cp_next = 5\<rparr>"
      "\<lparr>li_drivers = [''mysql''], li_alive = \<lambda>h. False, li_new = True, li_connects = True\<rparr>" "tagsistant_db_init ''mysql''" "''/r''"]
  by simp

subsection \<open>The schema\<close>

text \<open>
  A statement of the schema: a table with its columns, each with its type and constraints, and the
  constraints of the table; or an index, with or without \<^verbatim>\<open>if not exists\<close>. The format is the text
  of the code.
\<close>

datatype ddl = Create_table string "(string \<times> string) list" "string list"
  | Create_index bool string string "string list"

definition two_quotes :: string where
  "two_quotes = [CHR 0x27, CHR 0x27]"

fun comma_list :: "string list \<Rightarrow> string" where
  "comma_list [] = ''''"
| "comma_list [s] = s"
| "comma_list (s # t # ts) = s @ '', '' @ comma_list (t # ts)"

fun ddl_format :: "ddl \<Rightarrow> string" where
  "ddl_format (Create_table t cols cons) = ''create table if not exists '' @ t @ '' ('' @
     comma_list (map (\<lambda>(c, ty). c @ '' '' @ ty) cols @ cons) @ '')''"
| "ddl_format (Create_index ine i t cols) = ''create index '' @ (if ine then ''if not exists '' else '''') @ i @ '' on '' @ t @
     '' ('' @ comma_list cols @ '')''"

definition ddl_args :: "ddl \<Rightarrow> sql_arg list" where
  "ddl_args d = (case d of Create_table t cols cons \<Rightarrow> if t = ''aliases'' then [Lit 1024] else [] | _ \<Rightarrow> [])"

definition schema_indexes :: "bool \<Rightarrow> ddl list" where
  "schema_indexes ine =
     [Create_index ine ''relations_index'' ''relations'' [''tag1_id'', ''tag2_id''],
      Create_index ine ''objectname_index'' ''objects'' [''objectname''],
      Create_index ine ''symlink_index'' ''objects'' [''symlink'', ''inode''],
      Create_index ine ''checksum_index'' ''objects'' [''checksum'', ''inode''],
      Create_index ine ''relations_type_index'' ''relations'' [''relation''],
      Create_index ine ''aliases_index'' ''aliases'' [''alias'']]"

definition sqlite_tables :: "ddl list" where
  "sqlite_tables =
     [Create_table ''tags'' [(''tag_id'', ''integer primary key autoincrement not null''), (''tagname'', ''varchar(65) not null''),
         (''key'', ''varchar(65) not null default '' @ two_quotes), (''value'', ''varchar(65) not null default '' @ two_quotes)]
        [''constraint Tag_key unique (tagname, key, value)''],
      Create_table ''objects'' [(''inode'', ''integer not null primary key autoincrement''), (''objectname'', ''text(255) not null''),
         (''last_autotag'', ''timestamp not null default current_timestamp''), (''checksum'', ''text(40) not null default '' @ two_quotes),
         (''symlink'', ''text(1024) not null default '' @ two_quotes)] [],
      Create_table ''tagging'' [(''inode'', ''integer not null''), (''tag_id'', ''integer not null'')]
        [''constraint Tagging_key unique (inode, tag_id)''],
      Create_table ''relations'' [(''relation_id'', ''integer primary key autoincrement not null''), (''tag1_id'', ''integer not null''),
         (''relation'', ''varchar not null''), (''tag2_id'', ''integer not null'')] [],
      Create_table ''aliases'' [(''alias'', ''varchar(65) primary key not null''), (''query'', ''varchar(%d) not null'')] [],
      Create_table ''RDS_catalog'' [(''rds_id'', ''integer primary key autoincrement not null''),
         (''created'', ''datetime not null default current_timestamp''), (''subquery'', ''varchar(1024) not null default '' @ two_quotes)] [],
      Create_table ''RDS'' [(''rds_id'', ''integer not null''), (''inode'', ''integer not null''), (''objectname'', ''varchar(255) not null'')] []]"

definition sqlite_schema :: "ddl list" where
  "sqlite_schema = sqlite_tables @ schema_indexes True"

definition mysql_tables :: "ddl list" where
  "mysql_tables =
     [Create_table ''tags'' [(''tag_id'', ''integer primary key auto_increment not null''), (''tagname'', ''varchar(65) not null''),
         (''`key`'', ''varchar(65) not null''), (''value'', ''varchar(65) not null'')]
        [''constraint Tag_key unique `key` (tagname, `key`, value)''],
      Create_table ''objects'' [(''inode'', ''integer not null primary key auto_increment''), (''objectname'', ''varchar(255) not null''),
         (''last_autotag'', ''timestamp not null default 0''), (''checksum'', ''varchar(40) not null default '' @ two_quotes),
         (''symlink'', ''varchar(1024) not null default '' @ two_quotes)] [],
      Create_table ''tagging'' [(''inode'', ''integer not null''), (''tag_id'', ''integer not null'')]
        [''constraint Tagging_key unique key (inode, tag_id)''],
      Create_table ''relations'' [(''relation_id'', ''integer primary key auto_increment not null''), (''tag1_id'', ''integer not null''),
         (''relation'', ''varchar(32) not null''), (''tag2_id'', ''integer not null'')] [],
      Create_table ''aliases'' [(''alias'', ''varchar(65) primary key not null''), (''query'', ''varchar(%d) not null'')] [],
      Create_table ''RDS_catalog'' [(''rds_id'', ''integer primary key not null auto_increment''),
         (''created'', ''datetime not null default now()''), (''subquery'', ''varchar(1024) not null default '' @ two_quotes)] [],
      Create_table ''RDS'' [(''rds_id'', ''integer not null''), (''inode'', ''integer not null''), (''objectname'', ''varchar(255) not null'')] []]"

definition mysql_schema :: "ddl list" where
  "mysql_schema = mysql_tables @ schema_indexes False"

definition schema :: "backend \<Rightarrow> ddl list" where
  "schema b = (case b of TAGSISTANT_DBI_SQLITE_BACKEND \<Rightarrow> sqlite_schema | TAGSISTANT_DBI_MYSQL_BACKEND \<Rightarrow> mysql_schema
     | TAGSISTANT_NULL_BACKEND \<Rightarrow> [])"

text \<open>
  What the database knows of its tables and indexes. A table that exists is left as it is; an
  index that exists is too, with \<^verbatim>\<open>if not exists\<close> or by an error, and so is one of a table there is not.
\<close>

record catalog =
  ct_tables :: "string \<Rightarrow> ((string \<times> string) list \<times> string list) option"
  ct_indexes :: "string \<Rightarrow> (string \<times> string list) option"

fun ddl_effect :: "ddl \<Rightarrow> catalog \<Rightarrow> catalog" where
  "ddl_effect (Create_table t cols cons) c =
     (if ct_tables c t \<noteq> None then c else c\<lparr>ct_tables := (ct_tables c)(t \<mapsto> (cols, cons))\<rparr>)"
| "ddl_effect (Create_index ine i t cols) c =
     (if ct_tables c t = None \<or> ct_indexes c i \<noteq> None then c else c\<lparr>ct_indexes := (ct_indexes c)(i \<mapsto> (t, cols))\<rparr>)"

definition tagsistant_create_schema :: "backend \<Rightarrow> catalog \<Rightarrow> 'fs world \<Rightarrow> catalog \<times> 'fs world" where
  "tagsistant_create_schema b c w =
     (fold ddl_effect (schema b) c,
      tagsistant_db_connection_release True (tagsistant_commit_transaction (tagsistant_db_connection True w)))"

text \<open>No format of the schema has a \<^verbatim>\<open><\<close>, so that the escaping of the queries leaves the statements as they are meant.\<close>

lemma schema_without_marks: "\<forall>d \<in> set (schema b). CHR ''<'' \<notin> set (ddl_format d)"
  by (cases b) (simp_all add: schema_def sqlite_schema_def mysql_schema_def sqlite_tables_def mysql_tables_def schema_indexes_def two_quotes_def)

lemma schema_statements_intended:
  assumes "d \<in> set (schema b)"
  shows "build_statement (ddl_format d) (ddl_args d) = intended_statement (ddl_format d) (ddl_args d)"
proof -
  have "\<forall>a \<in> set (ddl_args d). clean (print_arg a)"
    using dec_digits[of 1024] by (auto simp: ddl_args_def print_arg_def clean_def is_digit_def split: ddl.splits if_splits)
  then show ?thesis using schema_without_marks[of b] assms emit_intended[of "ddl_format d" "ddl_args d"]
    by (simp add: build_statement_def intended_statement_def emit_def)
qed

text \<open>The tables a list of statements makes; the first statement for a table counts.\<close>

fun tables_of :: "ddl list \<Rightarrow> (string \<times> (string \<times> string) list \<times> string list) list" where
  "tables_of [] = []"
| "tables_of (Create_table t cols cons # ds) = (t, cols, cons) # tables_of ds"
| "tables_of (Create_index ine i t cols # ds) = tables_of ds"

lemma tables_after:
  "ct_tables (fold ddl_effect ds c) t = (case ct_tables c t of Some x \<Rightarrow> Some x | None \<Rightarrow> map_of (tables_of ds) t)"
  by (induction ds arbitrary: c rule: tables_of.induct) (auto split: option.split)

lemma index_kept: "ct_indexes c i = Some y \<Longrightarrow> ct_indexes (fold ddl_effect ds c) i = Some y"
proof (induction ds arbitrary: c)
  case (Cons d ds)
  have "ct_indexes (ddl_effect d c) i = Some y" using Cons.prems by (cases d; cases y) auto
  from Cons.IH[OF this] show ?case by simp
qed simp

lemma index_made:
  assumes "Create_index ine i t cols \<in> set ds" "ct_tables c t \<noteq> None"
  shows "ct_indexes (fold ddl_effect ds c) i \<noteq> None"
  using assms
proof (induction ds arbitrary: c)
  case (Cons d ds)
  have t: "ct_tables (ddl_effect d c) t \<noteq> None" using Cons.prems(2) by (cases d) auto
  show ?case
  proof (cases "Create_index ine i t cols \<in> set ds")
    case True
    from Cons.IH[OF this t] show ?thesis by simp
  next
    case False
    then have "ct_indexes (ddl_effect d c) i \<noteq> None" using Cons.prems by auto
    then obtain y where "ct_indexes (ddl_effect d c) i = Some y" by blast
    from index_kept[OF this, of ds] show ?thesis by simp
  qed
qed simp

text \<open>A schema is in order: the tables first, then indexes of those tables.\<close>

definition in_order :: "ddl list \<Rightarrow> ddl list \<Rightarrow> bool" where
  "in_order ts is \<longleftrightarrow> (\<forall>d \<in> set ts. case d of Create_table t cols cons \<Rightarrow> True | _ \<Rightarrow> False) \<and>
     (\<forall>d \<in> set is. case d of Create_index ine i t cols \<Rightarrow> t \<in> fst ` set (tables_of ts) | _ \<Rightarrow> False)"

lemma tables_of_append: "tables_of (xs @ ys) = tables_of xs @ tables_of ys"
  by (induction xs rule: tables_of.induct) simp_all

lemma table_listed: "Create_table t cols cons \<in> set ds \<Longrightarrow> t \<in> fst ` set (tables_of ds)"
  by (induction ds rule: tables_of.induct) auto

lemma table_made: "t \<in> fst ` set (tables_of ds) \<Longrightarrow> ct_tables (fold ddl_effect ds c) t \<noteq> None"
proof -
  assume "t \<in> fst ` set (tables_of ds)"
  then have "map_of (tables_of ds) t \<noteq> None" by (simp add: map_of_eq_None_iff)
  then show ?thesis by (cases "ct_tables c t") (simp_all add: tables_after)
qed

lemma run_again:
  assumes "in_order ts is"
  shows "fold ddl_effect (ts @ is) (fold ddl_effect (ts @ is) c) = fold ddl_effect (ts @ is) c"
proof -
  let ?c = "fold ddl_effect (ts @ is) c"
  have "ddl_effect d ?c = ?c" if d: "d \<in> set (ts @ is)" for d
  proof (cases d)
    case (Create_table t cols cons)
    then have "t \<in> fst ` set (tables_of (ts @ is))" using d by (metis table_listed)
    from table_made[OF this] show ?thesis by (simp add: Create_table)
  next
    case (Create_index ine i t cols)
    then have "d \<in> set is" "t \<in> fst ` set (tables_of ts)" using d assms by (auto simp: in_order_def)
    then have "ct_indexes (fold ddl_effect is (fold ddl_effect ts c)) i \<noteq> None"
      unfolding Create_index by (intro index_made table_made)
    then show ?thesis by (simp add: Create_index)
  qed
  then have "fold ddl_effect ds ?c = ?c" if "set ds \<subseteq> set (ts @ is)" for ds
    using that by (induction ds) simp_all
  then show ?thesis by blast
qed

lemma schema_in_order: "\<exists>ts is. schema b = ts @ is \<and> in_order ts is"
proof -
  have "in_order [] []" "in_order sqlite_tables (schema_indexes True)" "in_order mysql_tables (schema_indexes False)"
    by (simp_all add: in_order_def sqlite_tables_def mysql_tables_def schema_indexes_def)
  then show ?thesis by (cases b) (auto simp: schema_def sqlite_schema_def mysql_schema_def)
qed

lemma schema_facts:
  "ct_tables (fst (tagsistant_create_schema b c w)) t
     = (case ct_tables c t of Some x \<Rightarrow> Some x | None \<Rightarrow> map_of (tables_of (schema b)) t)"
  "ct_indexes c i = Some y \<Longrightarrow> ct_indexes (fst (tagsistant_create_schema b c w)) i = Some y"
  "fst (tagsistant_create_schema b (fst (tagsistant_create_schema b c w)) w') = fst (tagsistant_create_schema b c w)"
  "db (snd (tagsistant_create_schema b c w)) = db w" "snapshot (snd (tagsistant_create_schema b c w)) = None"
  "lock_log (snd (tagsistant_create_schema b c w)) = lock_log w @ [Writer_lock, Writer_unlock]"
  "d \<in> set (schema b) \<Longrightarrow> build_statement (ddl_format d) (ddl_args d) = intended_statement (ddl_format d) (ddl_args d)"
proof -
  show "ct_tables (fst (tagsistant_create_schema b c w)) t
     = (case ct_tables c t of Some x \<Rightarrow> Some x | None \<Rightarrow> map_of (tables_of (schema b)) t)"
    by (simp add: tagsistant_create_schema_def tables_after)
  show "ct_indexes c i = Some y \<Longrightarrow> ct_indexes (fst (tagsistant_create_schema b c w)) i = Some y"
    by (simp add: tagsistant_create_schema_def index_kept)
  show "fst (tagsistant_create_schema b (fst (tagsistant_create_schema b c w)) w') = fst (tagsistant_create_schema b c w)"
    using schema_in_order[of b] run_again by (auto simp: tagsistant_create_schema_def)
  show "d \<in> set (schema b) \<Longrightarrow> build_statement (ddl_format d) (ddl_args d) = intended_statement (ddl_format d) (ddl_args d)"
    by (rule schema_statements_intended)
qed (simp_all add: tagsistant_create_schema_def tagsistant_db_connection_release_def tagsistant_commit_transaction_def log_lock_def)


definition old_catalog :: catalog where
  "old_catalog = \<lparr>ct_tables = (\<lambda>_. None)(''aliases'' \<mapsto> ([(''alias'', ''varchar(65)'')], [])), ct_indexes = (\<lambda>_. None)(''old'' \<mapsto> (''aliases'', []))\<rparr>"


subsection \<open>The start of the services\<close>

text \<open>
  What \<^verbatim>\<open>main\<close> does between reading its options and handing over to FUSE: the schema, then the
  queue of the autotagging thread, empty, and the objects without a checksum. The thread itself is the
  loop of \<open>Autotagging\<close>.
\<close>

definition tagsistant_deduplication_init :: "'fs env \<Rightarrow> 'fs world \<Rightarrow> 'fs world run" where
  "tagsistant_deduplication_init env w = tagsistant_fix_checksums env (w\<lparr>autotag_queue := []\<rparr>)"

definition start_services :: "'fs env \<Rightarrow> backend \<Rightarrow> catalog \<Rightarrow> 'fs world \<Rightarrow> (catalog \<times> 'fs world) run" where
  "start_services env b c w =
     (let (c1, w1) = tagsistant_create_schema b c w
      in run_bind (tagsistant_deduplication_init env w1) (\<lambda>w2. Done (c1, w2)))"

text \<open>A daemon that starts on a repository where every object has its checksum makes the schema,
  leaves the data and the connections as they were, and ends with a lock taken as a reader and given back
  as a writer.\<close>

theorem services_start:
  assumes "row_order env" "\<forall>r \<in> set (objects (db w)). ob_checksum r \<noteq> ''''" "0 < pool w"
  shows "\<exists>w'. start_services env b c w = Done (fst (tagsistant_create_schema b c w), w') \<and> db w' = db w \<and>
    autotag_queue w' = [] \<and> pool w' = pool w \<and> connections w' = connections w \<and>
    lock_log w' = lock_log w @ [Writer_lock, Writer_unlock, Reader_lock, Writer_unlock]"
proof -
  have u: "unchecked_rows env (db w) = []"
    using assms(2) row_order_ids_Nil[OF assms(1), of "[]"] by (simp add: unchecked_rows_def select_inodes_def filter_empty_conv)
  show ?thesis using assms(3)
    by (simp add: start_services_def tagsistant_deduplication_init_def tagsistant_fix_checksums_def tagsistant_create_schema_def Let_def u
        tagsistant_db_connection_release_def tagsistant_commit_transaction_def log_lock_def tagsistant_db_connection_def)
qed

theorem services_start_witness:
  "\<exists>w'. start_services sample_env TAGSISTANT_DBI_SQLITE_BACKEND old_catalog ((sample_world empty_db [])\<lparr>pool := 1\<rparr>)
      = Done (fst (tagsistant_create_schema TAGSISTANT_DBI_SQLITE_BACKEND old_catalog ((sample_world empty_db [])\<lparr>pool := 1\<rparr>)), w') \<and>
    lock_log w' = [Writer_lock, Writer_unlock, Reader_lock, Writer_unlock]"
  using services_start[of sample_env "(sample_world empty_db [])\<lparr>pool := 1\<rparr>" TAGSISTANT_DBI_SQLITE_BACKEND old_catalog]
  by (auto simp: empty_db_def)

end
