(* ===== verification/Fuse_Opt.thy ===== *)
theory Fuse_Opt
  imports Startup
begin

section \<open>The FUSE option parser\<close>

text \<open>
  \<^verbatim>\<open>src/src/compat/fuse_opt.c\<close>, the parser for systems whose FUSE library has none, and the
  constants of \<^verbatim>\<open>fuse_opt.h\<close>. Memory never runs out and strings are shorter than \<^verbatim>\<open>INT_MAX\<close>.
  A failed assertion ends the process and is \<open>Segv\<close>. What is printed is left out.
\<close>

subsection \<open>Arguments and templates\<close>

record fuse_args =
  fa_argv :: "string list option"
  fa_allocated :: bool

definition fa_list :: "fuse_args \<Rightarrow> string list" where
  "fa_list args = (case fa_argv args of None \<Rightarrow> [] | Some l \<Rightarrow> l)"

definition fuse_opt_add_arg :: "fuse_args \<Rightarrow> string \<Rightarrow> fuse_args run" where
  "fuse_opt_add_arg args arg =
     (if fa_argv args \<noteq> None \<and> \<not> fa_allocated args then Segv
      else Done \<lparr>fa_argv = Some (fa_list args @ [arg]), fa_allocated = True\<rparr>)"

definition fuse_opt_insert_arg :: "fuse_args \<Rightarrow> nat \<Rightarrow> string \<Rightarrow> fuse_args run" where
  "fuse_opt_insert_arg args pos arg =
     (if pos > length (fa_list args) then Segv
      else run_bind (fuse_opt_add_arg args arg)
        (\<lambda>a. Done (if pos \<noteq> length (fa_list a) - 1
           then a\<lparr>fa_argv := Some (take pos (fa_list a) @ last (fa_list a) # butlast (drop pos (fa_list a)))\<rparr> else a)))"

definition fuse_opt_add_opt :: "gchars \<Rightarrow> string \<Rightarrow> gchars" where
  "fuse_opt_add_opt opts opt = (case opts of None \<Rightarrow> Some opt | Some s \<Rightarrow> Some (s @ '','' @ opt))"

definition fuse_opt_free_args :: "fuse_args \<Rightarrow> fuse_args" where
  "fuse_opt_free_args args =
     (if fa_argv args \<noteq> None \<and> fa_allocated args then args\<lparr>fa_argv := None, fa_allocated := False\<rparr> else args)"

text \<open>The user's structure is a map from offsets to the variables there.\<close>

datatype variable = Int_var int | String_var string

type_synonym user_data = "nat \<Rightarrow> variable"

record fuse_opt =
  op_templ :: string
  op_offset :: nat
  op_value :: int

text \<open>The offset \<^verbatim>\<open>-1U\<close>, and the keys of the processing function.\<close>

definition NO_OFFSET :: nat where "NO_OFFSET = 4294967295"

definition FUSE_OPT_KEY_OPT :: int where "FUSE_OPT_KEY_OPT = -1"

definition FUSE_OPT_KEY_NONOPT :: int where "FUSE_OPT_KEY_NONOPT = -2"

definition FUSE_OPT_KEY_KEEP :: int where "FUSE_OPT_KEY_KEEP = -3"

definition FUSE_OPT_KEY_DISCARD :: int where "FUSE_OPT_KEY_DISCARD = -4"

text \<open>The processing function, and \<^verbatim>\<open>sscanf\<close> with one conversion: the variable it stores, if it does.\<close>

type_synonym fuse_opt_proc = "user_data \<Rightarrow> string \<Rightarrow> int \<Rightarrow> fuse_args \<Rightarrow> int \<times> user_data \<times> fuse_args"

record fuse_opt_context =
  cx_data :: user_data
  cx_opt :: "fuse_opt list"
  cx_proc :: "fuse_opt_proc option"
  cx_sscanf :: "string \<Rightarrow> string \<Rightarrow> variable option"
  cx_argctr :: nat
  cx_argv :: "string list"
  cx_outargs :: fuse_args
  cx_opts :: gchars
  cx_nonopt :: nat

definition next_arg :: "fuse_opt_context \<Rightarrow> int \<times> fuse_opt_context" where
  "next_arg ctx = (if cx_argctr ctx + 1 \<ge> length (cx_argv ctx) then (-1, ctx) else (0, ctx\<lparr>cx_argctr := cx_argctr ctx + 1\<rparr>))"

definition add_arg :: "fuse_opt_context \<Rightarrow> string \<Rightarrow> (int \<times> fuse_opt_context) run" where
  "add_arg ctx arg = run_bind (fuse_opt_add_arg (cx_outargs ctx) arg) (\<lambda>a. Done (0, ctx\<lparr>cx_outargs := a\<rparr>))"

definition add_opt :: "fuse_opt_context \<Rightarrow> string \<Rightarrow> int \<times> fuse_opt_context" where
  "add_opt ctx opt = (0, ctx\<lparr>cx_opts := fuse_opt_add_opt (cx_opts ctx) opt\<rparr>)"

definition call_proc :: "fuse_opt_context \<Rightarrow> string \<Rightarrow> int \<Rightarrow> bool \<Rightarrow> (int \<times> fuse_opt_context) run" where
  "call_proc ctx arg key is_o =
     (if key = FUSE_OPT_KEY_DISCARD then Done (0, ctx)
      else let keep = (\<lambda>c. if is_o then Done (add_opt c arg) else add_arg c arg)
        in case (if key = FUSE_OPT_KEY_KEEP then None else cx_proc ctx) of
             None \<Rightarrow> keep ctx
           | Some proc \<Rightarrow>
               let (res, d, a) = proc (cx_data ctx) arg key (cx_outargs ctx);
                   ctx1 = ctx\<lparr>cx_data := d, cx_outargs := a\<rparr>
               in if res = -1 \<or> res = 0 then Done (res, ctx1) else keep ctx1)"

text \<open>The index of the first occurrence of a character.\<close>

definition strchr :: "string \<Rightarrow> char \<Rightarrow> nat option" where
  "strchr s c = (if c \<in> set s then Some (length (takeWhile (\<lambda>x. x \<noteq> c) s)) else None)"

text \<open>\<open>Some sep\<close> is a match with the separator at \<open>sep\<close>, 0 without one.\<close>

definition match_template :: "string \<Rightarrow> string \<Rightarrow> nat option" where
  "match_template t arg =
     (let sep = (case strchr t (CHR ''='') of None \<Rightarrow> strchr t (CHR '' '') | s \<Rightarrow> s);
          exact = (if t = arg then Some 0 else None)
      in case sep of None \<Rightarrow> exact
         | Some n \<Rightarrow>
             if drop (n + 1) t = '''' \<or> hd (drop (n + 1) t) = CHR ''%''
             then let tlen = (if t ! n = CHR ''='' then n + 1 else n)
                  in if length arg \<ge> tlen \<and> take tlen arg = take tlen t then Some n else exact
             else exact)"

text \<open>The array from the matching element on.\<close>

fun find_opt :: "fuse_opt list \<Rightarrow> string \<Rightarrow> (fuse_opt list \<times> nat) option" where
  "find_opt [] arg = None"
| "find_opt (opt # rest) arg = (case match_template (op_templ opt) arg of Some sep \<Rightarrow> Some (opt # rest, sep) | None \<Rightarrow> find_opt rest arg)"

definition fuse_opt_match :: "fuse_opt list \<Rightarrow> string \<Rightarrow> int" where
  "fuse_opt_match opts opt = (if find_opt opts opt \<noteq> None then 1 else 0)"

subsection \<open>Processing\<close>

definition process_opt_param :: "fuse_opt_context \<Rightarrow> nat \<Rightarrow> string \<Rightarrow> string \<Rightarrow> (int \<times> fuse_opt_context) run" where
  "process_opt_param ctx offset format param =
     (if format = '''' \<or> hd format \<noteq> CHR ''%'' then Segv
      else if prefix ''%s'' format then Done (0, ctx\<lparr>cx_data := (cx_data ctx)(offset := String_var param)\<rparr>)
      else case cx_sscanf ctx param format of
             None \<Rightarrow> Done (-1, ctx)
           | Some v \<Rightarrow> Done (0, ctx\<lparr>cx_data := (cx_data ctx)(offset := v)\<rparr>))"

definition process_opt :: "fuse_opt_context \<Rightarrow> fuse_opt \<Rightarrow> nat \<Rightarrow> string \<Rightarrow> bool \<Rightarrow> (int \<times> fuse_opt_context) run" where
  "process_opt ctx opt sep arg is_o =
     (if op_offset opt = NO_OFFSET
      then run_bind (call_proc ctx arg (op_value opt) is_o) (\<lambda>(res, c). Done (if res = -1 then -1 else 0, c))
      else if sep \<noteq> 0 \<and> drop (sep + 1) (op_templ opt) \<noteq> ''''
      then process_opt_param ctx (op_offset opt) (drop (sep + 1) (op_templ opt))
             (if op_templ opt ! sep = CHR ''='' then drop (sep + 1) arg else drop sep arg)
      else Done (0, ctx\<lparr>cx_data := (cx_data ctx)(op_offset opt := Int_var (op_value opt))\<rparr>))"

definition process_opt_sep_arg :: "fuse_opt_context \<Rightarrow> fuse_opt \<Rightarrow> nat \<Rightarrow> string \<Rightarrow> bool \<Rightarrow> (int \<times> fuse_opt_context) run" where
  "process_opt_sep_arg ctx opt sep arg is_o =
     (let (res, c) = next_arg ctx
      in if res = -1 then Done (-1, c)
         else process_opt c opt sep (take sep arg @ cx_argv c ! cx_argctr c) is_o)"

text \<open>The loop over the matches: an element of the array that does not match is passed over.\<close>

fun process_matches :: "fuse_opt_context \<Rightarrow> fuse_opt list \<Rightarrow> string \<Rightarrow> bool \<Rightarrow> (int \<times> fuse_opt_context) run" where
  "process_matches ctx [] arg is_o = Done (0, ctx)"
| "process_matches ctx (opt # rest) arg is_o =
     (case match_template (op_templ opt) arg of
        None \<Rightarrow> process_matches ctx rest arg is_o
      | Some sep \<Rightarrow>
          (case (if sep \<noteq> 0 \<and> op_templ opt ! sep = CHR '' '' \<and> drop sep arg = ''''
                 then process_opt_sep_arg ctx opt sep arg is_o else process_opt ctx opt sep arg is_o) of
             Segv \<Rightarrow> Segv | Hang \<Rightarrow> Hang
           | Done (res, c) \<Rightarrow> if res = -1 then Done (-1, c) else process_matches c rest arg is_o))"

definition process_gopt :: "fuse_opt_context \<Rightarrow> string \<Rightarrow> bool \<Rightarrow> (int \<times> fuse_opt_context) run" where
  "process_gopt ctx arg is_o =
     (case find_opt (cx_opt ctx) arg of
        Some (found, sep) \<Rightarrow> process_matches ctx found arg is_o
      | None \<Rightarrow> call_proc ctx arg FUSE_OPT_KEY_OPT is_o)"

text \<open>The parts of a list between its commas, all of them.\<close>

fun process_parts :: "fuse_opt_context \<Rightarrow> string list \<Rightarrow> (int \<times> fuse_opt_context) run" where
  "process_parts ctx [] = Done (0, ctx)"
| "process_parts ctx (part # parts) =
     run_bind (process_gopt ctx part True) (\<lambda>(res, c). if res = -1 then Done (-1, c) else process_parts c parts)"

definition process_real_option_group :: "fuse_opt_context \<Rightarrow> string \<Rightarrow> (int \<times> fuse_opt_context) run" where
  "process_real_option_group ctx opts = process_parts ctx (split_upto (length opts) (CHR '','') opts)"

definition process_option_group :: "fuse_opt_context \<Rightarrow> string \<Rightarrow> (int \<times> fuse_opt_context) run" where
  "process_option_group ctx opts =
     (if strchr opts (CHR '','') = None then process_gopt ctx opts True else process_real_option_group ctx opts)"

definition process_one :: "fuse_opt_context \<Rightarrow> string \<Rightarrow> (int \<times> fuse_opt_context) run" where
  "process_one ctx arg =
     (if cx_nonopt ctx \<noteq> 0 \<or> \<not> prefix ''-'' arg then call_proc ctx arg FUSE_OPT_KEY_NONOPT False
      else if prefix ''-o'' arg
      then (if drop 2 arg \<noteq> '''' then process_option_group ctx (drop 2 arg)
            else let (res, c) = next_arg ctx
                 in if res = -1 then Done (-1, c) else process_option_group c (cx_argv c ! cx_argctr c))
      else if arg = ''--''
      then run_bind (add_arg ctx arg) (\<lambda>(_, c). Done (0, c\<lparr>cx_nonopt := length (fa_list (cx_outargs c))\<rparr>))
      else process_gopt ctx arg False)"

text \<open>What every step keeps: the arguments, the templates and the functions; the counter never goes back.\<close>

definition frame :: "fuse_opt_context \<Rightarrow> fuse_opt_context \<Rightarrow> bool" where
  "frame c c' \<longleftrightarrow> cx_argv c' = cx_argv c \<and> cx_opt c' = cx_opt c \<and> cx_proc c' = cx_proc c \<and> cx_argctr c \<le> cx_argctr c'"

lemma frame_refl [simp]: "frame c c"
  by (simp add: frame_def)

lemma frame_trans: "frame a b \<Longrightarrow> frame b c \<Longrightarrow> frame a c"
  by (simp add: frame_def)

lemma frame_updates [simp]:
  "frame c (d\<lparr>cx_data := x\<rparr>) = frame c d" "frame c (d\<lparr>cx_outargs := y\<rparr>) = frame c d"
  "frame c (d\<lparr>cx_opts := z\<rparr>) = frame c d" "frame c (d\<lparr>cx_nonopt := n\<rparr>) = frame c d"
  by (simp_all add: frame_def)

lemma add_arg_frame: "add_arg ctx arg = Done (r, c) \<Longrightarrow> frame ctx c"
  by (auto simp: add_arg_def run_bind_Done_iff)

lemma next_arg_frame: "frame ctx (snd (next_arg ctx))"
  by (simp add: next_arg_def frame_def)

lemma call_proc_frame: "call_proc ctx arg key is_o = Done (r, c) \<Longrightarrow> frame ctx c"
proof -
  have keep: "(if is_o then Done (add_opt d arg) else add_arg d arg) = Done (r, c) \<Longrightarrow> frame ctx d \<Longrightarrow> frame ctx c" for d
    using add_arg_frame[of d arg r c] by (auto simp: add_opt_def split: if_splits intro: frame_trans)
  show "call_proc ctx arg key is_o = Done (r, c) \<Longrightarrow> frame ctx c"
    by (auto simp: call_proc_def Let_def split: if_splits option.splits prod.splits intro: keep)
qed

lemma process_opt_frame: "process_opt ctx opt sep arg is_o = Done (r, c) \<Longrightarrow> frame ctx c"
  by (auto simp: process_opt_def process_opt_param_def run_bind_Done_iff split: if_splits option.splits dest: call_proc_frame)

lemma process_opt_sep_arg_frame: "process_opt_sep_arg ctx opt sep arg is_o = Done (r, c) \<Longrightarrow> frame ctx c"
  using next_arg_frame[of ctx]
  by (auto simp: process_opt_sep_arg_def Let_def split_beta split: if_splits dest: process_opt_frame intro: frame_trans)

lemma process_matches_frame: "process_matches ctx opts arg is_o = Done (r, c) \<Longrightarrow> frame ctx c"
proof (induction ctx opts arg is_o rule: process_matches.induct)
  case (2 ctx opt rest arg is_o)
  show ?case
  proof (cases "match_template (op_templ opt) arg")
    case None
    then show ?thesis using 2 by simp
  next
    case (Some sep)
    let ?one = "if sep \<noteq> 0 \<and> op_templ opt ! sep = CHR '' '' \<and> drop sep arg = ''''
        then process_opt_sep_arg ctx opt sep arg is_o else process_opt ctx opt sep arg is_o"
    obtain r1 c1 where one: "?one = Done (r1, c1)" and rest: "(if r1 = -1 then Done (-1, c1) else process_matches c1 rest arg is_o) = Done (r, c)"
      using "2.prems" Some by (cases ?one) auto
    have f: "frame ctx c1" using one process_opt_frame process_opt_sep_arg_frame by (metis (full_types))
    show ?thesis
    proof (cases "r1 = -1")
      case False
      show ?thesis using frame_trans[OF f "2.IH"(2)[OF Some one refl False]] rest False by simp
    qed (use rest f in simp)
  qed
qed simp

lemma process_gopt_frame: "process_gopt ctx arg is_o = Done (r, c) \<Longrightarrow> frame ctx c"
  by (auto simp: process_gopt_def split: option.splits prod.splits dest: process_matches_frame call_proc_frame)

lemma process_parts_frame: "process_parts ctx parts = Done (r, c) \<Longrightarrow> frame ctx c"
  by (induction parts arbitrary: ctx)
    (auto simp: run_bind_Done_iff split: if_splits prod.splits dest!: process_gopt_frame intro: frame_trans)

lemma process_option_group_frame: "process_option_group ctx opts = Done (r, c) \<Longrightarrow> frame ctx c"
  by (auto simp: process_option_group_def process_real_option_group_def split: if_splits dest: process_gopt_frame process_parts_frame)

lemma process_one_frame: "process_one ctx arg = Done (r, c) \<Longrightarrow> frame ctx c"
  using next_arg_frame[of ctx]
  by (auto simp: process_one_def Let_def split_beta run_bind_Done_iff split: if_splits
      dest: call_proc_frame process_option_group_frame process_gopt_frame add_arg_frame intro: frame_trans)

text \<open>The loop of \<^verbatim>\<open>opt_parse\<close>; an option may take the next argument, so the counter is in the state.\<close>

function process_all :: "fuse_opt_context \<Rightarrow> (int \<times> fuse_opt_context) run" where
  "process_all ctx =
     (if cx_argctr ctx < length (cx_argv ctx)
      then case process_one ctx (cx_argv ctx ! cx_argctr ctx) of
             Segv \<Rightarrow> Segv | Hang \<Rightarrow> Hang
           | Done (res, c) \<Rightarrow> if res = -1 then Done (-1, c) else process_all (c\<lparr>cx_argctr := cx_argctr c + 1\<rparr>)
      else Done (0, ctx))"
  by pat_completeness auto

termination
proof (relation "measure (\<lambda>ctx. length (cx_argv ctx) - cx_argctr ctx)")
  fix ctx x res c
  assume a: "cx_argctr ctx < length (cx_argv ctx)" "process_one ctx (cx_argv ctx ! cx_argctr ctx) = Done x" "(res, c) = x"
  then have "frame ctx c" using process_one_frame by blast
  with a show "(c\<lparr>cx_argctr := cx_argctr c + 1\<rparr>, ctx) \<in> measure (\<lambda>ctx. length (cx_argv ctx) - cx_argctr ctx)"
    by (auto simp: frame_def)
qed simp

declare process_all.simps [simp del]

definition insert_options :: "fuse_opt_context \<Rightarrow> fuse_opt_context run" where
  "insert_options ctx =
     (case cx_opts ctx of None \<Rightarrow> Done ctx
      | Some opts \<Rightarrow>
          run_bind (fuse_opt_insert_arg (cx_outargs ctx) 1 ''-o'')
            (\<lambda>a. run_bind (fuse_opt_insert_arg a 2 opts) (\<lambda>b. Done (ctx\<lparr>cx_outargs := b\<rparr>))))"

definition opt_parse :: "fuse_opt_context \<Rightarrow> (int \<times> fuse_opt_context) run" where
  "opt_parse ctx =
     run_bind (if cx_argv ctx \<noteq> [] then add_arg ctx (hd (cx_argv ctx)) else Done (0, ctx))
       (\<lambda>(_, c1). run_bind (process_all (c1\<lparr>cx_argctr := 1\<rparr>))
         (\<lambda>(res, c2). if res = -1 then Done (-1, c2)
            else run_bind (insert_options c2)
              (\<lambda>c3. Done (0, if cx_nonopt c3 \<noteq> 0 \<and> cx_nonopt c3 = length (fa_list (cx_outargs c3))
                 then c3\<lparr>cx_outargs := (cx_outargs c3)\<lparr>fa_argv := Some (butlast (fa_list (cx_outargs c3)))\<rparr>\<rparr> else c3))))"

text \<open>The result, the user's structure and the arguments, which an error leaves as they are.\<close>

definition fuse_opt_parse :: "(string \<Rightarrow> string \<Rightarrow> variable option) \<Rightarrow> fuse_args \<Rightarrow> user_data \<Rightarrow> fuse_opt list
    \<Rightarrow> fuse_opt_proc option \<Rightarrow> (int \<times> user_data \<times> fuse_args) run" where
  "fuse_opt_parse scan args data opts proc =
     (if fa_list args = [] then Done (0, data, args)
      else run_bind (opt_parse \<lparr>cx_data = data, cx_opt = opts, cx_proc = proc, cx_sscanf = scan, cx_argctr = 0, cx_argv = fa_list args,
             cx_outargs = \<lparr>fa_argv = None, fa_allocated = False\<rparr>, cx_opts = None, cx_nonopt = 0\<rparr>)
        (\<lambda>(res, c). Done (res, cx_data c, if res = -1 then args else cx_outargs c)))"

subsection \<open>Parsing without templates\<close>

text \<open>
  What the parser is for, said at once: it moves the options of \<^verbatim>\<open>-o\<close> to the front, as one
  list, and leaves the other arguments and what follows \<^verbatim>\<open>--\<close> in order. The specification splits the
  arguments into the options, the arguments before \<^verbatim>\<open>--\<close> and those after it; \<open>None\<close> is a
  last \<^verbatim>\<open>-o\<close> without its option.
\<close>

fun split_args :: "string list \<Rightarrow> (string list \<times> string list \<times> string list option) option" where
  "split_args [] = Some ([], [], None)"
| "split_args (a # as) =
     (if a = ''-o'' then (case as of [] \<Rightarrow> None | b # bs \<Rightarrow> map_option (\<lambda>(os, xs, r). (b # os, xs, r)) (split_args bs))
      else if prefix ''-o'' a then map_option (\<lambda>(os, xs, r). (drop 2 a # os, xs, r)) (split_args as)
      else if a = ''--'' then Some ([], [], Some as)
      else map_option (\<lambda>(os, xs, r). (os, a # xs, r)) (split_args as))"

definition plain_arguments :: "string \<Rightarrow> string list \<times> string list \<times> string list option \<Rightarrow> string list" where
  "plain_arguments first p =
     (let (os, xs, r) = p
      in first # (if os = [] then [] else [''-o'', g_strjoinv (CHR '','') os]) @ xs @
         (case r of None \<Rightarrow> [] | Some l \<Rightarrow> if os = [] \<and> l = [] then [] else ''--'' # l))"

definition plain_context :: "fuse_opt_context \<Rightarrow> string list \<Rightarrow> bool" where
  "plain_context c xs \<longleftrightarrow> cx_opt c = [] \<and> cx_proc c = None \<and> cx_outargs c = \<lparr>fa_argv = Some xs, fa_allocated = True\<rparr>"

definition out :: "fuse_opt_context \<Rightarrow> string list \<Rightarrow> fuse_opt_context" where
  "out c xs = c\<lparr>cx_outargs := \<lparr>fa_argv = Some xs, fa_allocated = True\<rparr>\<rparr>"

lemma out_simps [simp]: "cx_argv (out c xs) = cx_argv c" "cx_argctr (out c xs) = cx_argctr c" "cx_opts (out c xs) = cx_opts c"
    "cx_nonopt (out c xs) = cx_nonopt c" "cx_data (out c xs) = cx_data c" "cx_opt (out c xs) = cx_opt c" "cx_proc (out c xs) = cx_proc c"
    "cx_outargs (out c xs) = \<lparr>fa_argv = Some xs, fa_allocated = True\<rparr>" "cx_sscanf (out c xs) = cx_sscanf c"
  by (simp_all add: out_def)

lemma plain_add_arg: "plain_context c xs \<Longrightarrow> add_arg c a = Done (0, out c (xs @ [a]))"
  by (simp add: plain_context_def add_arg_def fuse_opt_add_arg_def fa_list_def out_def)

lemma plain_call_proc:
  assumes "plain_context c xs" "key \<noteq> FUSE_OPT_KEY_DISCARD"
  shows "call_proc c a key is_o = Done (0, if is_o then c\<lparr>cx_opts := fuse_opt_add_opt (cx_opts c) a\<rparr> else out c (xs @ [a]))"
proof -
  have "cx_proc c = None" using assms(1) by (simp add: plain_context_def)
  then show ?thesis using assms(2) plain_add_arg[OF assms(1), of a] by (simp add: call_proc_def add_opt_def)
qed

lemma plain_gopt:
  assumes "plain_context c xs"
  shows "process_gopt c a is_o = Done (0, if is_o then c\<lparr>cx_opts := fuse_opt_add_opt (cx_opts c) a\<rparr> else out c (xs @ [a]))"
proof -
  have "cx_opt c = []" using assms by (simp add: plain_context_def)
  moreover have "FUSE_OPT_KEY_OPT \<noteq> FUSE_OPT_KEY_DISCARD" by (simp add: FUSE_OPT_KEY_OPT_def FUSE_OPT_KEY_DISCARD_def)
  ultimately show ?thesis using plain_call_proc[OF assms] by (simp add: process_gopt_def)
qed

lemma plain_context_opts [simp]: "plain_context (c\<lparr>cx_opts := o1\<rparr>) xs = plain_context c xs"
  "plain_context (c\<lparr>cx_argctr := n\<rparr>) xs = plain_context c xs" "plain_context (c\<lparr>cx_nonopt := m\<rparr>) xs = plain_context c xs"
  by (simp_all add: plain_context_def)

lemma plain_context_out: "plain_context c xs \<Longrightarrow> plain_context (out c ys) ys"
  by (simp add: plain_context_def)

lemma add_opt_join: "ss \<noteq> [] \<Longrightarrow> fold (\<lambda>s o1. fuse_opt_add_opt o1 s) ss o1 = fuse_opt_add_opt o1 (g_strjoinv (CHR '','') ss)"
proof (induction ss arbitrary: o1)
  case (Cons s ss)
  then show ?case by (cases "ss = []") (simp_all add: fuse_opt_add_opt_def g_strjoinv_Cons split: option.splits)
qed simp

lemma plain_parts:
  "plain_context c xs \<Longrightarrow> process_parts c ss = Done (0, c\<lparr>cx_opts := fold (\<lambda>s o1. fuse_opt_add_opt o1 s) ss (cx_opts c)\<rparr>)"
  by (induction ss arbitrary: c) (simp_all add: plain_gopt)

lemma plain_group: "plain_context c xs \<Longrightarrow> process_option_group c s = Done (0, c\<lparr>cx_opts := fuse_opt_add_opt (cx_opts c) s\<rparr>)"
  by (simp add: process_option_group_def process_real_option_group_def plain_gopt plain_parts add_opt_join joinv_split)

text \<open>The arguments after \<^verbatim>\<open>--\<close>.\<close>

lemma plain_after:
  "plain_context c xs \<Longrightarrow> cx_nonopt c \<noteq> 0 \<Longrightarrow> drop (cx_argctr c) (cx_argv c) = as \<Longrightarrow>
     \<exists>k. process_all c = Done (0, (out c (xs @ as))\<lparr>cx_argctr := k\<rparr>)"
proof (induction as arbitrary: c xs)
  case Nil
  then have "process_all c = Done (0, c)" by (simp add: process_all.simps)
  moreover have "c = (out c xs)\<lparr>cx_argctr := cx_argctr c\<rparr>" using Nil(1) by (simp add: plain_context_def out_def)
  ultimately show ?case by (metis append_Nil2)
next
  case (Cons a as)
  have l: "cx_argctr c < length (cx_argv c)" using Cons.prems(3) by (metis drop_all leI list.distinct(1))
  then have e: "cx_argv c ! cx_argctr c = a" "drop (Suc (cx_argctr c)) (cx_argv c) = as"
    using Cons.prems(3) by (metis Cons_nth_drop_Suc list.inject)+
  have one: "process_one c a = Done (0, out c (xs @ [a]))"
    using plain_call_proc[OF Cons.prems(1), of FUSE_OPT_KEY_NONOPT a False] Cons.prems(2)
    by (simp add: process_one_def FUSE_OPT_KEY_NONOPT_def FUSE_OPT_KEY_DISCARD_def)
  let ?c1 = "(out c (xs @ [a]))\<lparr>cx_argctr := Suc (cx_argctr c)\<rparr>"
  have "\<exists>k. process_all ?c1 = Done (0, (out ?c1 ((xs @ [a]) @ as))\<lparr>cx_argctr := k\<rparr>)"
    using Cons.prems(2) e(2) plain_context_out[OF Cons.prems(1)] by (intro Cons.IH) simp_all
  moreover have "process_all c = process_all ?c1" by (subst process_all.simps) (simp add: l e one)
  ultimately show ?case by (simp add: out_def)
qed

text \<open>The context at the end of the loop.\<close>

definition done_with :: "fuse_opt_context \<Rightarrow> string list \<Rightarrow> gchars \<Rightarrow> nat \<Rightarrow> nat \<Rightarrow> fuse_opt_context" where
  "done_with c ys o1 n k = c\<lparr>cx_outargs := \<lparr>fa_argv = Some ys, fa_allocated = True\<rparr>, cx_opts := o1, cx_nonopt := n, cx_argctr := k\<rparr>"

lemma done_with_simps [simp]:
  "done_with (out c zs) ys o1 n k = done_with c ys o1 n k" "done_with (c\<lparr>cx_argctr := j\<rparr>) ys o1 n k = done_with c ys o1 n k"
  "done_with (c\<lparr>cx_opts := p\<rparr>) ys o1 n k = done_with c ys o1 n k" "done_with (c\<lparr>cx_nonopt := m\<rparr>) ys o1 n k = done_with c ys o1 n k"
  "cx_data (done_with c ys o1 n k) = cx_data c" "cx_opts (done_with c ys o1 n k) = o1" "cx_nonopt (done_with c ys o1 n k) = n"
  "cx_outargs (done_with c ys o1 n k) = \<lparr>fa_argv = Some ys, fa_allocated = True\<rparr>"
  by (simp_all add: done_with_def out_def)

lemma out_done: "(out c ys)\<lparr>cx_argctr := k\<rparr> = done_with c ys (cx_opts c) (cx_nonopt c) k"
  by (cases c) (simp add: out_def done_with_def)

lemma drop_Cons_nth:
  assumes "drop n xs = a # as"
  shows "n < length xs" "xs ! n = a" "drop (Suc n) xs = as"
proof -
  show l: "n < length xs" using assms by (metis drop_all leI list.distinct(1))
  show "xs ! n = a" "drop (Suc n) xs = as" using assms l by (metis Cons_nth_drop_Suc list.inject)+
qed

definition loop_result :: "fuse_opt_context \<Rightarrow> string list \<Rightarrow> string list \<Rightarrow> bool" where
  "loop_result c xs as \<longleftrightarrow>
     (case split_args as of
        None \<Rightarrow> \<exists>c'. process_all c = Done (-1, c') \<and> cx_data c' = cx_data c
      | Some (os, ys, r) \<Rightarrow> \<exists>k. process_all c = Done (0, done_with c (xs @ ys @ (case r of None \<Rightarrow> [] | Some l \<Rightarrow> ''--'' # l))
          (fold (\<lambda>s o1. fuse_opt_add_opt o1 s) os (cx_opts c))
          (case r of None \<Rightarrow> 0 | Some l \<Rightarrow> length xs + length ys + 1) k))"

lemma loop_option:
  assumes "loop_result (c\<lparr>cx_opts := fuse_opt_add_opt (cx_opts c) s, cx_argctr := j\<rparr>) xs as"
    and "process_all c = process_all (c\<lparr>cx_opts := fuse_opt_add_opt (cx_opts c) s, cx_argctr := j\<rparr>)"
    and "split_args bs = map_option (\<lambda>(os, xs, r). (s # os, xs, r)) (split_args as)"
  shows "loop_result c xs bs"
proof (cases "split_args as")
  case None
  then show ?thesis using assms by (simp add: loop_result_def)
next
  case (Some p)
  then show ?thesis using assms by (cases p) (simp add: loop_result_def)
qed

lemma loop_argument:
  assumes "loop_result ((out c (xs @ [a]))\<lparr>cx_argctr := j\<rparr>) (xs @ [a]) as"
    and "process_all c = process_all ((out c (xs @ [a]))\<lparr>cx_argctr := j\<rparr>)"
    and "split_args bs = map_option (\<lambda>(os, xs, r). (os, a # xs, r)) (split_args as)"
  shows "loop_result c xs bs"
proof (cases "split_args as")
  case None
  then show ?thesis using assms by (simp add: loop_result_def)
next
  case (Some p)
  then show ?thesis using assms by (cases p) (simp add: loop_result_def split: option.splits)
qed

lemma plain_one:
  assumes "plain_context c xs" "cx_nonopt c = 0"
  shows "prefix ''-o'' a \<Longrightarrow> drop 2 a \<noteq> '''' \<Longrightarrow> process_one c a = Done (0, c\<lparr>cx_opts := fuse_opt_add_opt (cx_opts c) (drop 2 a)\<rparr>)"
    and "\<not> prefix ''-o'' a \<Longrightarrow> a \<noteq> ''--'' \<Longrightarrow> process_one c a = Done (0, out c (xs @ [a]))"
    and "process_one c ''--'' = Done (0, (out c (xs @ [''--'']))\<lparr>cx_nonopt := length xs + 1\<rparr>)"
proof -
  show "process_one c a = Done (0, c\<lparr>cx_opts := fuse_opt_add_opt (cx_opts c) (drop 2 a)\<rparr>)" if "prefix ''-o'' a" "drop 2 a \<noteq> ''''"
  proof -
    have "prefix ''-'' a" using that(1) by (cases a) simp_all
    then show ?thesis using that assms(2) plain_group[OF assms(1)] by (simp add: process_one_def)
  qed
  show "process_one c a = Done (0, out c (xs @ [a]))" if "\<not> prefix ''-o'' a" "a \<noteq> ''--''"
    using that assms(2) plain_gopt[OF assms(1), of a False] plain_call_proc[OF assms(1), of FUSE_OPT_KEY_NONOPT a False]
    by (simp add: process_one_def FUSE_OPT_KEY_NONOPT_def FUSE_OPT_KEY_DISCARD_def)
  show "process_one c ''--'' = Done (0, (out c (xs @ [''--'']))\<lparr>cx_nonopt := length xs + 1\<rparr>)"
    using assms(2) plain_add_arg[OF assms(1)] by (simp add: process_one_def fa_list_def)
qed

lemma plain_all:
  assumes "plain_context c xs" "cx_nonopt c = 0" "drop (cx_argctr c) (cx_argv c) = as"
  shows "loop_result c xs as"
  using assms
proof (induction as arbitrary: c xs rule: split_args.induct)
  case 1
  then have "process_all c = Done (0, c)" by (simp add: process_all.simps)
  moreover have "c = done_with c xs (cx_opts c) 0 (cx_argctr c)" using 1 by (cases c) (simp add: plain_context_def done_with_def)
  ultimately show ?case by (auto simp: loop_result_def intro!: exI[of _ "cx_argctr c"])
next
  case (2 a as)
  note d = drop_Cons_nth[OF "2.prems"(3)]
  have step: "process_all c = (case process_one c a of Segv \<Rightarrow> Segv | Hang \<Rightarrow> Hang
       | Done (res, c) \<Rightarrow> if res = -1 then Done (-1, c) else process_all (c\<lparr>cx_argctr := cx_argctr c + 1\<rparr>))"
    by (subst process_all.simps) (simp add: d)
  note one = plain_one[OF "2.prems"(1,2)]
  consider (o1) "a = ''-o''" | (o2) "a \<noteq> ''-o''" "prefix ''-o'' a" | (dd) "a = ''--''" | (arg) "\<not> prefix ''-o'' a" "a \<noteq> ''--''" by fastforce
  then show ?case
  proof cases
    case o1
    show ?thesis
    proof (cases as)
      case Nil
      then have "length (cx_argv c) = Suc (cx_argctr c)" using d by (metis Suc_leI drop_eq_Nil le_antisym)
      then have "process_one c a = Done (-1, c)" using "2.prems"(2) by (simp add: o1 process_one_def next_arg_def)
      then show ?thesis using step Nil by (simp add: loop_result_def o1)
    next
      case (Cons b bs)
      note d2 = drop_Cons_nth[OF d(3)[unfolded Cons]]
      let ?c1 = "c\<lparr>cx_argctr := Suc (cx_argctr c)\<rparr>"
      have "process_one c a = Done (0, c\<lparr>cx_argctr := Suc (cx_argctr c), cx_opts := fuse_opt_add_opt (cx_opts c) b\<rparr>)"
        using "2.prems"(1,2) d2 plain_group[of ?c1 xs b] by (simp add: o1 process_one_def next_arg_def)
      then have e: "process_all c = process_all (c\<lparr>cx_opts := fuse_opt_add_opt (cx_opts c) b, cx_argctr := Suc (Suc (cx_argctr c))\<rparr>)"
        by (simp add: step)
      have "loop_result (c\<lparr>cx_opts := fuse_opt_add_opt (cx_opts c) b, cx_argctr := Suc (Suc (cx_argctr c))\<rparr>) xs bs"
        using "2.prems"(1,2) d2(3) by (intro "2.IH"(1)[OF o1 Cons]) simp_all
      from loop_option[OF this e] show ?thesis by (simp add: o1 Cons)
    qed
  next
    case o2
    have ne: "drop 2 a \<noteq> ''''" using o2 by (auto simp: prefix_def)
    have e: "process_all c = process_all (c\<lparr>cx_opts := fuse_opt_add_opt (cx_opts c) (drop 2 a), cx_argctr := Suc (cx_argctr c)\<rparr>)"
      using one(1)[OF o2(2) ne] by (simp add: step)
    have "loop_result (c\<lparr>cx_opts := fuse_opt_add_opt (cx_opts c) (drop 2 a), cx_argctr := Suc (cx_argctr c)\<rparr>) xs as"
      using "2.prems"(1,2) d(3) by (intro "2.IH"(2)[OF o2]) simp_all
    from loop_option[OF this e] show ?thesis using o2 by simp
  next
    case dd
    let ?c1 = "(out c (xs @ [''--'']))\<lparr>cx_nonopt := length xs + 1, cx_argctr := Suc (cx_argctr c)\<rparr>"
    have "process_all c = process_all ?c1" using one(3) by (simp add: step dd)
    moreover have "\<exists>k. process_all ?c1 = Done (0, (out ?c1 ((xs @ [''--'']) @ as))\<lparr>cx_argctr := k\<rparr>)"
      using d(3) plain_context_out[OF "2.prems"(1)] by (intro plain_after) simp_all
    ultimately show ?thesis by (auto simp: loop_result_def dd out_done)
  next
    case arg
    have o: "a \<noteq> ''-o''" using arg(1) by auto
    have e: "process_all c = process_all ((out c (xs @ [a]))\<lparr>cx_argctr := Suc (cx_argctr c)\<rparr>)" using one(2)[OF arg] by (simp add: step)
    have "loop_result ((out c (xs @ [a]))\<lparr>cx_argctr := Suc (cx_argctr c)\<rparr>) (xs @ [a]) as"
      using "2.prems"(2) d(3) plain_context_out[OF "2.prems"(1)] by (intro "2.IH"(3)[OF o arg]) simp_all
    from loop_argument[OF this e] show ?thesis using arg o by simp
  qed
qed

subsection \<open>The result\<close>

lemma fa_list_simps [simp]: "fa_list \<lparr>fa_argv = None, fa_allocated = b\<rparr> = []" "fa_list \<lparr>fa_argv = Some xs, fa_allocated = b\<rparr> = xs"
  by (simp_all add: fa_list_def)

lemma insert_list:
  assumes "pos \<le> length xs"
  shows "fuse_opt_insert_arg \<lparr>fa_argv = Some xs, fa_allocated = True\<rparr> pos a
    = Done \<lparr>fa_argv = Some (take pos xs @ a # drop pos xs), fa_allocated = True\<rparr>"
  using assms by (simp add: fuse_opt_insert_arg_def fuse_opt_add_arg_def fa_list_def butlast_append)

lemma add_opts_join:
  "fold (\<lambda>s o1. fuse_opt_add_opt o1 s) os None = (if os = [] then None else Some (g_strjoinv (CHR '','') os))"
  using add_opt_join[of os None] by (simp add: fuse_opt_add_opt_def)

lemma plain_parse:
  assumes "fa_list args = first # rest"
  shows "fuse_opt_parse scan args data [] None = Done
    (case split_args rest of None \<Rightarrow> (-1, data, args)
     | Some p \<Rightarrow> (0, data, \<lparr>fa_argv = Some (plain_arguments first p), fa_allocated = True\<rparr>))"
proof -
  define c where "c = \<lparr>cx_data = data, cx_opt = [], cx_proc = None, cx_sscanf = scan, cx_argctr = 1, cx_argv = first # rest,
      cx_outargs = \<lparr>fa_argv = Some [first], fa_allocated = True\<rparr>, cx_opts = None, cx_nonopt = 0\<rparr>"
  have parse: "fuse_opt_parse scan args data [] None = run_bind (process_all c)
         (\<lambda>(res, c2). run_bind (if res = -1 then Done (-1, c2)
            else run_bind (insert_options c2)
              (\<lambda>c3. Done (0, if cx_nonopt c3 \<noteq> 0 \<and> cx_nonopt c3 = length (fa_list (cx_outargs c3))
                 then c3\<lparr>cx_outargs := (cx_outargs c3)\<lparr>fa_argv := Some (butlast (fa_list (cx_outargs c3)))\<rparr>\<rparr> else c3)))
           (\<lambda>(res, c). Done (res, cx_data c, if res = -1 then args else cx_outargs c)))"
    by (simp add: fuse_opt_parse_def opt_parse_def assms add_arg_def fuse_opt_add_arg_def run_bind_assoc c_def case_prod_beta')
  have "loop_result c [first] rest" by (rule plain_all) (simp_all add: c_def plain_context_def)
  then show ?thesis
  proof (cases "split_args rest")
    case None
    then show ?thesis using \<open>loop_result c [first] rest\<close> by (auto simp: loop_result_def parse) (simp_all add: c_def)
  next
    case (Some p)
    obtain os ys r where p: "p = (os, ys, r)" by (metis prod_cases3)
    define tl where "tl = (case r of None \<Rightarrow> [] | Some l \<Rightarrow> ''--'' # l)"
    define n where "n = (case r of None \<Rightarrow> 0 | Some l \<Rightarrow> length [first] + length ys + 1)"
    have o1: "cx_opts c = None" "cx_data c = data" by (simp_all add: c_def)
    obtain k where k: "process_all c = Done (0, done_with c (first # ys @ tl)
        (if os = [] then None else Some (g_strjoinv (CHR '','') os)) n k)"
      using \<open>loop_result c [first] rest\<close> Some by (auto simp: loop_result_def p o1 add_opts_join tl_def n_def)
    show ?thesis
    proof (cases "os = []")
      case True
      have "n \<noteq> 0 \<and> n = length (first # ys @ tl) \<longleftrightarrow> r = Some []" by (auto simp: n_def tl_def split: option.splits)
      then show ?thesis using True Some
        by (auto simp: parse k insert_options_def p o1 plain_arguments_def tl_def butlast_append split: option.splits)
    next
      case False
      have "n \<noteq> length (first # ''-o'' # g_strjoinv (CHR '','') os # ys @ tl)" by (auto simp: n_def tl_def split: option.splits)
      then show ?thesis using False Some
        by (simp add: parse k insert_options_def insert_list p o1 plain_arguments_def tl_def split: option.splits)
    qed
  qed
qed


text \<open>The arguments that are kept do not look like options, so that a second run sees them as the first did.\<close>

definition kept :: "string \<Rightarrow> bool" where
  "kept y \<longleftrightarrow> \<not> prefix ''-o'' y \<and> y \<noteq> ''--''"

lemma split_kept_Cons: "kept y \<Longrightarrow> split_args (y # as) = map_option (\<lambda>(os, xs, r). (os, y # xs, r)) (split_args as)"
  by (auto simp: kept_def)

lemma split_args_kept: "split_args as = Some (os, ys, r) \<Longrightarrow> \<forall>y \<in> set ys. kept y"
proof (induction as arbitrary: os ys r rule: split_args.induct)
  case (2 a as)
  consider (o1) b bs where "a = ''-o''" "as = b # bs" | (o2) "a \<noteq> ''-o''" "prefix ''-o'' a" | (dd) "ys = []" | (arg) "kept a"
    using "2.prems" by (cases as) (auto simp: kept_def split: if_splits)
  then show ?case
  proof cases
    case o1
    then obtain os1 where "split_args bs = Some (os1, ys, r)" using "2.prems" by auto
    then show ?thesis by (rule "2.IH"(1)[OF o1])
  next
    case o2
    then obtain os1 where "split_args as = Some (os1, ys, r)" using "2.prems" by auto
    then show ?thesis by (rule "2.IH"(2)[OF o2])
  next
    case dd
    then show ?thesis by simp
  next
    case arg
    then obtain ys1 where s: "split_args as = Some (os, ys1, r)" "ys = a # ys1"
      using "2.prems" unfolding split_kept_Cons[OF arg] by auto
    have "a \<noteq> ''-o''" using arg by (auto simp: kept_def)
    then have "\<forall>y \<in> set ys1. kept y" using arg by (intro "2.IH"(3)[OF _ _ _ s(1)]) (simp_all add: kept_def)
    then show ?thesis using arg s(2) by simp
  qed
qed simp

lemma split_kept:
  assumes "\<forall>y \<in> set ys. kept y"
  shows "split_args (ys @ as) = map_option (\<lambda>(os, xs, r). (os, ys @ xs, r)) (split_args as)"
  using assms
proof (induction ys)
  case Nil
  then show ?case by (cases "split_args as") auto
next
  case (Cons y ys)
  then show ?case by (cases "split_args as") (auto simp: split_kept_Cons simp del: split_args.simps)
qed

lemma plain_arguments_again:
  assumes "split_args rest = Some p"
  shows "\<exists>p'. split_args (tl (plain_arguments first p)) = Some p' \<and> plain_arguments first' p' = first' # tl (plain_arguments first p)"
proof -
  obtain os ys r where p: "p = (os, ys, r)" by (metis prod_cases3)
  define l where "l = (case r of None \<Rightarrow> None | Some l \<Rightarrow> if os = [] \<and> l = [] then None else Some l)"
  let ?t = "case l of None \<Rightarrow> [] | Some l \<Rightarrow> ''--'' # l"
  have tl: "tl (plain_arguments first p) = (if os = [] then [] else [''-o'', g_strjoinv (CHR '','') os]) @ ys @ ?t"
    by (simp add: p plain_arguments_def l_def split: option.split)
  have t: "split_args ?t = Some ([], [], l)" by (simp split: option.split)
  have ys: "split_args (ys @ ?t) = Some ([], ys, l)"
    unfolding split_kept[OF split_args_kept[OF assms[unfolded p]]] t by simp
  have l: "l \<noteq> Some []" if "os = []" using that by (simp add: l_def split: option.split)
  show ?thesis
  proof (cases "os = []")
    case True
    have "plain_arguments first' ([], ys, l) = first' # ys @ ?t" using l[OF True] by (simp add: plain_arguments_def split: option.split)
    then show ?thesis using ys True unfolding tl by (intro exI[of _ "([], ys, l)"]) simp
  next
    case False
    have "split_args (''-o'' # g_strjoinv (CHR '','') os # ys @ ?t) = Some ([g_strjoinv (CHR '','') os], ys, l)"
      by (simp add: ys del: split_args.simps(1))
    moreover have "plain_arguments first' ([g_strjoinv (CHR '','') os], ys, l) = first' # ''-o'' # g_strjoinv (CHR '','') os # ys @ ?t"
      by (simp add: plain_arguments_def split: option.split)
    ultimately show ?thesis using False unfolding tl by (intro exI[of _ "([g_strjoinv (CHR '','') os], ys, l)"]) (simp del: split_args.simps)
  qed
qed

text \<open>C30: Parsing without templates gathers the options: the list after the first argument becomes
  one \<^verbatim>\<open>-o\<close> with all options in their order, then the other arguments, then \<^verbatim>\<open>--\<close> and what follows it;
  the first argument is never read. The result is a fixed point, with any first argument: parsing it again changes nothing.
  A last \<^verbatim>\<open>-o\<close> without its option is an error that leaves the arguments as they were.\<close>

theorem option_parsing_normalizes:
  assumes "fa_list args = first # rest"
  shows "case split_args rest of
      None \<Rightarrow> fuse_opt_parse scan args data [] None = Done (-1, data, args)
    | Some p \<Rightarrow> \<exists>out. fuse_opt_parse scan args data [] None = Done (0, data, out) \<and>
        fa_list out = plain_arguments first p \<and> fuse_opt_parse scan out data [] None = Done (0, data, out)"
proof (cases "split_args rest")
  case None
  then show ?thesis using plain_parse[OF assms] by simp
next
  case (Some p)
  define out where "out = \<lparr>fa_argv = Some (plain_arguments first p), fa_allocated = True\<rparr>"
  have l: "fa_list out = first # tl (plain_arguments first p)" by (simp add: out_def plain_arguments_def Let_def split_beta)
  obtain p' where p': "split_args (tl (plain_arguments first p)) = Some p'" "plain_arguments first p' = first # tl (plain_arguments first p)"
    using plain_arguments_again[OF Some] by blast
  have o: "out = \<lparr>fa_argv = Some (plain_arguments first p'), fa_allocated = True\<rparr>" using l p'(2) by (simp add: out_def)
  have "fuse_opt_parse scan args data [] None = Done (0, data, out)" using plain_parse[OF assms] Some by (simp add: out_def)
  moreover have "fuse_opt_parse scan out data [] None = Done (0, data, out)" using plain_parse[OF l] p'(1) o by simp
  moreover have "fa_list out = plain_arguments first p" by (simp add: out_def)
  ultimately show ?thesis using Some by auto
qed

theorem option_parsing_normalizes_witness:
  "split_args [''-s'', ''-o'', ''ro,big'', ''-ofsname=x'', ''/mnt'', ''--'', ''-o''] = Some ([''ro,big'', ''fsname=x''], [''-s'', ''/mnt''], Some [''-o'']) \<and>
   (\<exists>out. fuse_opt_parse (\<lambda>_ _. None) \<lparr>fa_argv = Some [''prog'', ''-s'', ''-o'', ''ro,big'', ''-ofsname=x'', ''/mnt'', ''--'', ''-o''], fa_allocated = False\<rparr>
      (\<lambda>_. Int_var 0) [] None = Done (0, \<lambda>_. Int_var 0, out) \<and>
    fa_list out = [''prog'', ''-o'', ''ro,big,fsname=x'', ''-s'', ''/mnt'', ''--'', ''-o''])"
proof -
  have s: "split_args [''-s'', ''-o'', ''ro,big'', ''-ofsname=x'', ''/mnt'', ''--'', ''-o''] = Some ([''ro,big'', ''fsname=x''], [''-s'', ''/mnt''], Some [''-o''])"
    by simp
  let ?args = "\<lparr>fa_argv = Some [''prog'', ''-s'', ''-o'', ''ro,big'', ''-ofsname=x'', ''/mnt'', ''--'', ''-o''], fa_allocated = False\<rparr>"
  have "fa_list ?args = ''prog'' # [''-s'', ''-o'', ''ro,big'', ''-ofsname=x'', ''/mnt'', ''--'', ''-o'']" by (rule fa_list_simps)
  note normal = option_parsing_normalizes[OF this, of "\<lambda>_ _. None" "\<lambda>_. Int_var 0", unfolded s option.case]
  then
  obtain out where o: "fuse_opt_parse (\<lambda>_ _. None) ?args (\<lambda>_. Int_var 0) [] None = Done (0, \<lambda>_. Int_var 0, out)"
      "fa_list out = plain_arguments ''prog'' ([''ro,big'', ''fsname=x''], [''-s'', ''/mnt''], Some [''-o''])"
    by (elim exE conjE)
  have "plain_arguments ''prog'' ([''ro,big'', ''fsname=x''], [''-s'', ''/mnt''], Some [''-o''])
      = [''prog'', ''-o'', ''ro,big,fsname=x'', ''-s'', ''/mnt'', ''--'', ''-o'']"
    by (simp add: plain_arguments_def)
  then show ?thesis by (intro conjI[OF s] exI[of _ out] conjI[OF o(1)]) (simp only: o(2))
qed


subsection \<open>Options with a parameter\<close>

lemma process_matches_skip:
  assumes "\<forall>x \<in> set xs. match_template (op_templ x) arg = None"
  shows "process_matches ctx (xs @ rest) arg is_o = process_matches ctx rest arg is_o"
  using assms by (induction xs) simp_all

lemma find_opt_split:
  assumes "\<forall>x \<in> set xs. match_template (op_templ x) arg = None" "match_template (op_templ opt) arg = Some sep"
  shows "find_opt (xs @ opt # rest) arg = Some (opt # rest, sep)"
  using assms by (induction xs) simp_all

lemma match_parameter:
  assumes "CHR ''='' \<notin> set n"
  shows "match_template (n @ ''=%s'') (n @ ''='' @ v) = Some (length n)"
proof -
  have "takeWhile (\<lambda>x. x \<noteq> CHR ''='') (n @ ''=%s'') = n" using assms by (intro takeWhile_append_stop) auto
  then have "strchr (n @ ''=%s'') (CHR ''='') = Some (length n)" by (simp add: strchr_def)
  then show ?thesis by (simp add: match_template_def Let_def)
qed

lemma parameter_stored:
  assumes "CHR ''='' \<notin> set n" "n \<noteq> ''''" "k \<noteq> NO_OFFSET"
    and "cx_opt ctx = xs @ \<lparr>op_templ = n @ ''=%s'', op_offset = k, op_value = i\<rparr> # ys"
    and "\<forall>x \<in> set (xs @ ys). match_template (op_templ x) (n @ ''='' @ v) = None"
  shows "process_gopt ctx (n @ ''='' @ v) is_o = Done (0, ctx\<lparr>cx_data := (cx_data ctx)(k := String_var v)\<rparr>)"
proof -
  let ?opt = "\<lparr>op_templ = n @ ''=%s'', op_offset = k, op_value = i\<rparr>"
  have m: "match_template (op_templ ?opt) (n @ ''='' @ v) = Some (length n)" using match_parameter[OF assms(1)] by simp
  have ys: "process_matches c ys (n @ ''='' @ v) is_o = Done (0, c)" for c
    using process_matches_skip[of ys "n @ ''='' @ v" c "[]" is_o] assms(5) by simp
  have one: "process_opt ctx ?opt (length n) (n @ ''='' @ v) is_o = Done (0, ctx\<lparr>cx_data := (cx_data ctx)(k := String_var v)\<rparr>)"
    using assms(2,3) by (simp add: process_opt_def process_opt_param_def nth_append)
  have f: "find_opt (cx_opt ctx) (n @ ''='' @ v) = Some (?opt # ys, length n)"
    unfolding assms(4) using assms(5) m by (intro find_opt_split) simp_all
  have "process_matches ctx (?opt # ys) (n @ ''='' @ v) is_o = Done (0, ctx\<lparr>cx_data := (cx_data ctx)(k := String_var v)\<rparr>)"
    using m one ys by (simp add: nth_append)
  then show ?thesis unfolding process_gopt_def f by (simp only: option.case prod.case)
qed

text \<open>An option with a parameter, \<^verbatim>\<open>-o name=value\<close>, that one template \<^verbatim>\<open>name=%s\<close> matches
  sets the variable of the template to the value and is taken out of the arguments, whatever the other templates and
  the processing function are.\<close>

theorem parameter_read_back:
  assumes "CHR ''='' \<notin> set n" "n \<noteq> ''''" "CHR '','' \<notin> set (n @ v)" "k \<noteq> NO_OFFSET"
    and "\<forall>x \<in> set (xs @ ys). match_template (op_templ x) (n @ ''='' @ v) = None"
  shows "fuse_opt_parse scan \<lparr>fa_argv = Some [prog, ''-o'', n @ ''='' @ v], fa_allocated = a\<rparr> data
      (xs @ \<lparr>op_templ = n @ ''=%s'', op_offset = k, op_value = i\<rparr> # ys) proc
    = Done (0, data(k := String_var v), \<lparr>fa_argv = Some [prog], fa_allocated = True\<rparr>)"
proof -
  let ?o = "n @ ''='' @ v"
  define c where "c = \<lparr>cx_data = data, cx_opt = xs @ \<lparr>op_templ = n @ ''=%s'', op_offset = k, op_value = i\<rparr> # ys, cx_proc = proc,
      cx_sscanf = scan, cx_argctr = 1, cx_argv = [prog, ''-o'', ?o],
      cx_outargs = \<lparr>fa_argv = Some [prog], fa_allocated = True\<rparr>, cx_opts = None, cx_nonopt = 0\<rparr>"
  have nc: "strchr ?o (CHR '','') = None" using assms(3) by (simp add: strchr_def)
  have "process_gopt (c\<lparr>cx_argctr := 2\<rparr>) ?o True = Done (0, c\<lparr>cx_argctr := 2, cx_data := data(k := String_var v)\<rparr>)"
    by (subst parameter_stored[OF assms(1,2,4) _ assms(5), of _ i]) (simp_all add: c_def)
  then have "process_one c ''-o'' = Done (0, c\<lparr>cx_argctr := 2, cx_data := data(k := String_var v)\<rparr>)"
    using nc by (simp add: process_one_def next_arg_def process_option_group_def c_def numeral_2_eq_2)
  then have "process_all c = process_all (c\<lparr>cx_argctr := 3, cx_data := data(k := String_var v)\<rparr>)"
    by (subst process_all.simps) (simp add: c_def)
  also have "\<dots> = Done (0, c\<lparr>cx_argctr := 3, cx_data := data(k := String_var v)\<rparr>)"
    by (subst process_all.simps) (simp add: c_def)
  finally show ?thesis
    by (simp add: fuse_opt_parse_def opt_parse_def add_arg_def fuse_opt_add_arg_def insert_options_def c_def)
qed

theorem parameter_read_back_witness:
  "fuse_opt_parse (\<lambda>_ _. None) \<lparr>fa_argv = Some [''prog'', ''-o'', ''fsname=tagsistant''], fa_allocated = False\<rparr> (\<lambda>_. Int_var 0)
      [\<lparr>op_templ = ''-s'', op_offset = 0, op_value = 1\<rparr>, \<lparr>op_templ = ''fsname=%s'', op_offset = 8, op_value = 0\<rparr>] None
    = Done (0, (\<lambda>_. Int_var 0)(8 := String_var ''tagsistant''), \<lparr>fa_argv = Some [''prog''], fa_allocated = True\<rparr>)"
  using parameter_read_back[of "''fsname''" "''tagsistant''" 8 "[\<lparr>op_templ = ''-s'', op_offset = 0, op_value = 1\<rparr>]" "[]" "\<lambda>_ _. None" "''prog''" False
      "\<lambda>_. Int_var 0" 0 None]
  by (simp add: NO_OFFSET_def match_template_def strchr_def)


subsection \<open>The arguments of the daemon\<close>

lemma split_options:
  assumes "\<forall>s \<in> set ss. s \<noteq> ''''"
  shows "split_args (map (\<lambda>s. ''-o'' @ s) ss @ as) = map_option (\<lambda>(os, xs, r). (ss @ os, xs, r)) (split_args as)"
  using assms
proof (induction ss)
  case Nil
  then show ?case by (cases "split_args as") auto
next
  case (Cons s ss)
  then show ?case by (cases "split_args as") auto
qed

definition daemon_flags :: "options \<Rightarrow> string list" where
  "daemon_flags o1 = (if o_singlethread o1 then [''-s''] else []) @ (if o_readonly o1 then [''-r''] else [])
     @ (if o_foreground o1 then [''-f''] else []) @ (if o_verbose o1 then [''-d''] else [])"

lemma daemon_flags_kept: "\<forall>y \<in> set (daemon_flags o1). kept y"
proof -
  have "kept ''-s''" "kept ''-r''" "kept ''-f''" "kept ''-d''" by (simp_all add: kept_def)
  then show ?thesis by (auto simp: daemon_flags_def)
qed

lemma daemon_options_split:
  assumes "\<forall>s \<in> set (o_fuse_opts o1). s \<noteq> ''''" "kept m"
  shows "split_args (tl (fuse_arguments o1 @ [m]))
    = Some ([''max_write=32768'', ''max_read=32768'', ''fsname=tagsistant''] @ o_fuse_opts o1, daemon_flags o1 @ [m], None)"
proof -
  have t: "tl (fuse_arguments o1 @ [m]) = map (\<lambda>s. ''-o'' @ s) [''max_write=32768'', ''max_read=32768'', ''fsname=tagsistant''] @
      daemon_flags o1 @ map (\<lambda>s. ''-o'' @ s) (o_fuse_opts o1) @ [m]"
    by (simp add: fuse_arguments_def daemon_flags_def)
  have m: "split_args [m] = Some ([], [m], None)" using split_kept_Cons[OF assms(2), of "[]"] by simp
  have first: "\<forall>s \<in> set [''max_write=32768'', ''max_read=32768'', ''fsname=tagsistant'']. s \<noteq> ''''" by simp
  show ?thesis unfolding t split_options[OF first] split_kept[OF daemon_flags_kept] split_options[OF assms(1)] m by simp
qed

text \<open>The arguments that \<^verbatim>\<open>main\<close> builds do not start with a program name, so that the
  parser takes the first one, \<^verbatim>\<open>-obig_writes\<close>, for it: the list of options FUSE gets has the others and
  those of the command line, in order, but not \<^verbatim>\<open>big_writes\<close>.\<close>

theorem first_daemon_option_lost:
  assumes "\<forall>s \<in> set (o_fuse_opts o1). s \<noteq> ''''" "\<not> prefix ''-o'' m" "m \<noteq> ''--''"
  shows "fuse_opt_parse scan \<lparr>fa_argv = Some (fuse_arguments o1 @ [m]), fa_allocated = True\<rparr> data [] None
    = Done (0, data, \<lparr>fa_argv = Some ([''-obig_writes'', ''-o'', g_strjoinv (CHR '','')
          ([''max_write=32768'', ''max_read=32768'', ''fsname=tagsistant''] @ o_fuse_opts o1)] @ daemon_flags o1 @ [m]), fa_allocated = True\<rparr>)"
proof -
  have "fa_list \<lparr>fa_argv = Some (fuse_arguments o1 @ [m]), fa_allocated = True\<rparr> = ''-obig_writes'' # tl (fuse_arguments o1 @ [m])"
    by (simp add: fuse_arguments_def)
  moreover have "kept m" using assms(2,3) by (simp add: kept_def)
  ultimately show ?thesis
    by (simp add: plain_parse daemon_options_split[OF assms(1)] plain_arguments_def del: g_strjoinv.simps)
qed

definition sample_options :: options where
  "sample_options = \<lparr>o_show_help = False, o_show_version = False, o_remaining = [''/mnt''], o_repository = None, o_tags_suffix = None,
     o_singlethread = True, o_readonly = False, o_foreground = False, o_verbose = False, o_dboptions = None,
     o_show_config = False, o_fuse_opts = [''allow_other'']\<rparr>"

theorem first_daemon_option_lost_witness:
  "fuse_opt_parse (\<lambda>_ _. None) \<lparr>fa_argv = Some (fuse_arguments sample_options @ [''/mnt'']), fa_allocated = True\<rparr> (\<lambda>_. Int_var 0) [] None
    = Done (0, \<lambda>_. Int_var 0, \<lparr>fa_argv = Some [''-obig_writes'', ''-o'',
        ''max_write=32768,max_read=32768,fsname=tagsistant,allow_other'', ''-s'', ''/mnt''], fa_allocated = True\<rparr>)"
proof -
  have "\<forall>s \<in> set (o_fuse_opts sample_options). s \<noteq> ''''" "\<not> prefix ''-o'' ''/mnt''" "''/mnt'' \<noteq> ''--''"
    by (simp_all add: sample_options_def)
  from first_daemon_option_lost[OF this] show ?thesis by (simp add: daemon_flags_def sample_options_def)
qed

end
