(* ===== verification/Spec2Isabelle.thy ===== *)
theory Spec2Isabelle
  imports Alias_Expansion Store_Sessions Reasoner_Cache Query_Types Query_Caches Database_Boot Fuse_Opt
begin

text \<open>
  A model of Tagsistant, a semantic file system for FUSE whose directories are tags, with proofs of
  what its components promise.

  \<^bold>\<open>The program.\<close> The daemon is \<^verbatim>\<open>src/src/tagsistant.c\<close>: it reads its options, opens
  the repository and the database, loads the plugins, and gives FUSE a table of operations, each a
  file of \<^verbatim>\<open>src/src/fuse_operations\<close>. An operation turns its path into a query tree
  (\<^verbatim>\<open>path_resolution.c\<close>): the kind of query is the first component of the path; under
  \<^verbatim>\<open>store/\<close> the tags up to the delimiter \<^verbatim>\<open>@\<close> are an or-list of and-lists of
  criteria, each extended with the related tags the reasoner finds (\<^verbatim>\<open>reasoner.c\<close>), and the
  inode of the object is read from its name or guessed from its tags. The operation then reads and
  writes the tables (\<^verbatim>\<open>sql.c\<close>) and the file under \<^verbatim>\<open>archive/\<close>, and destroys the query
  tree, which commits or rolls back and gives the connection and the lock back. The flush of a
  written file merges it with an older copy of the same content (\<^verbatim>\<open>deduplication.c\<close>) and
  queues it for the thread that tags it with its keywords (\<^verbatim>\<open>plugin.c\<close>,
  \<^verbatim>\<open>src/src/plugins\<close>).

  \<^bold>\<open>The model.\<close> The state is the record \<open>world\<close> of theory \<open>Environment\<close>: the tables
  with the snapshot of the open transaction, the cache of tag ids, the log of the locks, the pool of
  connections, the autotagging queue, and the state \<open>'fs\<close> of the underlying file system, which stays
  abstract. What is not under \<^verbatim>\<open>src/\<close> is a field of the record \<open>env\<close>: system calls, the
  row order of the SQL engine, GRegex on patterns that are not fixed, SHA1, libextractor, and the table
  of results \<^verbatim>\<open>tagsistant_RDS_new()\<close>, whose file \<^verbatim>\<open>rds.c\<close> is named by the makefile
  and absent. A C function is a definition of the same name that takes and returns the state it
  changes. Its outcome is \<open>Done\<close>, \<open>Segv\<close> for an access outside of a buffer or through
  NULL, or \<open>Hang\<close> for a loop that never ends; error codes are values. Inodes and tag ids are words of 32 bits.

  \<^item> \<open>Prelude\<close>, \<open>Glib_Strings\<close>: outcomes, error numbers, NULL-able strings, the functions
    of GLib, the fixed regular expressions as predicates.
  \<^item> \<open>Database\<close>: the tables of \<^verbatim>\<open>tagsistant_create_schema()\<close>, one function for each
    statement of the program, the invariant \<open>db_ok\<close> of the keys and constraints.
  \<^item> \<open>Query_Tree\<close>: \<^verbatim>\<open>path_resolution.h\<close>. \<open>Environment\<close>: \<^verbatim>\<open>tagsistant.h\<close>.
  \<^item> \<open>Statement\<close>, \<open>Sql_Layer\<close>, \<open>Tag_Store\<close>: \<^verbatim>\<open>sql.c\<close>: the escaping of
    statements; connections, locks, transactions, tags, taggings, aliases and the cache of tag ids; what
    they promise, through the locale \<open>tag_ids\<close> and its interpretation.
  \<^item> \<open>Reasoner\<close>: \<^verbatim>\<open>reasoner.c\<close> against reachability over the relations. \<open>Reasoner_Cache\<close>: the cache
    of its results, which \<^verbatim>\<open>tagsistant.h\<close> switches off.
  \<^item> \<open>Path_Parser\<close>, \<open>Path_Resolution\<close>, \<open>Alias_Expansion\<close>:
    \<^verbatim>\<open>path_resolution.c\<close>: the parsers, the building of query trees, the expansion of aliases.
  \<^item> \<open>Object_Utils\<close>: \<^verbatim>\<open>utils.c\<close>. \<open>Operation\<close>: the frame of an operation, and the
    locales \<open>operation\<close> and \<open>pure_operation\<close>, the contract of its body.
  \<^item> \<open>Fuse_Directories\<close>, \<open>Fuse_Objects\<close>, \<open>Fuse_Attributes\<close>, \<open>Fuse_Files\<close>,
    \<open>Fuse_Readdir\<close>: the handlers, whole, each an interpretation of those locales (or of
    \<open>reader\<close> and \<open>pure_reader\<close>, for those that return something).
  \<^item> \<open>Deduplication\<close>: \<^verbatim>\<open>deduplication.c\<close>. \<open>Autotagging\<close>: \<^verbatim>\<open>plugin.c\<close> for
    libextractor 0.5, the ten processors as interpretations of \<open>processor_contract\<close>, and the step
    relation of the daemon with its thread.
  \<^item> \<open>Fuse_Server\<close>: the table \<^verbatim>\<open>tagsistant_oper\<close> as a dispatcher, and sessions.
    \<open>Object_Lifecycle\<close>: the tables as a map from objects to sets of tags, and the refinement of unlink.
    \<open>Directory_Lifecycle\<close>, \<open>File_Lifecycle\<close>: what a client sees of a directory and of a file from
    its creation to its removal, the handlers composed; and names after a triple tag, which all seem to exist.
    \<open>File_Rename\<close>: what a rename does to the object, its name and its tags. \<open>Store_Sessions\<close>: the abstract
    machine, a set of tags and a map from file names to sets of tags, and the proof that sessions of mkdir, rmdir,
    getattr and readdir on tags and of mknod, unlink, rename and getattr on files implement it.
  \<^item> \<open>Query_Types\<close>: which fields a query tree has for which kind of query, for every tree
    that path resolution returns. \<open>Query_Caches\<close>: the two caches of \<^verbatim>\<open>path_resolution.c\<close> that
    \<^verbatim>\<open>tagsistant.h\<close> switches off, and what goes wrong with them on.
  \<^item> \<open>Startup\<close>: \<^verbatim>\<open>main()\<close>, \<^verbatim>\<open>repository.ini\<close>, the database options, the loader
    of plugins. \<open>Database_Boot\<close>: the pool of connections of \<^verbatim>\<open>sql.c\<close>, against the counters of
    \<open>Sql_Layer\<close>, and the creation of the schema. \<open>Fuse_Opt\<close>: \<^verbatim>\<open>src/src/compat/fuse_opt.c\<close>,
    the option parser of FUSE, against a specification of the normal form it computes, and the arguments
    the daemon builds for it.

  \<^bold>\<open>Bounds.\<close> The expansion of aliases may not end: it is a \<^verbatim>\<open>partial_function\<close>, with theorems
  that say when it ends and that an alias which mentions itself makes it run forever. Every other loop is
  total. No fuel is used. A path has at most 512 tokens, as in the code.

  \<^bold>\<open>Not modelled.\<close> The messages of \<^verbatim>\<open>debug.h\<close>; the memory that is freed; the parsing of
  the command line, which is GOptionContext's; \<^verbatim>\<open>docs/example/fusexmp.c\<close>, an example of
  FUSE which is not part of the program; the variant of \<^verbatim>\<open>plugin.c\<close> for libextractor 0.6, which
  does not compile; concurrency inside an operation, since the daemon runs one writer at a time and the
  model takes a request to be one step.
\<close>

end
